(* ===== verification/Prelude.thy ===== *)
theory Prelude
  imports Main "HOL-Library.Finite_Map" "HOL-Library.List_Lexorder" "HOL-Library.Char_ord"
    "HOL-Library.Word" "HOL-Library.Multiset"
begin

text \<open>
  The prelude of the orchy development: what Go itself contributes to the model.

  \<^item> \<^bold>\<open>Panics.\<close> A Go computation ends with a value or with a run-time panic
    (\<open>'a res\<close>). Go's \<open>error\<close> values are ordinary data and are modelled by the type
    \<open>error\<close> of the theory \<open>Model\<close>, never by a panic.
  \<^item> \<^bold>\<open>Integers.\<close> Go's \<open>int\<close> and \<open>int64\<close> are HOL integers whose arithmetic is
    reduced by \<open>i64\<close> where the source computes; \<open>i32\<close> is the conversion to
    \<open>int32\<close>. Both agree with the signed words of \<open>HOL-Library.Word\<close>.
  \<^item> \<^bold>\<open>Maps.\<close> A Go map is a finite map (\<open>fmap\<close>); where the source distinguishes a nil
    map from an empty one the model has an option of a finite map. The order in which
    \<open>range\<close> visits the keys is not defined by Go: it is a function \<open>ord\<close> that
    permutes the key list, and every loop over a map takes it as an argument.
  \<^item> \<^bold>\<open>Loops\<close> over slices that may panic are folds in the \<open>res\<close> monad.
\<close>

section \<open>Collections of rewrite rules\<close>

named_theorems go_simps \<open>evaluation of the Go library functions\<close>
named_theorems fm_simps \<open>evaluation of finite maps\<close>

section \<open>Panics\<close>

datatype go_panic =
    NilDeref            \<comment> \<open>method call or field access through nil\<close>
  | IndexOutOfRange     \<comment> \<open>slice index out of range\<close>
  | TypeAssertion       \<comment> \<open>failed \<open>x.(T)\<close>\<close>
  | StackOverflow       \<comment> \<open>the goroutine exceeds its stack limit\<close>
  | PanicCall           \<comment> \<open>a call of \<open>panic\<close>\<close>

datatype 'a res = Val 'a | Panic go_panic

fun bind_res :: "'a res \<Rightarrow> ('a \<Rightarrow> 'b res) \<Rightarrow> 'b res" where
  "bind_res (Val a) f = f a"
| "bind_res (Panic p) f = Panic p"

lemma bind_res_Val_iff:
  "bind_res m f = Val b \<longleftrightarrow> (\<exists>a. m = Val a \<and> f a = Val b)"
  by (cases m) auto

lemma bind_res_assoc:
  "bind_res (bind_res m f) g = bind_res m (\<lambda>a. bind_res (f a) g)"
  by (cases m) auto

section \<open>Machine integers\<close>

definition i64 :: "int \<Rightarrow> int" where
  "i64 x = (x + 2 ^ 63) mod 2 ^ 64 - 2 ^ 63"

definition i32 :: "int \<Rightarrow> int" where
  "i32 x = (x + 2 ^ 31) mod 2 ^ 32 - 2 ^ 31"

lemma i64_sint: "i64 x = sint (word_of_int x :: 64 word)"
  by (simp add: i64_def sint_sbintrunc' signed_take_bit_eq_take_bit_shift take_bit_eq_mod)

lemma i32_sint: "i32 x = sint (word_of_int x :: 32 word)"
  by (simp add: i32_def sint_sbintrunc' signed_take_bit_eq_take_bit_shift take_bit_eq_mod)

lemma i64_id: "- (2 ^ 63) \<le> x \<Longrightarrow> x < 2 ^ 63 \<Longrightarrow> i64 x = x"
  by (simp add: i64_def)

lemma i32_id: "- (2 ^ 31) \<le> x \<Longrightarrow> x < 2 ^ 31 \<Longrightarrow> i32 x = x"
  by (simp add: i32_def)

lemma i64_range: "- (2 ^ 63) \<le> i64 x" "i64 x < 2 ^ 63"
  using sint_ge [of "word_of_int x :: 64 word"] sint_lt [of "word_of_int x :: 64 word"]
  by (simp_all add: i64_sint)

section \<open>Go maps\<close>

text \<open>Evaluation of concrete maps, and the visiting order of a \<open>range\<close> loop.\<close>

lemmas [fm_simps] = fmmap_fmupd fmdrop_fmupd fmadd_fmupd

definition range_keys :: "('k list \<Rightarrow> 'k list) \<Rightarrow> ('k::linorder, 'v) fmap \<Rightarrow> 'k list" where
  "range_keys ord m = ord (sorted_list_of_fset (fmdom m))"

definition perm_fun :: "('k list \<Rightarrow> 'k list) \<Rightarrow> bool" where
  "perm_fun ord \<longleftrightarrow> (\<forall>ks. mset (ord ks) = mset ks)"

lemma perm_fun_id [simp, intro!]: "perm_fun (\<lambda>ks. ks)"
  by (simp add: perm_fun_def)

lemma perm_fun_rev [simp, intro!]: "perm_fun rev"
  by (simp add: perm_fun_def)

lemma set_range_keys [simp]: "perm_fun ord \<Longrightarrow> set (range_keys ord m) = fmdom' m"
proof -
  assume "perm_fun ord"
  then have "mset (range_keys ord m) = mset (sorted_list_of_fset (fmdom m))"
    by (simp add: perm_fun_def range_keys_def)
  then have "set (range_keys ord m) = set (sorted_list_of_fset (fmdom m))"
    by (rule mset_eq_setD)
  then show ?thesis by (simp add: fmdom'_alt_def)
qed

lemma distinct_range_keys: "perm_fun ord \<Longrightarrow> distinct (range_keys ord m)"
proof -
  assume "perm_fun ord"
  then have "mset (range_keys ord m) = mset (sorted_list_of_fset (fmdom m))"
    by (simp add: perm_fun_def range_keys_def)
  moreover have "distinct (sorted_list_of_fset (fmdom m))"
    by (simp add: sorted_list_of_fset.rep_eq)
  ultimately show ?thesis
    by (metis mset_eq_imp_distinct_iff)
qed

lemma range_keys_eq_Nil: "perm_fun ord \<Longrightarrow> range_keys ord m = [] \<longleftrightarrow> m = fmempty"
proof -
  assume p: "perm_fun ord"
  have "range_keys ord m = [] \<longleftrightarrow> fmdom' m = {}"
    using set_range_keys [OF p, of m] by (metis set_empty)
  also have "\<dots> \<longleftrightarrow> m = fmempty"
    by (metis fmdom'_empty fmdom'_notD empty_iff fmap_ext fmempty_lookup)
  finally show ?thesis .
qed

text \<open>What the Go run-time contributes to one run: the visiting orders of string-keyed and of
  int-keyed maps, and the number of nested calls the goroutine stack has room for.\<close>

record runtime =
  ordS :: "string list \<Rightarrow> string list"
  ordI :: "int list \<Rightarrow> int list"
  maxDepth :: nat

definition fair :: "runtime \<Rightarrow> bool" where
  "fair rt \<longleftrightarrow> perm_fun (ordS rt) \<and> perm_fun (ordI rt)"

lemma fairD [dest]: "fair rt \<Longrightarrow> perm_fun (ordS rt)" "fair rt \<Longrightarrow> perm_fun (ordI rt)"
  by (simp_all add: fair_def)

section \<open>Loops that return early\<close>

text \<open>A loop whose body returns from the function when it finds a value.\<close>

fun first_some :: "('a \<Rightarrow> 'b option) \<Rightarrow> 'a list \<Rightarrow> 'b option" where
  "first_some f [] = None"
| "first_some f (x # xs) = (case f x of Some e \<Rightarrow> Some e | None \<Rightarrow> first_some f xs)"

lemma first_some_None_iff: "first_some f xs = None \<longleftrightarrow> (\<forall>x\<in>set xs. f x = None)"
  by (induction xs) (auto split: option.splits)

lemma first_some_SomeD: "first_some f xs = Some e \<Longrightarrow> \<exists>x\<in>set xs. f x = Some e"
  by (induction xs) (auto split: option.splits)

section \<open>Loops that may panic\<close>

fun fold_res :: "('a \<Rightarrow> 'b \<Rightarrow> 'b res) \<Rightarrow> 'a list \<Rightarrow> 'b \<Rightarrow> 'b res" where
  "fold_res f [] acc = Val acc"
| "fold_res f (x # xs) acc = bind_res (f x acc) (fold_res f xs)"

lemma fold_res_append:
  "fold_res f (xs @ ys) acc = bind_res (fold_res f xs acc) (fold_res f ys)"
proof (induction xs arbitrary: acc)
  case (Cons x xs)
  then show ?case by (cases "f x acc") auto
qed simp

text \<open>A loop that combines the results of \<open>g\<close> succeeds when every call does, and then it
  is the pure fold of the results.\<close>

lemma fold_res_combine:
  "fold_res (\<lambda>x acc. bind_res (g x) (\<lambda>out. Val (c acc out))) xs acc = Val r \<longleftrightarrow>
     (\<exists>outs. list_all2 (\<lambda>x out. g x = Val out) xs outs \<and> r = foldl c acc outs)"
proof (induction xs arbitrary: acc)
  case (Cons x xs)
  show ?case
  proof (cases "g x")
    case (Val out)
    with Cons show ?thesis
      by (auto simp: list_all2_Cons1 intro: exI [where x = "out # _"])
  next
    case (Panic p)
    then show ?thesis by (auto simp: list_all2_Cons1)
  qed
qed auto

lemma list_all2_inD1: "list_all2 P xs ys \<Longrightarrow> x \<in> set xs \<Longrightarrow> \<exists>y\<in>set ys. P x y"
  by (induction xs ys rule: list_all2_induct) auto

lemma list_all2_inD2: "list_all2 P xs ys \<Longrightarrow> y \<in> set ys \<Longrightarrow> \<exists>x\<in>set xs. P x y"
  by (induction xs ys rule: list_all2_induct) auto

lemma foldl_append_concat: "foldl (@) acc xss = acc @ concat xss"
  by (induction xss arbitrary: acc) simp_all

lemma fold_res_combine_ex:
  "(\<exists>r. fold_res (\<lambda>x acc. bind_res (g x) (\<lambda>out. Val (c acc out))) xs acc = Val r) \<longleftrightarrow>
     (\<forall>x\<in>set xs. \<exists>out. g x = Val out)"
proof (induction xs arbitrary: acc)
  case (Cons x xs)
  then show ?case by (cases "g x") auto
qed simp

end
