(* ===== verification/Go_Strings.thy ===== *)
theory Go_Strings
  imports Prelude
begin

text \<open>
  The functions of Go's \<open>strings\<close>, \<open>strconv\<close> and \<open>fmt\<close> packages that orchy calls.
  A Go string is a sequence of bytes, here a list of characters. \<open>Itoa\<close> and \<open>Atoi\<close> are
  the decimal conversions (\<open>Atoi\<close> with Go's results for malformed and out-of-range input,
  because orchy ignores the error), \<open>Split\<close> and \<open>Join\<close> work on a one-character
  separator, \<open>EqualFold\<close> compares under simple case folding against an ASCII literal.
\<close>

section \<open>Definitions\<close>

definition digit_char :: "nat \<Rightarrow> char" where
  "digit_char d = char_of (48 + d)"

definition digit_val :: "char \<Rightarrow> nat option" where
  "digit_val c = (let n = of_char c in if 48 \<le> n \<and> n \<le> (57::nat) then Some (n - 48) else None)"

fun nat_digits :: "nat \<Rightarrow> string" where
  "nat_digits n =
     (if n < 10 then [digit_char n] else nat_digits (n div 10) @ [digit_char (n mod 10)])"

definition Itoa :: "int \<Rightarrow> string" where
  "Itoa i = (if i < 0 then CHR ''-'' # nat_digits (nat (- i)) else nat_digits (nat i))"

datatype uint_result = UVal nat | USyntax | URange

text \<open>The digit loop of \<open>strconv.ParseUint\<close>: it stops at the first bad digit or at the
  first overflow of 64 bits, whichever comes first.\<close>

fun parse_uint :: "nat \<Rightarrow> string \<Rightarrow> uint_result" where
  "parse_uint acc [] = UVal acc"
| "parse_uint acc (c # cs) =
     (case digit_val c of
        None \<Rightarrow> USyntax
      | Some d \<Rightarrow> if acc * 10 + d \<ge> 2 ^ 64 then URange else parse_uint (acc * 10 + d) cs)"

definition split_sign :: "string \<Rightarrow> bool \<times> string" where
  "split_sign s =
     (case s of [] \<Rightarrow> (False, [])
      | c # cs \<Rightarrow> if c = CHR ''-'' then (True, cs) else if c = CHR ''+'' then (False, cs)
                 else (False, s))"

text \<open>\<open>strconv.Atoi\<close>: the value Go returns and whether the error is non-nil.\<close>

definition Atoi :: "string \<Rightarrow> int \<times> bool" where
  "Atoi s =
     (let (neg, ds) = split_sign s in
      if ds = [] then (0, True)
      else case parse_uint 0 ds of
        USyntax \<Rightarrow> (0, True)
      | URange \<Rightarrow> (if neg then - (2 ^ 63) else 2 ^ 63 - 1, True)
      | UVal n \<Rightarrow>
          if \<not> neg \<and> n \<ge> 2 ^ 63 then (2 ^ 63 - 1, True)
          else if neg \<and> n > 2 ^ 63 then (- (2 ^ 63), True)
          else (if neg then - int n else int n, False))"

fun Split :: "char \<Rightarrow> string \<Rightarrow> string list" where
  "Split sep [] = [[]]"
| "Split sep (c # cs) =
     (if c = sep then [] # Split sep cs
      else case Split sep cs of [] \<Rightarrow> [[c]] | p # ps \<Rightarrow> (c # p) # ps)"

fun Join :: "string list \<Rightarrow> char \<Rightarrow> string" where
  "Join [] sep = []"
| "Join [s] sep = s"
| "Join (s # t # ts) sep = s @ sep # Join (t # ts) sep"

definition HasPrefix :: "string \<Rightarrow> string \<Rightarrow> bool" where
  "HasPrefix s prefix \<longleftrightarrow> take (length prefix) s = prefix"

definition to_lower :: "char \<Rightarrow> char" where
  "to_lower c = (let n = of_char c in if 65 \<le> n \<and> n \<le> (90::nat) then char_of (n + 32) else c)"

text \<open>
  Simple case folding, as far as it can reach an ASCII letter: upper-case letters, and the
  two non-ASCII runes that fold to one, U+017F (bytes C5 BF) to \<open>s\<close> and U+212A (bytes
  E2 84 AA) to \<open>k\<close>. A string equals an ASCII literal under folding exactly when these
  normal forms agree.
\<close>

fun fold_case :: "string \<Rightarrow> string" where
  "fold_case [] = []"
| "fold_case (a # cs) =
     (if a = CHR 0xC5 \<and> cs \<noteq> [] \<and> hd cs = CHR 0xBF then CHR ''s'' # fold_case (drop 1 cs)
      else if a = CHR 0xE2 \<and> take 2 cs = [CHR 0x84, CHR 0xAA]
      then CHR ''k'' # fold_case (drop 2 cs)
      else to_lower a # fold_case cs)"

definition EqualFold :: "string \<Rightarrow> string \<Rightarrow> bool" where
  "EqualFold s t \<longleftrightarrow> fold_case s = fold_case t"

section \<open>Decimal conversion\<close>

declare nat_digits.simps [simp del]

lemma digit_val_digit_char: "d < 10 \<Longrightarrow> digit_val (digit_char d) = Some d"
  by (simp add: digit_val_def digit_char_def Let_def)

lemma nat_digits_nonempty [simp]: "nat_digits n \<noteq> []"
  by (subst nat_digits.simps) simp

lemma set_nat_digits: "c \<in> set (nat_digits n) \<Longrightarrow> digit_val c \<noteq> None"
proof (induction n rule: nat_digits.induct)
  case (1 n)
  then show ?case
    by (cases "n < 10")
       (auto simp: nat_digits.simps [of n] digit_val_digit_char)
qed

lemma parse_uint_append:
  "parse_uint acc (xs @ ys) =
     (case parse_uint acc xs of UVal n \<Rightarrow> parse_uint n ys | r \<Rightarrow> r)"
  by (induction xs arbitrary: acc) (auto split: option.splits)

lemma parse_uint_nat_digits: "n < 2 ^ 64 \<Longrightarrow> parse_uint 0 (nat_digits n) = UVal n"
proof (induction n rule: nat_digits.induct)
  case (1 n)
  show ?case
  proof (cases "n < 10")
    case True
    then show ?thesis by (simp add: nat_digits.simps [of n] digit_val_digit_char)
  next
    case False
    have "parse_uint 0 (nat_digits (n div 10)) = UVal (n div 10)"
      using 1 False by auto
    then show ?thesis
      using False "1.prems"
      by (simp add: nat_digits.simps [of n] parse_uint_append digit_val_digit_char)
  qed
qed

lemma digit_not_sign: "digit_val c \<noteq> None \<Longrightarrow> c \<noteq> CHR ''-'' \<and> c \<noteq> CHR ''+'' \<and> c \<noteq> CHR '':''"
  by (auto simp: digit_val_def)

lemma split_sign_nat_digits: "split_sign (nat_digits n) = (False, nat_digits n)"
proof (cases "nat_digits n")
  case (Cons c cs)
  then have "digit_val c \<noteq> None" using set_nat_digits [of c n] by simp
  with Cons show ?thesis by (simp add: split_sign_def digit_not_sign)
qed simp

theorem Atoi_Itoa:
  assumes "- (2 ^ 63) \<le> i" and "i < 2 ^ 63"
  shows "Atoi (Itoa i) = (i, False)"
proof (cases "i < 0")
  case True
  moreover have "nat (- i) \<le> 2 ^ 63" using assms(1) by (simp add: nat_le_iff)
  ultimately show ?thesis
    using parse_uint_nat_digits [of "nat (- i)"]
    by (simp add: Atoi_def Itoa_def split_sign_def)
next
  case False
  moreover have "nat i < 2 ^ 63" using assms(2) False by (simp add: nat_less_iff)
  ultimately show ?thesis
    using parse_uint_nat_digits [of "nat i"]
    by (simp add: Atoi_def Itoa_def split_sign_nat_digits)
qed

lemma no_colon_Itoa [simp]: "CHR '':'' \<notin> set (Itoa i)"
  using set_nat_digits [of "CHR '':''"] digit_not_sign [of "CHR '':''"]
  by (auto simp: Itoa_def)

section \<open>Splitting and joining\<close>

lemma Split_nonempty [simp]: "Split sep s \<noteq> []"
  by (cases s) (auto split: list.splits)

lemma Split_no_sep: "sep \<notin> set s \<Longrightarrow> Split sep s = [s]"
  by (induction s) auto

lemma Split_prefix: "sep \<notin> set a \<Longrightarrow> Split sep (a @ sep # b) = a # Split sep b"
  by (induction a) auto

theorem Split_Join:
  "ss \<noteq> [] \<Longrightarrow> (\<And>s. s \<in> set ss \<Longrightarrow> sep \<notin> set s) \<Longrightarrow> Split sep (Join ss sep) = ss"
  by (induction ss sep rule: Join.induct) (auto simp: Split_no_sep Split_prefix)

theorem Join_Split: "Join (Split sep s) sep = s"
proof (induction s)
  case (Cons c cs)
  obtain p ps where "Split sep cs = p # ps" by (cases "Split sep cs") auto
  with Cons show ?case by (cases ps) auto
qed simp

end
