(* ===== verification/Model.thy ===== *)
theory Model
  imports Complex_Main Prelude Go_Strings
begin

text \<open>
  The data model: the structs of \<open>src/model\<close>, the dynamically typed values \<open>any\<close> that
  flow through a workflow, and the \<open>error\<close> values the code returns. Structs are records and
  enumerations are datatypes; a string-typed enumeration that other strings can reach
  (\<open>FlowState\<close>, \<open>ActionType\<close>) keeps a constructor for them.
\<close>

section \<open>Dynamic values\<close>

text \<open>
  The dynamic types a value of Go type \<open>any\<close> takes in orchy: what \<open>encoding/json\<close>
  produces (nil, bool, float64, string, slices, string-keyed maps), the numeric types the
  switch action tests for, and the \<open>time.Duration\<close> stored in an action's parameters.
  Finite floating-point numbers are rationals. \<open>VNilSlice\<close> is a nil slice of type
  \<open>[]any\<close>, which \<open>encoding/json\<close> renders as null, unlike the empty slice
  \<open>VList []\<close>.
\<close>

datatype any =
    VNil
  | VBool bool
  | VInt int
  | VInt16 int
  | VInt32 int
  | VInt64 int
  | VFloat32 rat
  | VFloat64 rat
  | VString string
  | VDuration int
  | VNilSlice
  | VList "any list"
  | VMap "(string, any) fmap"

type_synonym anymap = "(string, any) fmap"

section \<open>Errors\<close>

text \<open>One constructor per error the code creates, and \<open>ExternalError\<close> for those that
  come out of libraries.\<close>

datatype error =
    ExternalError string
  | StorageLayerError string
  | FlowAlreadyCompleted
  | ActionAlreadyExecuted int
  | EventMismatch string string
  | CanNotExecute
  | ImplementationNotFound string
  | DelayValueWrong int int
  | DelayWithoutDefault int
  | WaitWithoutEvent int
  | WaitWithoutDefault int
  | ExpressionEmpty int
  | ExpressionInvalid int
  | SwitchWithoutNext int
  | JavascriptError error
  | InvalidActionType string
  | InvalidStateHandler string
  | InvalidNextAction int
  | NextNotArray int
  | NextNotDefined int int
  | DuplicateActionId int
  | NoRootAction int
  | ActionNotRegistered int string

section \<open>Flow contexts\<close>

datatype FlowState =
    RUNNING | FAILED | COMPLETED | WAITING_DELAY | WAITING_EVENT | PAUSED
  | OtherFlowState string

record FlowContext =
  ctxId :: string
  CurrentActionIds :: "(int, int) fmap"
  Data :: anymap
  State :: FlowState
  Event :: string
  ExecutedActions :: "(int, bool) fmap"

section \<open>Requests\<close>

datatype ActionType = ACTION_TYPE_SYSTEM | ACTION_TYPE_USER | ACTION_TYPE_UNSET

record ActionExecutionRequest =
  aeWorkflowName :: string
  aeFlowId :: string
  aeActionId :: int
  aeActionName :: string
  aeActionType :: ActionType

section \<open>Workflow and action definitions\<close>

type_synonym nextmap = "(string, int list option) fmap"

record ActionDef =
  adId :: int
  adType :: string
  adName :: string
  InputParams :: anymap
  Next :: "nextmap option"
  Expression :: string
  adJoin :: int
  DelaySeconds :: int
  adEvent :: string
  TimeoutSeconds :: int

record Workflow =
  wfName :: string
  wfRootAction :: int
  wfActions :: "ActionDef list"
  OnFailure :: string
  OnSuccess :: string

type_synonym RetryPolicy = string

definition RETRY_POLICY_FIXED :: RetryPolicy where
  "RETRY_POLICY_FIXED = ''FIXED''"

definition RETRY_POLICY_BACKOFF :: RetryPolicy where
  "RETRY_POLICY_BACKOFF = ''BACKOFF''"

lemma RETRY_POLICY_distinct [simp]: "RETRY_POLICY_FIXED \<noteq> RETRY_POLICY_BACKOFF"
  by (simp add: RETRY_POLICY_FIXED_def RETRY_POLICY_BACKOFF_def)

record ActionDefinition =
  dfName :: string
  RetryCount :: int
  RetryAfterSeconds :: int
  dfRetryPolicy :: RetryPolicy
  dfTimeoutSeconds :: int

section \<open>Durations\<close>

text \<open>\<open>time.Duration(n) * time.Second\<close>, in 64-bit arithmetic.\<close>

definition seconds :: "int \<Rightarrow> int" where
  "seconds n = i64 (i64 n * 1000000000)"

lemma seconds_exact: "0 \<le> n \<Longrightarrow> n \<le> 9223372036 \<Longrightarrow> seconds n = n * 1000000000"
  by (simp add: seconds_def i64_id)

section \<open>Terminal states\<close>

definition terminal_state :: "FlowState \<Rightarrow> bool" where
  "terminal_state st \<longleftrightarrow> st = COMPLETED \<or> st = FAILED"

lemma terminal_state_simps [simp]:
  "terminal_state COMPLETED" "terminal_state FAILED" "\<not> terminal_state RUNNING"
  "\<not> terminal_state PAUSED" "\<not> terminal_state WAITING_DELAY" "\<not> terminal_state WAITING_EVENT"
  by (simp_all add: terminal_state_def)

end
