(* ===== verification/Redis.thy ===== *)
theory Redis
  imports Model
begin

text \<open>
  The Redis server and its client, which orchy only calls. The client (go-redis) is a parameter:
  a record of operations on the world \<open>'w\<close>, one for a single command, one for a transaction
  (\<open>TxPipelined\<close>), one for a pipeline and one for the wall clock. \<open>apply_cmd\<close> states the
  documented effect of the commands orchy uses on the keyspace of the server, and the locale
  \<open>redis_server\<close> what a client promises: a command that succeeds has its documented effect and
  reply; a command that reports an error may have been executed or not, but never anything else.
\<close>

section \<open>The keyspace\<close>

datatype rvalue =
    RString string
  | RHash "(string, string) fmap"
  | RZSet "(string, int) fmap"
  | RList "string list"

type_synonym keyspace = "(string, rvalue) fmap"

datatype redis_cmd =
    HSET string string string
  | HGET string string
  | HDEL string string
  | ZADD string "(int \<times> string) list"
  | ZRANGE string int int
  | ZREM string "string list"
  | ZRANGEBYSCORE string int int
  | ZREMRANGEBYSCORE string int int
  | LPUSH string string
  | LPOP string int
  | SET string string
  | GET string
  | DEL string

datatype reply = Done | Bulk string | Multi "string list"

definition redis_Nil :: string where
  "redis_Nil = ''redis: nil''"

definition WRONGTYPE :: string where
  "WRONGTYPE = ''WRONGTYPE Operation against a key holding the wrong kind of value''"

definition BADARGS :: string where
  "BADARGS = ''ERR wrong number of arguments''"

lemma redis_Nil_WRONGTYPE [simp]: "WRONGTYPE \<noteq> redis_Nil" "redis_Nil \<noteq> WRONGTYPE"
  "BADARGS \<noteq> redis_Nil" "redis_Nil \<noteq> BADARGS"
  by (simp_all add: redis_Nil_def WRONGTYPE_def BADARGS_def)

section \<open>Sorted sets\<close>

text \<open>The members of a sorted set, by score and then by name.\<close>

definition zmembers :: "(string, int) fmap \<Rightarrow> string list" where
  "zmembers z = sort_key (\<lambda>m. the (fmlookup z m)) (sorted_list_of_fset (fmdom z))"

definition zslice :: "int \<Rightarrow> int \<Rightarrow> 'a list \<Rightarrow> 'a list" where
  "zslice start stop xs =
     (let n = int (length xs);
          a = max 0 (if start < 0 then start + n else start);
          b = (if stop < 0 then stop + n else stop)
      in take (nat (b - a + 1)) (drop (nat a) xs))"

definition in_score :: "int \<Rightarrow> int \<Rightarrow> (string, int) fmap \<Rightarrow> string \<Rightarrow> bool" where
  "in_score lo hi z m = (case fmlookup z m of None \<Rightarrow> False | Some s \<Rightarrow> lo \<le> s \<and> s \<le> hi)"

section \<open>Commands\<close>

text \<open>The collection stored at a key; a missing key is an empty collection, a key of another type
  gives \<open>None\<close>. An emptied collection is removed from the keyspace.\<close>

definition hash_at :: "keyspace \<Rightarrow> string \<Rightarrow> (string, string) fmap option" where
  "hash_at ks k = (case fmlookup ks k of None \<Rightarrow> Some fmempty | Some (RHash h) \<Rightarrow> Some h | _ \<Rightarrow> None)"

definition zset_at :: "keyspace \<Rightarrow> string \<Rightarrow> (string, int) fmap option" where
  "zset_at ks k = (case fmlookup ks k of None \<Rightarrow> Some fmempty | Some (RZSet z) \<Rightarrow> Some z | _ \<Rightarrow> None)"

definition list_at :: "keyspace \<Rightarrow> string \<Rightarrow> string list option" where
  "list_at ks k = (case fmlookup ks k of None \<Rightarrow> Some [] | Some (RList l) \<Rightarrow> Some l | _ \<Rightarrow> None)"

definition put_hash :: "string \<Rightarrow> (string, string) fmap \<Rightarrow> keyspace \<Rightarrow> keyspace" where
  "put_hash k h ks = (if h = fmempty then fmdrop k ks else fmupd k (RHash h) ks)"

definition put_zset :: "string \<Rightarrow> (string, int) fmap \<Rightarrow> keyspace \<Rightarrow> keyspace" where
  "put_zset k z ks = (if z = fmempty then fmdrop k ks else fmupd k (RZSet z) ks)"

definition put_list :: "string \<Rightarrow> string list \<Rightarrow> keyspace \<Rightarrow> keyspace" where
  "put_list k l ks = (if l = [] then fmdrop k ks else fmupd k (RList l) ks)"

definition typed :: "'c option \<Rightarrow> keyspace \<Rightarrow> ('c \<Rightarrow> (string + reply) \<times> keyspace) \<Rightarrow> (string + reply) \<times> keyspace" where
  "typed c ks f = (case c of None \<Rightarrow> (Inl WRONGTYPE, ks) | Some x \<Rightarrow> f x)"

fun apply_cmd :: "redis_cmd \<Rightarrow> keyspace \<Rightarrow> (string + reply) \<times> keyspace" where
  "apply_cmd (HSET k f v) ks = typed (hash_at ks k) ks (\<lambda>h. (Inr Done, put_hash k (fmupd f v h) ks))"
| "apply_cmd (HGET k f) ks = typed (hash_at ks k) ks (\<lambda>h.
     (case fmlookup h f of None \<Rightarrow> Inl redis_Nil | Some v \<Rightarrow> Inr (Bulk v), ks))"
| "apply_cmd (HDEL k f) ks = typed (hash_at ks k) ks (\<lambda>h. (Inr Done, put_hash k (fmdrop f h) ks))"
| "apply_cmd (ZADD k ms) ks = (if ms = [] then (Inl BADARGS, ks) else typed (zset_at ks k) ks (\<lambda>z.
     (Inr Done, put_zset k (fold (\<lambda>(s, m) z. fmupd m s z) ms z) ks)))"
| "apply_cmd (ZRANGE k start stop) ks = typed (zset_at ks k) ks (\<lambda>z.
     (Inr (Multi (zslice start stop (zmembers z))), ks))"
| "apply_cmd (ZREM k ms) ks = (if ms = [] then (Inl BADARGS, ks) else typed (zset_at ks k) ks (\<lambda>z.
     (Inr Done, put_zset k (fmfilter (\<lambda>m. m \<notin> set ms) z) ks)))"
| "apply_cmd (ZRANGEBYSCORE k lo hi) ks = typed (zset_at ks k) ks (\<lambda>z.
     (Inr (Multi (filter (in_score lo hi z) (zmembers z))), ks))"
| "apply_cmd (ZREMRANGEBYSCORE k lo hi) ks = typed (zset_at ks k) ks (\<lambda>z.
     (Inr Done, put_zset k (fmfilter (\<lambda>m. \<not> in_score lo hi z m) z) ks))"
| "apply_cmd (LPUSH k v) ks = typed (list_at ks k) ks (\<lambda>l. (Inr Done, put_list k (v # l) ks))"
| "apply_cmd (LPOP k n) ks = (if n < 0 then (Inl BADARGS, ks) else typed (list_at ks k) ks (\<lambda>l.
     if l = [] then (Inl redis_Nil, ks)
     else (Inr (Multi (take (nat n) l)), put_list k (drop (nat n) l) ks)))"
| "apply_cmd (SET k v) ks = (Inr Done, fmupd k (RString v) ks)"
| "apply_cmd (GET k) ks = (case fmlookup ks k of None \<Rightarrow> (Inl redis_Nil, ks)
     | Some (RString v) \<Rightarrow> (Inr (Bulk v), ks) | Some _ \<Rightarrow> (Inl WRONGTYPE, ks))"
| "apply_cmd (DEL k) ks = (Inr Done, fmdrop k ks)"

fun exec_cmds :: "redis_cmd list \<Rightarrow> keyspace \<Rightarrow> (string + reply) list \<times> keyspace" where
  "exec_cmds [] ks = ([], ks)"
| "exec_cmds (c # cs) ks =
     (let (r, ks1) = apply_cmd c ks; (rs, ks2) = exec_cmds cs ks1 in (r # rs, ks2))"

section \<open>The client\<close>

record 'w RedisClient =
  rc_do :: "redis_cmd \<Rightarrow> 'w \<Rightarrow> (string + reply) \<times> 'w"
  rc_tx :: "redis_cmd list \<Rightarrow> 'w \<Rightarrow> string option \<times> 'w"
  rc_pipe :: "redis_cmd list \<Rightarrow> 'w \<Rightarrow> (string option \<times> (string + reply) list) \<times> 'w"
  rc_now :: "'w \<Rightarrow> int \<times> 'w"

definition all_ok :: "(string + reply) list \<Rightarrow> bool" where
  "all_ok rs \<longleftrightarrow> (\<forall>r \<in> set rs. case r of Inl _ \<Rightarrow> False | Inr _ \<Rightarrow> True)"

locale redis_server =
  fixes C :: "'w RedisClient" and db :: "'w \<Rightarrow> keyspace"
  assumes do_spec: "rc_do C c w = (r, w') \<Longrightarrow>
      apply_cmd c (db w) = (r, db w') \<or>
      (\<exists>e. r = Inl e \<and> e \<noteq> redis_Nil \<and> db w' \<in> {db w, snd (apply_cmd c (db w))})"
    and tx_ok: "rc_tx C cs w = (None, w') \<Longrightarrow>
      all_ok (fst (exec_cmds cs (db w))) \<and> db w' = snd (exec_cmds cs (db w))"
    and tx_err: "rc_tx C cs w = (Some e, w') \<Longrightarrow> db w' \<in> {db w, snd (exec_cmds cs (db w))}"
    and pipe_ok: "rc_pipe C cs w = ((None, rs), w') \<Longrightarrow>
      exec_cmds cs (db w) = (rs, db w') \<and> all_ok rs"
    and pipe_err: "rc_pipe C cs w = ((Some e, rs), w') \<Longrightarrow>
      \<exists>n. db w' = snd (exec_cmds (take n cs) (db w))"
    and now_frame: "db (snd (rc_now C w)) = db w"

section \<open>What commands leave alone\<close>

text \<open>The value of a hash field and the value of a string key, the parts of the keyspace that hold
  contexts and definitions.\<close>

definition hfield :: "keyspace \<Rightarrow> string \<Rightarrow> string \<Rightarrow> string option" where
  "hfield ks k f = (case hash_at ks k of None \<Rightarrow> None | Some h \<Rightarrow> fmlookup h f)"

definition strval :: "keyspace \<Rightarrow> string \<Rightarrow> string option" where
  "strval ks k = (case fmlookup ks k of Some (RString v) \<Rightarrow> Some v | _ \<Rightarrow> None)"

lemmas at_defs = hash_at_def zset_at_def list_at_def put_hash_def put_zset_def put_list_def
lemmas cmd_defs = typed_def at_defs

fun queue_cmd :: "redis_cmd \<Rightarrow> bool" where
  "queue_cmd (HSET _ _ _) = False"
| "queue_cmd (HDEL _ _) = False"
| "queue_cmd (SET _ _) = False"
| "queue_cmd (DEL _) = False"
| "queue_cmd _ = True"

lemma queue_cmd_frame:
  assumes "queue_cmd c"
  shows "hfield (snd (apply_cmd c ks)) = hfield ks" and "strval (snd (apply_cmd c ks)) = strval ks"
  using assms
  by (cases c; auto simp: fun_eq_iff hfield_def strval_def cmd_defs split: option.splits rvalue.splits if_splits)+

lemma HSET_hfield:
  "apply_cmd (HSET k f v) ks = (Inr x, ks') \<Longrightarrow>
   hfield ks' = (hfield ks)(k := (hfield ks k)(f \<mapsto> v))"
  "apply_cmd (HSET k f v) ks = (Inl e, ks') \<Longrightarrow> ks' = ks"
  by (auto simp: fun_eq_iff hfield_def cmd_defs split: option.splits rvalue.splits if_splits)

lemma fmdrop_empty: "fmdrop f h = fmempty \<Longrightarrow> x \<noteq> f \<Longrightarrow> fmlookup h x = None"
  by (metis fmlookup_drop fmempty_lookup)

lemma HDEL_hfield:
  "apply_cmd (HDEL k f) ks = (Inr x, ks') \<Longrightarrow> hfield ks' = (hfield ks)(k := (hfield ks k)(f := None))"
  "apply_cmd (HDEL k f) ks = (Inl e, ks') \<Longrightarrow> ks' = ks"
  by (auto simp: fmdrop_empty fun_eq_iff hfield_def cmd_defs split: option.splits rvalue.splits if_splits)

lemma hash_strval:
  "strval (snd (apply_cmd (HSET k f v) ks)) = strval ks"
  "strval (snd (apply_cmd (HDEL k f) ks)) = strval ks"
  by (auto simp: fun_eq_iff strval_def cmd_defs split: option.splits rvalue.splits if_splits)

lemma HGET_hfield: "apply_cmd (HGET k f) ks = (Inr r, ks') \<Longrightarrow> ks' = ks \<and> (\<exists>v. r = Bulk v \<and> hfield ks k f = Some v)"
  by (auto simp: hfield_def cmd_defs split: option.splits)

lemma HGET_reads: "snd (apply_cmd (HGET k f) ks) = ks"
  by (auto simp: cmd_defs split: option.splits)

lemma GET_strval: "apply_cmd (GET k) ks = (Inr r, ks') \<Longrightarrow> \<exists>v. r = Bulk v \<and> strval ks k = Some v"
  by (auto simp: strval_def split: option.splits rvalue.splits)

lemma exec_queue_frame:
  "\<forall>c \<in> set cs. queue_cmd c \<Longrightarrow>
   hfield (snd (exec_cmds cs ks)) = hfield ks \<and> strval (snd (exec_cmds cs ks)) = strval ks"
proof (induction cs arbitrary: ks)
  case (Cons c cs)
  then show ?case
    using queue_cmd_frame [of c ks] Cons.IH [of "snd (apply_cmd c ks)"] by (auto simp: split_beta Let_def)
qed simp

text \<open>A command touches only its own key.\<close>

fun cmd_key :: "redis_cmd \<Rightarrow> string" where
  "cmd_key (HSET k _ _) = k"
| "cmd_key (HGET k _) = k"
| "cmd_key (HDEL k _) = k"
| "cmd_key (ZADD k _) = k"
| "cmd_key (ZRANGE k _ _) = k"
| "cmd_key (ZREM k _) = k"
| "cmd_key (ZRANGEBYSCORE k _ _) = k"
| "cmd_key (ZREMRANGEBYSCORE k _ _) = k"
| "cmd_key (LPUSH k _) = k"
| "cmd_key (LPOP k _) = k"
| "cmd_key (SET k _) = k"
| "cmd_key (GET k) = k"
| "cmd_key (DEL k) = k"

lemma put_other:
  "k' \<noteq> k \<Longrightarrow> fmlookup (put_hash k' h ks) k = fmlookup ks k"
  "k' \<noteq> k \<Longrightarrow> fmlookup (put_zset k' z ks) k = fmlookup ks k"
  "k' \<noteq> k \<Longrightarrow> fmlookup (put_list k' l ks) k = fmlookup ks k"
  by (simp_all add: put_hash_def put_zset_def put_list_def)

lemma typed_other:
  "(\<And>x. fmlookup (snd (f x)) k = fmlookup ks k) \<Longrightarrow> fmlookup (snd (typed c ks f)) k = fmlookup ks k"
  by (simp add: typed_def split: option.splits)

lemma apply_cmd_other: "cmd_key c \<noteq> k \<Longrightarrow> fmlookup (snd (apply_cmd c ks)) k = fmlookup ks k"
  by (cases c) (auto intro!: typed_other simp: put_other split: option.splits rvalue.splits)

lemma exec_cmds_other:
  "\<forall>c \<in> set cs. cmd_key c \<noteq> k \<Longrightarrow> fmlookup (snd (exec_cmds cs ks)) k = fmlookup ks k"
proof (induction cs arbitrary: ks)
  case (Cons c cs)
  then show ?case using apply_cmd_other [of c k ks] by (simp add: split_beta Let_def del: apply_cmd.simps)
qed simp

context redis_server
begin

lemma do_other: "cmd_key c \<noteq> k \<Longrightarrow> fmlookup (db (snd (rc_do C c w))) k = fmlookup (db w) k"
proof -
  assume k: "cmd_key c \<noteq> k"
  obtain r w' where r: "rc_do C c w = (r, w')" by fastforce
  have "db w' = db w \<or> db w' = snd (apply_cmd c (db w))" using do_spec [OF r] by auto
  then show ?thesis using apply_cmd_other [OF k, of "db w"] r by auto
qed

lemma tx_other:
  assumes "\<forall>c \<in> set cs. cmd_key c \<noteq> k"
  shows "fmlookup (db (snd (rc_tx C cs w))) k = fmlookup (db w) k"
proof -
  obtain e w' where e: "rc_tx C cs w = (e, w')" by fastforce
  have "db w' = db w \<or> db w' = snd (exec_cmds cs (db w))"
    using tx_ok [of cs w w'] tx_err [of cs w _ w'] e by (cases e) auto
  then show ?thesis using exec_cmds_other [OF assms, of "db w"] e by auto
qed

end

section \<open>Members of sorted sets\<close>

lemma set_zmembers [simp]: "set (zmembers z) = fmdom' z"
  by (simp add: zmembers_def fmdom'_alt_def)

lemma distinct_zmembers [simp]: "distinct (zmembers z)"
  by (simp add: zmembers_def sorted_list_of_fset.rep_eq)

lemma sorted_zmembers: "sorted (map (\<lambda>m. the (fmlookup z m)) (zmembers z))"
  by (simp add: zmembers_def)

lemma zslice_prefix: "0 \<le> stop \<Longrightarrow> zslice 0 stop xs = take (nat (stop + 1)) xs"
  by (simp add: zslice_def Let_def)

end
