(* ===== verification/Storage_Spec.thy ===== *)
theory Storage_Spec
  imports Model
begin

text \<open>
  The interfaces between a shard and its storage, \<open>src/shard/shard.go\<close>. The Go interfaces
  \<open>Storage\<close> and \<open>ExternalQueue\<close> are records of operations on an abstract world \<open>'w\<close> (the
  Redis server, the network and the clock). An operation returns what Go returns and the
  world after it; an \<open>error option\<close> is a Go \<open>error\<close>, \<open>None\<close> being nil.

  The locale \<open>flow_store\<close> is the contract the engine relies on: what a read returns after a
  save, and that the queue operations leave the stored contexts alone. It allows every
  operation to fail, and a write that reports an error to have taken effect or not.
  \<open>img\<close> is the image of a context under encoding and decoding, which may change only the
  data of the flow.
\<close>

section \<open>Interfaces\<close>

record 'w Storage =
  st_SaveFlowContext :: "string \<Rightarrow> string \<Rightarrow> FlowContext \<Rightarrow> 'w \<Rightarrow> error option \<times> 'w"
  st_GetFlowContext :: "string \<Rightarrow> string \<Rightarrow> 'w \<Rightarrow> (error + FlowContext) \<times> 'w"
  st_DeleteFlowContext :: "string \<Rightarrow> string \<Rightarrow> 'w \<Rightarrow> error option \<times> 'w"
  st_SaveFlowContextAndDispatchAction ::
    "string \<Rightarrow> string \<Rightarrow> FlowContext \<Rightarrow> ActionExecutionRequest list \<Rightarrow> 'w \<Rightarrow> error option \<times> 'w"
  st_PollAction :: "string \<Rightarrow> int \<Rightarrow> 'w \<Rightarrow> (error + ActionExecutionRequest list) res \<times> 'w"
  st_Ack :: "string \<Rightarrow> ActionExecutionRequest list \<Rightarrow> 'w \<Rightarrow> error option \<times> 'w"
  st_Retry :: "string \<Rightarrow> string \<Rightarrow> string \<Rightarrow> int \<Rightarrow> int \<Rightarrow> 'w \<Rightarrow> error option \<times> 'w"
  st_PollRetry :: "'w \<Rightarrow> (error + ActionExecutionRequest list) res \<times> 'w"
  st_Delay :: "string \<Rightarrow> string \<Rightarrow> string \<Rightarrow> int \<Rightarrow> int \<Rightarrow> 'w \<Rightarrow> error option \<times> 'w"
  st_PollDelay :: "'w \<Rightarrow> (error + ActionExecutionRequest list) res \<times> 'w"
  st_Timeout :: "string \<Rightarrow> string \<Rightarrow> string \<Rightarrow> int \<Rightarrow> int \<Rightarrow> 'w \<Rightarrow> error option \<times> 'w"
  st_PollTimeout :: "'w \<Rightarrow> (error + ActionExecutionRequest list) res \<times> 'w"

section \<open>The contract on flow contexts\<close>

type_synonym contexts = "string \<times> string \<Rightarrow> FlowContext option"

locale flow_store =
  fixes S :: "'w Storage"
    and ctxs :: "'w \<Rightarrow> contexts"
    and img :: "FlowContext \<Rightarrow> FlowContext"
  assumes img_State: "State (img c) = State c"
    and img_Event: "Event (img c) = Event c"
    and img_ctxId: "ctxId (img c) = ctxId c"
    and img_Current: "CurrentActionIds (img c) = CurrentActionIds c"
    and img_Executed: "ExecutedActions (img c) = ExecutedActions c"
    and get_value: "st_GetFlowContext S wn fid w = (Inr c, w') \<Longrightarrow> ctxs w (wn, fid) = Some c"
    and get_frame: "ctxs (snd (st_GetFlowContext S wn fid w)) = ctxs w"
    and save_ok: "st_SaveFlowContext S wn fid c w = (None, w') \<Longrightarrow>
      ctxs w' = (ctxs w)((wn, fid) \<mapsto> img c)"
    and save_err: "st_SaveFlowContext S wn fid c w = (Some e, w') \<Longrightarrow>
      ctxs w' = ctxs w \<or> ctxs w' = (ctxs w)((wn, fid) \<mapsto> img c)"
    and dispatch_ok: "st_SaveFlowContextAndDispatchAction S wn fid c reqs w = (None, w') \<Longrightarrow>
      ctxs w' = (ctxs w)((wn, fid) \<mapsto> img c)"
    and dispatch_err: "st_SaveFlowContextAndDispatchAction S wn fid c reqs w = (Some e, w') \<Longrightarrow>
      ctxs w' = ctxs w \<or> ctxs w' = (ctxs w)((wn, fid) \<mapsto> img c)"
    and delete_ok: "st_DeleteFlowContext S wn fid w = (None, w') \<Longrightarrow>
      ctxs w' = (ctxs w)((wn, fid) := None)"
    and delete_err: "st_DeleteFlowContext S wn fid w = (Some e, w') \<Longrightarrow>
      ctxs w' = ctxs w \<or> ctxs w' = (ctxs w)((wn, fid) := None)"
    and retry_frame: "ctxs (snd (st_Retry S wn fid name a d w)) = ctxs w"
    and delay_frame: "ctxs (snd (st_Delay S wn fid name a d w)) = ctxs w"
    and timeout_frame: "ctxs (snd (st_Timeout S wn fid name a d w)) = ctxs w"
    and ack_frame: "ctxs (snd (st_Ack S ty reqs w)) = ctxs w"
    and poll_frame: "ctxs (snd (st_PollAction S ty n w)) = ctxs w"
    and poll_retry_frame: "ctxs (snd (st_PollRetry S w)) = ctxs w"
    and poll_delay_frame: "ctxs (snd (st_PollDelay S w)) = ctxs w"
    and poll_timeout_frame: "ctxs (snd (st_PollTimeout S w)) = ctxs w"
begin

lemmas img_simps [simp] = img_State img_Event img_ctxId img_Current img_Executed
lemmas frames = get_frame retry_frame delay_frame timeout_frame ack_frame poll_frame
  poll_retry_frame poll_delay_frame poll_timeout_frame

lemma save_cases:
  "ctxs (snd (st_SaveFlowContext S wn fid c w)) \<in> {ctxs w, (ctxs w)((wn, fid) \<mapsto> img c)}"
  using save_ok save_err by (cases "st_SaveFlowContext S wn fid c w"; cases "fst (st_SaveFlowContext S wn fid c w)") auto

lemma dispatch_cases:
  "ctxs (snd (st_SaveFlowContextAndDispatchAction S wn fid c reqs w)) \<in>
     {ctxs w, (ctxs w)((wn, fid) \<mapsto> img c)}"
  using dispatch_ok dispatch_err
  by (cases "st_SaveFlowContextAndDispatchAction S wn fid c reqs w";
      cases "fst (st_SaveFlowContextAndDispatchAction S wn fid c reqs w)") auto

lemma delete_cases:
  "ctxs (snd (st_DeleteFlowContext S wn fid w)) \<in> {ctxs w, (ctxs w)((wn, fid) := None)}"
  using delete_ok delete_err
  by (cases "st_DeleteFlowContext S wn fid w"; cases "fst (st_DeleteFlowContext S wn fid w)") auto

end

end
