(* ===== verification/Redis_Storage.thy ===== *)
theory Redis_Storage
  imports Redis Storage_Spec
begin

text \<open>
  The Redis implementation of the shard storage: \<open>src/persistence/redis/base_dao.go\<close>,
  \<open>src/persistence/redis/shard.go\<close> and the encoder interface of \<open>src/util/enc_dec.go\<close>.
  Contexts live in one hash per workflow and shard, actions to execute in the sorted sets
  \<open>system\<close> and \<open>user\<close>, and postponed ones in \<open>retry\<close>, \<open>delay\<close> and \<open>timeout\<close>, with the time
  in milliseconds as score (a float64 in the source, exact for every time below \<open>2^53\<close>).
  The clock of the client is in nanoseconds.
\<close>

section \<open>Definitions\<close>

record 'a EncoderDecoder =
  Encode :: "'a \<Rightarrow> error + string"
  Decode :: "string \<Rightarrow> error + 'a"

record 'w baseDao =
  redisClient :: "'w RedisClient"
  namespace :: string

record 'w redisShardStorage =
  rsDao :: "'w baseDao"
  rsCodec :: "FlowContext EncoderDecoder"
  rsShardId :: string

definition getNamespaceKey :: "'w baseDao \<Rightarrow> string list \<Rightarrow> string" where
  "getNamespaceKey bs args = namespace bs @ '':'' @ Join args (CHR '':'')"

definition WORKFLOW_KEY :: string where
  "WORKFLOW_KEY = ''FLOW''"

definition storage_error :: "string + 'a \<Rightarrow> error option" where
  "storage_error r = (case r of Inl e \<Rightarrow> Some (StorageLayerError e) | Inr _ \<Rightarrow> None)"

definition flow_key :: "'w redisShardStorage \<Rightarrow> string \<Rightarrow> string" where
  "flow_key r wn = getNamespaceKey (rsDao r) [WORKFLOW_KEY, wn, rsShardId r]"

definition queue_key :: "'w redisShardStorage \<Rightarrow> string \<Rightarrow> string" where
  "queue_key r name = getNamespaceKey (rsDao r) [name, rsShardId r]"

definition rdo :: "'w redisShardStorage \<Rightarrow> redis_cmd \<Rightarrow> 'w \<Rightarrow> (string + reply) \<times> 'w" where
  "rdo r = rc_do (redisClient (rsDao r))"

subsection \<open>Contexts\<close>

definition SaveFlowContext ::
  "'w redisShardStorage \<Rightarrow> string \<Rightarrow> string \<Rightarrow> FlowContext \<Rightarrow> 'w \<Rightarrow> error option \<times> 'w" where
  "SaveFlowContext r wn fid flowCtx w =
     (case Encode (rsCodec r) flowCtx of
        Inl err \<Rightarrow> (Some err, w)
      | Inr data \<Rightarrow>
          (case rdo r (HSET (flow_key r wn) fid data) w of (x, w') \<Rightarrow> (storage_error x, w')))"

definition GetFlowContext ::
  "'w redisShardStorage \<Rightarrow> string \<Rightarrow> string \<Rightarrow> 'w \<Rightarrow> (error + FlowContext) \<times> 'w" where
  "GetFlowContext r wn fid w =
     (case rdo r (HGET (flow_key r wn) fid) w of
        (Inr (Bulk flowCtxStr), w') \<Rightarrow> (Decode (rsCodec r) flowCtxStr, w')
      | (Inr _, w') \<Rightarrow> (Inl (StorageLayerError ''''), w')
      | (Inl err, w') \<Rightarrow> (Inl (StorageLayerError err), w'))"

definition DeleteFlowContext ::
  "'w redisShardStorage \<Rightarrow> string \<Rightarrow> string \<Rightarrow> 'w \<Rightarrow> error option \<times> 'w" where
  "DeleteFlowContext r wn fid w =
     (case rdo r (HDEL (flow_key r wn) fid) w of (x, w') \<Rightarrow> (storage_error x, w'))"

subsection \<open>Dispatching actions\<close>

text \<open>The message \<open>"%s:%s:%s:%d"\<close> of an action and its parser.\<close>

definition message :: "string \<Rightarrow> string \<Rightarrow> string \<Rightarrow> int \<Rightarrow> string" where
  "message wn fid actionName actionId =
     wn @ '':'' @ fid @ '':'' @ actionName @ '':'' @ Itoa actionId"

definition parse_message :: "string \<Rightarrow> ActionExecutionRequest res" where
  "parse_message v =
     (let parts = Split (CHR '':'') v in
      if 3 < length parts then
        Val \<lparr>aeWorkflowName = parts ! 0, aeFlowId = parts ! 1, aeActionId = fst (Atoi (parts ! 3)),
             aeActionName = parts ! 2, aeActionType = ACTION_TYPE_UNSET\<rparr>
      else Panic IndexOutOfRange)"

fun parse_messages :: "string list \<Rightarrow> ActionExecutionRequest list res" where
  "parse_messages [] = Val []"
| "parse_messages (v # vs) =
     bind_res (parse_message v) (\<lambda>r. bind_res (parse_messages vs) (\<lambda>rs. Val (r # rs)))"

definition UnixMilli :: "int \<Rightarrow> int" where
  "UnixMilli ns = ns div 1000000"

text \<open>The loop that builds the members of the two queues; every iteration reads the clock.\<close>

fun build_members ::
  "'w redisShardStorage \<Rightarrow> string \<Rightarrow> string \<Rightarrow> ActionExecutionRequest list \<Rightarrow> 'w \<Rightarrow>
   ((int \<times> string) list \<times> (int \<times> string) list) \<times> 'w" where
  "build_members r wn fid [] w = (([], []), w)"
| "build_members r wn fid (action # actions) w =
     (let (now, w1) = rc_now (redisClient (rsDao r)) w;
          member = (UnixMilli now, message wn fid (aeActionName action) (aeActionId action));
          ((messagesUser, messagesSystem), w2) = build_members r wn fid actions w1
      in if aeActionType action = ACTION_TYPE_SYSTEM then ((messagesUser, member # messagesSystem), w2)
         else ((member # messagesUser, messagesSystem), w2))"

text \<open>The error of \<open>Encode\<close> is dropped here: the data is then the empty string.\<close>

definition SaveFlowContextAndDispatchAction ::
  "'w redisShardStorage \<Rightarrow> string \<Rightarrow> string \<Rightarrow> FlowContext \<Rightarrow> ActionExecutionRequest list \<Rightarrow> 'w \<Rightarrow>
   error option \<times> 'w" where
  "SaveFlowContextAndDispatchAction r wn fid flowCtx actions w =
     (let ((messagesUser, messagesSystem), w1) = build_members r wn fid actions w;
          data = (case Encode (rsCodec r) flowCtx of Inl _ \<Rightarrow> '''' | Inr d \<Rightarrow> d);
          cmds = [HSET (flow_key r wn) fid data] @
            (if messagesUser \<noteq> [] then [ZADD (queue_key r ''user'') messagesUser] else []) @
            (if messagesSystem \<noteq> [] then [ZADD (queue_key r ''system'') messagesSystem] else [])
      in case rc_tx (redisClient (rsDao r)) cmds w1 of
           (None, w2) \<Rightarrow> (None, w2)
         | (Some err, w2) \<Rightarrow> (Some (StorageLayerError err), w2))"

subsection \<open>Queues\<close>

definition PollAction ::
  "'w redisShardStorage \<Rightarrow> string \<Rightarrow> int \<Rightarrow> 'w \<Rightarrow> (error + ActionExecutionRequest list) res \<times> 'w" where
  "PollAction r actionType batchSize w =
     (case rdo r (ZRANGE (queue_key r actionType) 0 (i64 (batchSize - 1))) w of
        (Inl err, w') \<Rightarrow>
          (if err = redis_Nil then (Val (Inr []), w') else (Val (Inl (StorageLayerError err)), w'))
      | (Inr (Multi values), w') \<Rightarrow> (bind_res (parse_messages values) (\<lambda>rs. Val (Inr rs)), w')
      | (Inr _, w') \<Rightarrow> (Val (Inr []), w'))"

definition Ack ::
  "'w redisShardStorage \<Rightarrow> string \<Rightarrow> ActionExecutionRequest list \<Rightarrow> 'w \<Rightarrow> error option \<times> 'w" where
  "Ack r actionType actions w =
     (let messages = map (\<lambda>act. message (aeWorkflowName act) (aeFlowId act) (aeActionName act) (aeActionId act)) actions
      in case rdo r (ZREM (queue_key r actionType) messages) w of (x, w') \<Rightarrow> (storage_error x, w'))"

definition addToSortedSet ::
  "'w redisShardStorage \<Rightarrow> string \<Rightarrow> string list \<Rightarrow> int \<Rightarrow> 'w \<Rightarrow> error option \<times> 'w" where
  "addToSortedSet r key messages delay w =
     (let (now, w1) = rc_now (redisClient (rsDao r)) w;
          currentTime = UnixMilli (now + delay)
      in case rdo r (ZADD key (map (\<lambda>m. (currentTime, m)) messages)) w1 of (x, w2) \<Rightarrow> (storage_error x, w2))"

definition getExpiredFromSortedSet ::
  "'w redisShardStorage \<Rightarrow> string \<Rightarrow> 'w \<Rightarrow> (error + string list) \<times> 'w" where
  "getExpiredFromSortedSet r key w =
     (let (now, w1) = rc_now (redisClient (rsDao r)) w;
          currentTime = UnixMilli now
      in case rc_pipe (redisClient (rsDao r))
                [ZRANGEBYSCORE key 0 currentTime, ZREMRANGEBYSCORE key 0 currentTime] w1 of
           ((Some err, _), w2) \<Rightarrow> (Inl (StorageLayerError err), w2)
         | ((None, Inr (Multi res) # _), w2) \<Rightarrow> (Inr res, w2)
         | ((None, Inl err # _), w2) \<Rightarrow>
             (if err = redis_Nil then (Inr [], w2) else (Inl (StorageLayerError err), w2))
         | ((None, _), w2) \<Rightarrow> (Inr [], w2))"

definition poll_expired ::
  "'w redisShardStorage \<Rightarrow> string \<Rightarrow> 'w \<Rightarrow> (error + ActionExecutionRequest list) res \<times> 'w" where
  "poll_expired r name w =
     (case getExpiredFromSortedSet r (queue_key r name) w of
        (Inl err, w') \<Rightarrow> (Val (Inl err), w')
      | (Inr values, w') \<Rightarrow> (bind_res (parse_messages values) (\<lambda>rs. Val (Inr rs)), w'))"

definition Retry :: "'w redisShardStorage \<Rightarrow> string \<Rightarrow> string \<Rightarrow> string \<Rightarrow> int \<Rightarrow> int \<Rightarrow> 'w \<Rightarrow> error option \<times> 'w" where
  "Retry r wn fid actionName actionId delay =
     addToSortedSet r (queue_key r ''retry'') [message wn fid actionName actionId] delay"

definition PollRetry :: "'w redisShardStorage \<Rightarrow> 'w \<Rightarrow> (error + ActionExecutionRequest list) res \<times> 'w" where
  "PollRetry r = poll_expired r ''retry''"

definition Delay :: "'w redisShardStorage \<Rightarrow> string \<Rightarrow> string \<Rightarrow> string \<Rightarrow> int \<Rightarrow> int \<Rightarrow> 'w \<Rightarrow> error option \<times> 'w" where
  "Delay r wn fid actionName actionId delay =
     addToSortedSet r (queue_key r ''delay'') [message wn fid actionName actionId] delay"

definition PollDelay :: "'w redisShardStorage \<Rightarrow> 'w \<Rightarrow> (error + ActionExecutionRequest list) res \<times> 'w" where
  "PollDelay r = poll_expired r ''delay''"

definition Timeout :: "'w redisShardStorage \<Rightarrow> string \<Rightarrow> string \<Rightarrow> string \<Rightarrow> int \<Rightarrow> int \<Rightarrow> 'w \<Rightarrow> error option \<times> 'w" where
  "Timeout r wn fid actionName actionId delay =
     addToSortedSet r (queue_key r ''timeout'') [message wn fid actionName actionId] delay"

definition PollTimeout :: "'w redisShardStorage \<Rightarrow> 'w \<Rightarrow> (error + ActionExecutionRequest list) res \<times> 'w" where
  "PollTimeout r = poll_expired r ''timeout''"

text \<open>The storage object: \<open>redisShardStorage\<close> as a value of the interface \<open>Storage\<close>.\<close>

definition NewRedisStorage :: "'w redisShardStorage \<Rightarrow> 'w Storage" where
  "NewRedisStorage r =
     \<lparr>st_SaveFlowContext = SaveFlowContext r, st_GetFlowContext = GetFlowContext r,
      st_DeleteFlowContext = DeleteFlowContext r,
      st_SaveFlowContextAndDispatchAction = SaveFlowContextAndDispatchAction r,
      st_PollAction = PollAction r, st_Ack = Ack r, st_Retry = Retry r, st_PollRetry = PollRetry r,
      st_Delay = Delay r, st_PollDelay = PollDelay r, st_Timeout = Timeout r,
      st_PollTimeout = PollTimeout r\<rparr>"

section \<open>Messages\<close>

lemma message_Join: "message wn fid name a = Join [wn, fid, name, Itoa a] (CHR '':'')"
  by (simp add: message_def)

definition colon_free :: "string \<Rightarrow> bool" where
  "colon_free s \<longleftrightarrow> CHR '':'' \<notin> set s"

definition request :: "string \<Rightarrow> string \<Rightarrow> string \<Rightarrow> int \<Rightarrow> ActionExecutionRequest" where
  "request wn fid name a =
     \<lparr>aeWorkflowName = wn, aeFlowId = fid, aeActionId = a, aeActionName = name,
      aeActionType = ACTION_TYPE_UNSET\<rparr>"

lemma parse_message_message:
  assumes "colon_free wn" "colon_free fid" "colon_free name" "- (2 ^ 63) \<le> a" "a < 2 ^ 63"
  shows "parse_message (message wn fid name a) = Val (request wn fid name a)"
proof -
  have "Split (CHR '':'') (message wn fid name a) = [wn, fid, name, Itoa a]"
    unfolding message_Join using assms(1-3) by (intro Split_Join) (auto simp: colon_free_def)
  then show ?thesis using assms(4,5) by (simp add: parse_message_def request_def Atoi_Itoa)
qed

lemma message_inject:
  assumes "colon_free wn" "colon_free fid" "colon_free name" "- (2 ^ 63) \<le> a" "a < 2 ^ 63"
    and "colon_free wn'" "colon_free fid'" "colon_free name'" "- (2 ^ 63) \<le> a'" "a' < 2 ^ 63"
  shows "message wn fid name a = message wn' fid' name' a' \<longleftrightarrow> wn = wn' \<and> fid = fid' \<and> name = name' \<and> a = a'"
proof
  assume "message wn fid name a = message wn' fid' name' a'"
  then have "Val (request wn fid name a) = Val (request wn' fid' name' a')"
    using parse_message_message [OF assms(1-5)] parse_message_message [OF assms(6-10)] by metis
  then show "wn = wn' \<and> fid = fid' \<and> name = name' \<and> a = a'" by (simp add: request_def)
qed simp

lemma parse_messages_Val: "parse_messages vs = Val rs \<longleftrightarrow> list_all2 (\<lambda>v r. parse_message v = Val r) vs rs"
proof (induction vs arbitrary: rs)
  case (Cons v vs)
  show ?case by (auto simp: bind_res_Val_iff list_all2_Cons1 Cons.IH)
qed auto

section \<open>Keys\<close>

lemma flow_key_inject: "flow_key r wn = flow_key r wn' \<longleftrightarrow> wn = wn'"
  by (simp add: flow_key_def getNamespaceKey_def)

section \<open>The storage contract\<close>

definition redis_contexts :: "'w redisShardStorage \<Rightarrow> keyspace \<Rightarrow> contexts" where
  "redis_contexts r ks = (\<lambda>(wn, fid).
     case hfield ks (flow_key r wn) fid of
       None \<Rightarrow> None
     | Some s \<Rightarrow> (case Decode (rsCodec r) s of Inl _ \<Rightarrow> None | Inr c \<Rightarrow> Some c))"

text \<open>What the engine needs of the JSON encoding of a context: it can be read back, and reading it
  back may change only the data.\<close>

locale flow_codec =
  fixes ed :: "FlowContext EncoderDecoder" and img :: "FlowContext \<Rightarrow> FlowContext"
  assumes codec: "\<exists>s. Encode ed c = Inr s \<and> Decode ed s = Inr (img c)"
    and codec_State: "State (img c) = State c"
    and codec_Event: "Event (img c) = Event c"
    and codec_ctxId: "ctxId (img c) = ctxId c"
    and codec_Current: "CurrentActionIds (img c) = CurrentActionIds c"
    and codec_Executed: "ExecutedActions (img c) = ExecutedActions c"

locale redis_store = redis_server "redisClient (rsDao r)" db + flow_codec "rsCodec r" img
  for r :: "'w redisShardStorage" and db :: "'w \<Rightarrow> keyspace" and img :: "FlowContext \<Rightarrow> FlowContext"
begin

abbreviation ctxs :: "'w \<Rightarrow> contexts" where
  "ctxs w \<equiv> redis_contexts r (db w)"

lemma rdo_cases:
  assumes "rdo r c w = (x, w')"
  obtains (ok) y where "x = Inr y" and "apply_cmd c (db w) = (Inr y, db w')"
  | (refused) e where "x = Inl e" and "db w' \<in> {db w, snd (apply_cmd c (db w))}"
  using do_spec [of c w x w'] assms unfolding rdo_def by (cases x) auto

lemma rdo_queue_frame:
  assumes "queue_cmd c"
  shows "hfield (db (snd (rdo r c w))) = hfield (db w)" and "strval (db (snd (rdo r c w))) = strval (db w)"
proof -
  obtain x w' where x: "rdo r c w = (x, w')" by fastforce
  have "db w' = db w \<or> db w' = snd (apply_cmd c (db w))" using x by (cases rule: rdo_cases) auto
  then show "hfield (db (snd (rdo r c w))) = hfield (db w)" "strval (db (snd (rdo r c w))) = strval (db w)"
    using queue_cmd_frame [OF assms, of "db w"] x by auto
qed

lemma contexts_cong: "hfield ks' = hfield ks \<Longrightarrow> redis_contexts r ks' = redis_contexts r ks"
  by (simp add: redis_contexts_def fun_eq_iff)

lemma contexts_put:
  assumes "hfield ks' = (hfield ks)(flow_key r wn := (hfield ks (flow_key r wn))(fid \<mapsto> s))"
    and "Decode (rsCodec r) s = Inr c"
  shows "redis_contexts r ks' = (redis_contexts r ks)((wn, fid) \<mapsto> c)"
  using assms by (auto simp: redis_contexts_def fun_eq_iff flow_key_inject)

lemma contexts_drop:
  assumes "hfield ks' = (hfield ks)(flow_key r wn := (hfield ks (flow_key r wn))(fid := None))"
  shows "redis_contexts r ks' = (redis_contexts r ks)((wn, fid) := None)"
  using assms by (auto simp: redis_contexts_def fun_eq_iff flow_key_inject)

lemma HSET_contexts:
  assumes "Decode (rsCodec r) s = Inr c"
  shows "redis_contexts r (snd (apply_cmd (HSET (flow_key r wn) fid s) ks)) \<in>
    {redis_contexts r ks, (redis_contexts r ks)((wn, fid) \<mapsto> c)}"
proof (cases "apply_cmd (HSET (flow_key r wn) fid s) ks")
  case (Pair x ks')
  then show ?thesis
    using HSET_hfield [of "flow_key r wn" fid s ks] contexts_put [OF _ assms, of ks' ks wn fid]
    by (cases x) auto
qed

lemma save_contexts:
  assumes "SaveFlowContext r wn fid c w = (e, w')"
  shows "e = None \<Longrightarrow> ctxs w' = (ctxs w)((wn, fid) \<mapsto> img c)"
    and "ctxs w' = ctxs w \<or> ctxs w' = (ctxs w)((wn, fid) \<mapsto> img c)"
    and "strval (db w') = strval (db w)"
proof -
  obtain s where s: "Encode (rsCodec r) c = Inr s" "Decode (rsCodec r) s = Inr (img c)" using codec by blast
  then obtain x where x: "rdo r (HSET (flow_key r wn) fid s) w = (x, w')" and e: "e = storage_error x"
    using assms by (auto simp: SaveFlowContext_def split: prod.splits)
  from x show "ctxs w' = ctxs w \<or> ctxs w' = (ctxs w)((wn, fid) \<mapsto> img c)"
    using HSET_contexts [OF s(2), of wn fid "db w"] by (cases rule: rdo_cases) auto
  from x show "strval (db w') = strval (db w)"
    using hash_strval(1) [of "flow_key r wn" fid s "db w"] by (cases rule: rdo_cases) auto
  assume "e = None"
  with x show "ctxs w' = (ctxs w)((wn, fid) \<mapsto> img c)"
    unfolding e storage_error_def
    using HSET_hfield(1) contexts_put [OF _ s(2)] by (cases rule: rdo_cases) auto
qed

lemma delete_contexts:
  assumes "DeleteFlowContext r wn fid w = (e, w')"
  shows "e = None \<Longrightarrow> ctxs w' = (ctxs w)((wn, fid) := None)"
    and "ctxs w' = ctxs w \<or> ctxs w' = (ctxs w)((wn, fid) := None)"
    and "strval (db w') = strval (db w)"
proof -
  let ?c = "HDEL (flow_key r wn) fid"
  obtain x where x: "rdo r ?c w = (x, w')" and e: "e = storage_error x"
    using assms by (auto simp: DeleteFlowContext_def split: prod.splits)
  have D: "redis_contexts r (snd (apply_cmd ?c (db w))) \<in> {ctxs w, (ctxs w)((wn, fid) := None)}"
    using HDEL_hfield [of "flow_key r wn" fid "db w"] contexts_drop [of _ "db w" wn fid]
    by (cases "apply_cmd ?c (db w)"; cases "fst (apply_cmd ?c (db w))") auto
  from x show "ctxs w' = ctxs w \<or> ctxs w' = (ctxs w)((wn, fid) := None)"
    using D by (cases rule: rdo_cases) auto
  from x show "strval (db w') = strval (db w)"
    using hash_strval(2) [of "flow_key r wn" fid "db w"] by (cases rule: rdo_cases) auto
  assume "e = None"
  with x show "ctxs w' = (ctxs w)((wn, fid) := None)"
    unfolding e storage_error_def
    using HDEL_hfield(1) contexts_drop by (cases rule: rdo_cases) auto
qed

lemma get_contexts:
  assumes "GetFlowContext r wn fid w = (x, w')"
  shows "x = Inr c \<Longrightarrow> ctxs w (wn, fid) = Some c" and "db w' = db w"
proof -
  obtain y where y: "rdo r (HGET (flow_key r wn) fid) w = (y, w')"
    using assms by (auto simp: GetFlowContext_def split: prod.splits sum.splits reply.splits)
  from y show "db w' = db w"
    using HGET_reads [of "flow_key r wn" fid "db w"] by (cases rule: rdo_cases) auto
  assume "x = Inr c"
  then obtain v where v: "y = Inr (Bulk v)" "Decode (rsCodec r) v = Inr c"
    using assms y by (auto simp: GetFlowContext_def split: sum.splits reply.splits)
  from y [unfolded v(1)] have "apply_cmd (HGET (flow_key r wn) fid) (db w) = (Inr (Bulk v), db w')"
    by (cases rule: rdo_cases) auto
  then show "ctxs w (wn, fid) = Some c"
    using HGET_hfield v(2) by (fastforce simp: redis_contexts_def)
qed

lemma now_db [simp]: "rc_now (redisClient (rsDao r)) w = (t, w') \<Longrightarrow> db w' = db w"
  using now_frame [of w] by simp

lemma build_members_db: "db (snd (build_members r wn fid acts w)) = db w"
  by (induction acts arbitrary: w) (auto simp: Let_def split: prod.splits; metis now_db snd_conv)+

text \<open>The commands of a dispatch: the first writes the context, the others only queues.\<close>

lemma dispatch_contexts:
  assumes "SaveFlowContextAndDispatchAction r wn fid c acts w = (e, w')"
  shows "e = None \<Longrightarrow> ctxs w' = (ctxs w)((wn, fid) \<mapsto> img c)"
    and "ctxs w' = ctxs w \<or> ctxs w' = (ctxs w)((wn, fid) \<mapsto> img c)"
    and "strval (db w') = strval (db w)"
proof -
  obtain s where s: "Encode (rsCodec r) c = Inr s" "Decode (rsCodec r) s = Inr (img c)" using codec by blast
  obtain mu ms w1 where m: "build_members r wn fid acts w = ((mu, ms), w1)" by (metis prod.exhaust)
  then have w1: "db w1 = db w" using build_members_db [of wn fid acts w] by simp
  let ?hset = "HSET (flow_key r wn) fid s"
  let ?qs = "(if mu \<noteq> [] then [ZADD (queue_key r ''user'') mu] else []) @
    (if ms \<noteq> [] then [ZADD (queue_key r ''system'') ms] else [])"
  obtain x where x: "rc_tx (redisClient (rsDao r)) (?hset # ?qs) w1 = (x, w')" and e: "e = map_option StorageLayerError x"
    using assms s m by (auto simp: SaveFlowContextAndDispatchAction_def split: prod.splits option.splits)
  let ?ks = "snd (exec_cmds (?hset # ?qs) (db w))"
  have q: "\<forall>c \<in> set ?qs. queue_cmd c" by auto
  let ?ks1 = "snd (apply_cmd ?hset (db w))"
  have ks: "hfield ?ks = hfield ?ks1 \<and> strval ?ks = strval (db w)"
    using exec_queue_frame [OF q, of ?ks1] hash_strval(1) [of "flow_key r wn" fid s "db w"]
    by (simp add: split_beta Let_def del: apply_cmd.simps)
  have db: "db w' \<in> {db w, ?ks}"
    using x tx_ok [of "?hset # ?qs" w1 w'] tx_err [of "?hset # ?qs" w1 _ w'] w1 by (cases x) auto
  then show "strval (db w') = strval (db w)" using ks by auto
  show "ctxs w' = ctxs w \<or> ctxs w' = (ctxs w)((wn, fid) \<mapsto> img c)"
    using db HSET_contexts [OF s(2), of wn fid "db w"] contexts_cong [OF conjunct1 [OF ks]] by auto
  assume "e = None"
  then have "all_ok (fst (exec_cmds (?hset # ?qs) (db w)))" and ok: "db w' = ?ks"
    using x e w1 tx_ok [of "?hset # ?qs" w1 w'] by auto
  then obtain y where "apply_cmd ?hset (db w) = (Inr y, ?ks1)"
    by (cases "apply_cmd ?hset (db w)"; cases "fst (apply_cmd ?hset (db w))")
      (auto simp: all_ok_def Let_def split_beta simp del: apply_cmd.simps)
  then have "redis_contexts r ?ks1 = (ctxs w)((wn, fid) \<mapsto> img c)"
    using HSET_hfield(1) contexts_put [OF _ s(2)] by blast
  then show "ctxs w' = (ctxs w)((wn, fid) \<mapsto> img c)"
    using ok contexts_cong [OF conjunct1 [OF ks]] by simp
qed

lemma add_frame:
  "hfield (db (snd (addToSortedSet r key ms d w))) = hfield (db w) \<and>
   strval (db (snd (addToSortedSet r key ms d w))) = strval (db w)"
proof -
  obtain now w1 where now: "rc_now (redisClient (rsDao r)) w = (now, w1)" by fastforce
  let ?c = "ZADD key (map (\<lambda>m. (UnixMilli (now + d), m)) ms)"
  have "snd (addToSortedSet r key ms d w) = snd (rdo r ?c w1)"
    using now by (simp add: addToSortedSet_def split_beta Let_def)
  then show ?thesis using rdo_queue_frame [of ?c w1] now_db [OF now] by simp
qed

lemma expired_frame:
  "hfield (db (snd (getExpiredFromSortedSet r key w))) = hfield (db w) \<and>
   strval (db (snd (getExpiredFromSortedSet r key w))) = strval (db w)"
proof -
  obtain now w1 where now: "rc_now (redisClient (rsDao r)) w = (now, w1)" by fastforce
  let ?cs = "[ZRANGEBYSCORE key 0 (UnixMilli now), ZREMRANGEBYSCORE key 0 (UnixMilli now)]"
  obtain e rs w2 where p: "rc_pipe (redisClient (rsDao r)) ?cs w1 = ((e, rs), w2)" by (metis prod.exhaust)
  have "\<exists>n. db w2 = snd (exec_cmds (take n ?cs) (db w1))"
  proof (cases e)
    case None
    then show ?thesis using pipe_ok [of ?cs w1 rs w2] p by (intro exI [where x = 2]) (simp del: exec_cmds.simps)
  next
    case (Some x)
    then show ?thesis using pipe_err p by blast
  qed
  then obtain n where n: "db w2 = snd (exec_cmds (take n ?cs) (db w1))" ..
  have "\<forall>c \<in> set (take n ?cs). queue_cmd c" using set_take_subset [of n ?cs] by auto
  then have "hfield (db w2) = hfield (db w) \<and> strval (db w2) = strval (db w)"
    using exec_queue_frame [of "take n ?cs" "db w1"] n now_db [OF now] by simp
  moreover have "snd (getExpiredFromSortedSet r key w) = w2"
    using now p by (auto simp: getExpiredFromSortedSet_def Let_def split: option.splits list.splits sum.splits reply.splits)
  ultimately show ?thesis by simp
qed

lemma poll_expired_frame:
  "hfield (db (snd (poll_expired r name w))) = hfield (db w)"
  using expired_frame [of "queue_key r name" w] by (auto simp: poll_expired_def split: prod.splits sum.splits)

lemma poll_action_frame: "hfield (db (snd (PollAction r ty n w))) = hfield (db w)"
  using rdo_queue_frame(1) [of "ZRANGE (queue_key r ty) 0 (i64 (n - 1))" w]
  by (auto simp: PollAction_def split: prod.splits sum.splits reply.splits)

lemma ack_action_frame: "hfield (db (snd (Ack r ty acts w))) = hfield (db w)"
proof -
  let ?c = "ZREM (queue_key r ty) (map (\<lambda>act. message (aeWorkflowName act) (aeFlowId act) (aeActionName act) (aeActionId act)) acts)"
  show ?thesis using rdo_queue_frame(1) [of ?c w] by (simp add: Ack_def Let_def split_beta)
qed

end

sublocale redis_store \<subseteq> store: flow_store "NewRedisStorage r" "\<lambda>w. redis_contexts r (db w)" img
proof unfold_locales
  show "ctxs (snd (st_GetFlowContext (NewRedisStorage r) wn fid w)) = ctxs w" for wn fid w
    using get_contexts(2) [of wn fid w] by (cases "GetFlowContext r wn fid w") (simp add: NewRedisStorage_def)
  show "ctxs w' = ctxs w \<or> ctxs w' = (ctxs w)((wn, fid) \<mapsto> img c)"
    if "st_SaveFlowContext (NewRedisStorage r) wn fid c w = (Some e, w')" for wn fid c w e w'
    using that by (intro save_contexts(2)) (simp add: NewRedisStorage_def)
  show "ctxs w' = ctxs w \<or> ctxs w' = (ctxs w)((wn, fid) \<mapsto> img c)"
    if "st_SaveFlowContextAndDispatchAction (NewRedisStorage r) wn fid c reqs w = (Some e, w')" for wn fid c reqs w e w'
    using that by (intro dispatch_contexts(2)) (simp add: NewRedisStorage_def)
  show "ctxs w' = ctxs w \<or> ctxs w' = (ctxs w)((wn, fid) := None)"
    if "st_DeleteFlowContext (NewRedisStorage r) wn fid w = (Some e, w')" for wn fid w e w'
    using that by (intro delete_contexts(2)) (simp add: NewRedisStorage_def)
qed (auto simp: NewRedisStorage_def codec_State codec_Event codec_ctxId codec_Current codec_Executed
    Retry_def Delay_def Timeout_def PollRetry_def PollDelay_def PollTimeout_def
    dest: get_contexts(1) save_contexts delete_contexts dispatch_contexts
    intro!: contexts_cong poll_expired_frame poll_action_frame ack_action_frame conjunct1 [OF add_frame])

section \<open>Time queues\<close>

context redis_store
begin

text \<open>The functional behaviour of the time queues: what is added carries the time it is due, and a
  poll returns the due members in the order of their times and removes exactly those.\<close>

lemma add_ok:
  assumes "addToSortedSet r key [m] d w = (None, w')" and "rc_now (redisClient (rsDao r)) w = (t, w1)"
  shows "\<exists>z. zset_at (db w) key = Some z \<and> zset_at (db w') key = Some (fmupd m (UnixMilli (t + d)) z)"
proof -
  let ?c = "ZADD key [(UnixMilli (t + d), m)]"
  obtain x where x: "rdo r ?c w1 = (x, w')" and "storage_error x = None"
    using assms by (auto simp: addToSortedSet_def Let_def split: prod.splits)
  then obtain y where y: "apply_cmd ?c (db w) = (Inr y, db w')"
    using now_db [OF assms(2)] by (cases rule: rdo_cases) (auto simp: storage_error_def)
  then obtain z where z: "zset_at (db w) key = Some z" by (cases "zset_at (db w) key") (auto simp: typed_def)
  then have "db w' = put_zset key (fmupd m (UnixMilli (t + d)) z) (db w)" using y by (auto simp: typed_def)
  then show ?thesis using z by (auto simp: zset_at_def put_zset_def)
qed

lemma expired_ok:
  assumes "getExpiredFromSortedSet r key w = (Inr xs, w')" and "rc_now (redisClient (rsDao r)) w = (t, w1)"
  shows "\<exists>z. zset_at (db w) key = Some z \<and> xs = filter (in_score 0 (UnixMilli t) z) (zmembers z) \<and>
    zset_at (db w') key = Some (fmfilter (\<lambda>m. \<not> in_score 0 (UnixMilli t) z m) z)"
proof -
  let ?cs = "[ZRANGEBYSCORE key 0 (UnixMilli t), ZREMRANGEBYSCORE key 0 (UnixMilli t)]"
  obtain e rs w2 where p: "rc_pipe (redisClient (rsDao r)) ?cs w1 = ((e, rs), w2)" by (metis prod.exhaust)
  have e: "e = None" "w2 = w'"
    using assms p by (auto simp: getExpiredFromSortedSet_def Let_def
        split: option.splits list.splits sum.splits reply.splits if_splits)
  have ex: "exec_cmds ?cs (db w) = (rs, db w')" "all_ok rs"
    using pipe_ok [of ?cs w1 rs w'] p e now_db [OF assms(2)] by simp_all
  obtain z where z: "zset_at (db w) key = Some z"
    using ex by (cases "zset_at (db w) key") (auto simp: typed_def all_ok_def)
  then have rs: "rs = [Inr (Multi (filter (in_score 0 (UnixMilli t) z) (zmembers z))), Inr Done]"
    and w': "db w' = put_zset key (fmfilter (\<lambda>m. \<not> in_score 0 (UnixMilli t) z m) z) (db w)"
    using ex(1) by (auto simp: typed_def)
  have "xs = filter (in_score 0 (UnixMilli t) z) (zmembers z)"
    using assms p e rs by (simp add: getExpiredFromSortedSet_def)
  then show ?thesis using z w' by (auto simp: at_defs)
qed

text \<open>A member of a time queue that is due is returned by the next poll and removed; a member that
  is not due stays in the queue.\<close>

lemma poll_expired_member:
  assumes "poll_expired r name w = (Val (Inr reqs), w')" and now: "rc_now (redisClient (rsDao r)) w = (t, w1)"
    and z: "zset_at (db w) (queue_key r name) = Some z" and m: "fmlookup z msg = Some score"
    and p: "parse_message msg = Val req"
  shows "0 \<le> score \<Longrightarrow> score \<le> UnixMilli t \<Longrightarrow>
      req \<in> set reqs \<and> (\<exists>z'. zset_at (db w') (queue_key r name) = Some z' \<and> fmlookup z' msg = None)"
    and "UnixMilli t < score \<Longrightarrow>
      \<exists>z'. zset_at (db w') (queue_key r name) = Some z' \<and> fmlookup z' msg = Some score"
proof -
  obtain xs where xs: "getExpiredFromSortedSet r (queue_key r name) w = (Inr xs, w')"
    and reqs: "parse_messages xs = Val reqs"
    using assms(1) by (auto simp: poll_expired_def bind_res_Val_iff split: prod.splits sum.splits)
  note E = expired_ok [OF xs now]
  have due: "in_score 0 (UnixMilli t) z msg \<longleftrightarrow> 0 \<le> score \<and> score \<le> UnixMilli t"
    using m by (simp add: in_score_def)
  { assume "0 \<le> score" "score \<le> UnixMilli t"
    then have d: "in_score 0 (UnixMilli t) z msg" using due by simp
    then have "msg \<in> set xs" using E z m by (auto simp: fmdom'I)
    then have "\<exists>q \<in> set reqs. parse_message msg = Val q"
      using reqs list_all2_inD1 by (fastforce simp: parse_messages_Val)
    then have "req \<in> set reqs" using p by auto
    then show "req \<in> set reqs \<and> (\<exists>z'. zset_at (db w') (queue_key r name) = Some z' \<and> fmlookup z' msg = None)"
      using E z d by auto }
  assume "UnixMilli t < score"
  then have "\<not> in_score 0 (UnixMilli t) z msg" using due by simp
  then show "\<exists>z'. zset_at (db w') (queue_key r name) = Some z' \<and> fmlookup z' msg = Some score"
    using E z m by auto
qed

end

section \<open>Dispatch reaches the queues\<close>

definition queue_of :: "ActionExecutionRequest \<Rightarrow> string" where
  "queue_of act = (if aeActionType act = ACTION_TYPE_SYSTEM then ''system'' else ''user'')"

definition act_message :: "string \<Rightarrow> string \<Rightarrow> ActionExecutionRequest \<Rightarrow> string" where
  "act_message wn fid act = message wn fid (aeActionName act) (aeActionId act)"

lemma build_members_set:
  assumes "build_members r wn fid acts w = ((mu, ms), w')"
  shows "snd ` set mu = act_message wn fid ` {a \<in> set acts. queue_of a = ''user''} \<and>
    snd ` set ms = act_message wn fid ` {a \<in> set acts. queue_of a = ''system''}"
  using assms
proof (induction acts arbitrary: mu ms w w')
  case (Cons act acts)
  obtain now w1 where now: "rc_now (redisClient (rsDao r)) w = (now, w1)" by fastforce
  obtain mu' ms' w2 where m: "build_members r wn fid acts w1 = ((mu', ms'), w2)" by (metis prod.exhaust)
  have split: "{a \<in> set (act # acts). P a} = (if P act then {act} else {}) \<union> {a \<in> set acts. P a}" for P
    by auto
  let ?m = "(UnixMilli now, act_message wn fid act)"
  show ?case
  proof (cases "aeActionType act = ACTION_TYPE_SYSTEM")
    case True
    then have "mu = mu'" "ms = ?m # ms'" "queue_of act = ''system''"
      using Cons.prems now m by (simp_all add: act_message_def queue_of_def)
    then show ?thesis using Cons.IH [OF m] unfolding split by (simp add: image_Un)
  next
    case False
    then have "mu = ?m # mu'" "ms = ms'" "queue_of act = ''user''"
      using Cons.prems now m by (simp_all add: act_message_def queue_of_def)
    then show ?thesis using Cons.IH [OF m] unfolding split by (simp add: image_Un)
  qed
qed simp

lemma fold_zadd: "m \<in> snd ` set ms \<Longrightarrow> \<exists>s. fmlookup (fold (\<lambda>(s, m) z. fmupd m s z) ms z) m = Some s"
proof (induction ms arbitrary: z rule: rev_induct)
  case (snoc x ms)
  then show ?case by (cases x) auto
qed simp

lemma ZADD_adds:
  assumes "apply_cmd (ZADD k ms) ks = (Inr y, ks')" and "m \<in> snd ` set ms"
  shows "\<exists>z s. zset_at ks' k = Some z \<and> fmlookup z m = Some s"
proof -
  obtain z where z: "zset_at ks k = Some z"
    and ks': "ks' = put_zset k (fold (\<lambda>(s, m) z. fmupd m s z) ms z) ks"
    using assms(1) by (auto simp: typed_def split: if_splits option.splits)
  obtain s where s: "fmlookup (fold (\<lambda>(s, m) z. fmupd m s z) ms z) m = Some s" using fold_zadd [OF assms(2)] by blast
  then have "zset_at ks' k = Some (fold (\<lambda>(s, m) z. fmupd m s z) ms z)"
    by (auto simp: ks' zset_at_def put_zset_def)
  then show ?thesis using s by blast
qed

lemma ZADD_other: "k' \<noteq> k \<Longrightarrow> zset_at (snd (apply_cmd (ZADD k ms) ks)) k' = zset_at ks k'"
  by (auto simp: typed_def zset_at_def put_zset_def split: option.splits)

lemma queue_keys_distinct: "queue_key r ''user'' \<noteq> queue_key r ''system''"
  by (simp add: queue_key_def getNamespaceKey_def)

context redis_store
begin

lemma dispatch_queues:
  assumes "SaveFlowContextAndDispatchAction r wn fid c acts w = (None, w')" and "a \<in> set acts"
  shows "\<exists>z score. zset_at (db w') (queue_key r (queue_of a)) = Some z \<and>
    fmlookup z (act_message wn fid a) = Some score"
proof -
  obtain s where s: "Encode (rsCodec r) c = Inr s" using codec by blast
  obtain mu ms w1 where m: "build_members r wn fid acts w = ((mu, ms), w1)" by (metis prod.exhaust)
  note B = build_members_set [OF m]
  let ?h = "HSET (flow_key r wn) fid s"
  let ?u = "if mu \<noteq> [] then [ZADD (queue_key r ''user'') mu] else []"
  let ?s = "if ms \<noteq> [] then [ZADD (queue_key r ''system'') ms] else []"
  have x: "rc_tx (redisClient (rsDao r)) (?h # ?u @ ?s) w1 = (None, w')"
    using assms(1) s m by (auto simp: SaveFlowContextAndDispatchAction_def split: prod.splits option.splits)
  obtain ks1 where "snd (apply_cmd ?h (db w1)) = ks1" by blast
  with tx_ok [OF x] have ok: "all_ok (fst (exec_cmds (?u @ ?s) ks1))" "db w' = snd (exec_cmds (?u @ ?s) ks1)"
    by (auto simp: all_ok_def Let_def split_beta simp del: apply_cmd.simps)
  show ?thesis
  proof (cases "queue_of a = ''user''")
    case True
    then have mem: "act_message wn fid a \<in> snd ` set mu" using B assms(2) by auto
    then have ne: "mu \<noteq> []" by auto
    let ?zu = "ZADD (queue_key r ''user'') mu"
    obtain y where y: "apply_cmd ?zu ks1 = (Inr y, snd (apply_cmd ?zu ks1))"
      using ok(1) ne by (cases "fst (apply_cmd ?zu ks1)"; cases "apply_cmd ?zu ks1")
        (auto simp: all_ok_def Let_def split_beta simp del: apply_cmd.simps)
    have "zset_at (db w') (queue_key r ''user'') = zset_at (snd (apply_cmd ?zu ks1)) (queue_key r ''user'')"
      using ok(2) ne ZADD_other [OF queue_keys_distinct, of r ms "snd (apply_cmd ?zu ks1)"]
      by (simp add: Let_def split_beta del: apply_cmd.simps)
    then show ?thesis using ZADD_adds [OF y mem] True by simp
  next
    case False
    then have sys: "queue_of a = ''system''" by (simp add: queue_of_def split: if_splits)
    then have mem: "act_message wn fid a \<in> snd ` set ms" using B assms(2) by auto
    then have ne: "ms \<noteq> []" by auto
    let ?zs = "ZADD (queue_key r ''system'') ms"
    obtain ks2 where ks2: "ks2 = snd (exec_cmds ?u ks1)" by blast
    have w': "db w' = snd (apply_cmd ?zs ks2)" and "all_ok [fst (apply_cmd ?zs ks2)]"
      using ok ne ks2 by (auto simp: all_ok_def Let_def split_beta simp del: apply_cmd.simps split: if_splits)
    then obtain y where "apply_cmd ?zs ks2 = (Inr y, db w')"
      by (cases "fst (apply_cmd ?zs ks2)"; cases "apply_cmd ?zs ks2") (auto simp: all_ok_def simp del: apply_cmd.simps)
    from ZADD_adds [OF this mem] show ?thesis using sys by simp
  qed
qed

end

end
