(* ===== verification/Param_Resolver.thy ===== *)
theory Param_Resolver
  imports Model
begin

text \<open>
  Parameter resolution, \<open>src/util/param_resolver.go\<close>: the parameters of an action are
  copied, and every string that starts with a dollar sign is replaced by the value the
  \<open>jsonpath\<close> library finds in the flow's data. The library call
  \<open>jsonpath.JsonPathLookup\<close> is the argument \<open>lookup\<close>; it returns a value and an
  error, and the source drops the error. The theorems say what is kept (a parameter without
  path expressions is passed on unchanged) and what is not (nested lists are flattened, an
  empty list becomes nil).
\<close>

type_synonym jsonpath_lookup = "anymap \<Rightarrow> string \<Rightarrow> any \<times> error option"

section \<open>Definitions\<close>

text \<open>The slice a loop of \<open>append\<close>s builds: nil when nothing was appended.\<close>

definition slice_any :: "any list \<Rightarrow> any" where
  "slice_any xs = (if xs = [] then VNilSlice else VList xs)"

fun is_slice :: "any \<Rightarrow> bool" where
  "is_slice (VList l) = True"
| "is_slice VNilSlice = True"
| "is_slice _ = False"

fun slice_elems :: "any \<Rightarrow> any list" where
  "slice_elems (VList l) = l"
| "slice_elems _ = []"

text \<open>
  One parameter value. The element of a list that is itself a list is not kept as one
  element: its resolved elements are appended to the output.
\<close>

primrec resolve_value :: "jsonpath_lookup \<Rightarrow> anymap \<Rightarrow> any \<Rightarrow> any" where
  "resolve_value lookup flowData VNil = VNil"
| "resolve_value lookup flowData (VBool b) = VBool b"
| "resolve_value lookup flowData (VInt n) = VInt n"
| "resolve_value lookup flowData (VInt16 n) = VInt16 n"
| "resolve_value lookup flowData (VInt32 n) = VInt32 n"
| "resolve_value lookup flowData (VInt64 n) = VInt64 n"
| "resolve_value lookup flowData (VFloat32 q) = VFloat32 q"
| "resolve_value lookup flowData (VFloat64 q) = VFloat64 q"
| "resolve_value lookup flowData (VString s) =
     (if HasPrefix s ''$'' then fst (lookup flowData s) else VString s)"
| "resolve_value lookup flowData (VDuration d) = VDuration d"
| "resolve_value lookup flowData VNilSlice = VNilSlice"
| "resolve_value lookup flowData (VList l) =
     slice_any (concat (map2 (\<lambda>v r. if is_slice v then slice_elems r else [r])
       l (map (resolve_value lookup flowData) l)))"
| "resolve_value lookup flowData (VMap m) = VMap (fmmap (resolve_value lookup flowData) m)"

definition resolveParams :: "jsonpath_lookup \<Rightarrow> anymap \<Rightarrow> anymap \<Rightarrow> anymap" where
  "resolveParams lookup flowData params = fmmap (resolve_value lookup flowData) params"

definition resolveList :: "jsonpath_lookup \<Rightarrow> anymap \<Rightarrow> any list \<Rightarrow> any list" where
  "resolveList lookup flowData list =
     concat (map (\<lambda>v. let r = resolve_value lookup flowData v in
       if is_slice v then slice_elems r else [r]) list)"

definition ResolveInputParams :: "jsonpath_lookup \<Rightarrow> FlowContext \<Rightarrow> anymap \<Rightarrow> anymap" where
  "ResolveInputParams lookup flowContext inputParams =
     resolveParams lookup (Data flowContext) inputParams"

section \<open>Reference notions\<close>

text \<open>A value is \<open>path_free\<close> when no string in it is a path expression, \<open>flat\<close> when no
  list in it is empty or has a list as an element; \<open>leaves\<close> flattens nested lists.\<close>

primrec path_free :: "any \<Rightarrow> bool" where
  "path_free VNil = True"
| "path_free (VBool b) = True"
| "path_free (VInt n) = True"
| "path_free (VInt16 n) = True"
| "path_free (VInt32 n) = True"
| "path_free (VInt64 n) = True"
| "path_free (VFloat32 q) = True"
| "path_free (VFloat64 q) = True"
| "path_free (VString s) = (\<not> HasPrefix s ''$'')"
| "path_free (VDuration d) = True"
| "path_free VNilSlice = True"
| "path_free (VList l) = list_all path_free l"
| "path_free (VMap m) = pred_fmap path_free m"

primrec flat :: "any \<Rightarrow> bool" where
  "flat VNil = True"
| "flat (VBool b) = True"
| "flat (VInt n) = True"
| "flat (VInt16 n) = True"
| "flat (VInt32 n) = True"
| "flat (VInt64 n) = True"
| "flat (VFloat32 q) = True"
| "flat (VFloat64 q) = True"
| "flat (VString s) = True"
| "flat (VDuration d) = True"
| "flat VNilSlice = True"
| "flat (VList l) = (l \<noteq> [] \<and> list_all (\<lambda>v. \<not> is_slice v) l \<and> list_all flat l)"
| "flat (VMap m) = pred_fmap flat m"

primrec leaves :: "any \<Rightarrow> any list" where
  "leaves VNil = [VNil]"
| "leaves (VBool b) = [VBool b]"
| "leaves (VInt n) = [VInt n]"
| "leaves (VInt16 n) = [VInt16 n]"
| "leaves (VInt32 n) = [VInt32 n]"
| "leaves (VInt64 n) = [VInt64 n]"
| "leaves (VFloat32 q) = [VFloat32 q]"
| "leaves (VFloat64 q) = [VFloat64 q]"
| "leaves (VString s) = [VString s]"
| "leaves (VDuration d) = [VDuration d]"
| "leaves VNilSlice = []"
| "leaves (VList l) = concat (map leaves l)"
| "leaves (VMap m) = [VMap m]"

section \<open>Unfolding\<close>

lemma slice_elems_slice_any [simp]: "slice_elems (slice_any xs) = xs"
  by (simp add: slice_any_def)

lemma resolve_value_VList:
  "resolve_value lookup flowData (VList l) = slice_any (resolveList lookup flowData l)"
proof -
  have "concat (map2 (\<lambda>v r. if is_slice v then slice_elems r else [r]) l
          (map (resolve_value lookup flowData) l)) = resolveList lookup flowData l"
    by (induction l) (simp_all add: resolveList_def Let_def)
  then show ?thesis by simp
qed

lemma resolveList_simps [simp]:
  "resolveList lookup flowData [] = []"
  "resolveList lookup flowData (v # vs) =
     (if is_slice v then slice_elems (resolve_value lookup flowData v)
      else [resolve_value lookup flowData v]) @ resolveList lookup flowData vs"
  by (simp_all add: resolveList_def Let_def)

declare resolve_value.simps(12) [simp del] and resolve_value_VList [simp]

section \<open>Properties\<close>

lemma resolve_value_leaves:
  "(if is_slice v then slice_elems (resolve_value lookup flowData v)
    else [resolve_value lookup flowData v]) = map (resolve_value lookup flowData) (leaves v)"
proof (induction v)
  case (VList l)
  have "resolveList lookup flowData l = map (resolve_value lookup flowData) (concat (map leaves l))"
    using VList by (induction l) (force simp add: if_split_mem2)+
  then show ?case by simp
qed simp_all

lemma resolveList_leaves:
  "resolveList lookup flowData l = map (resolve_value lookup flowData) (concat (map leaves l))"
  by (induction l) (simp_all only: resolveList_simps resolve_value_leaves list.map concat.simps map_append)

lemma resolve_value_id:
  "path_free v \<Longrightarrow> flat v \<Longrightarrow> resolve_value lookup flowData v = v"
proof (induction v)
  case (VList l)
  have "resolveList lookup flowData l = l"
    using VList by (induction l) (auto, metis resolveList_simps(1))
  then show ?case using VList.prems by (simp add: slice_any_def)
next
  case (VMap m)
  have "fmmap (resolve_value lookup flowData) m = m"
  proof (rule fmap_ext)
    fix k
    show "fmlookup (fmmap (resolve_value lookup flowData) m) k = fmlookup m k"
    proof (cases "fmlookup m k")
      case (Some v)
      have "path_free v" and "flat v"
        using fmpredD [OF VMap.prems(1) [simplified] Some] fmpredD [OF VMap.prems(2) [simplified] Some]
        by simp_all
      with VMap.IH [OF fmran'I [OF Some]] Some show ?thesis by simp
    qed simp
  qed
  then show ?case by simp
qed simp_all

end
