(* ===== verification/Actions.thy ===== *)
theory Actions
  imports Model Param_Resolver
begin

text \<open>
  The actions of a workflow, \<open>src/action\<close>. The Go interface \<open>Action\<close> with its seven
  implementing structs is a datatype with one constructor per struct, and each interface
  method is a function by cases on it. The libraries behind the switch and the javascript
  action are the fields of the record \<open>externals\<close>: \<open>jsonpath\<close>, the \<open>goja\<close> virtual
  machine (its state is the list of scripts it has run), the text format of
  \<open>encoding/json\<close>, and the result Go leaves to the platform when a floating-point number
  is too large for an \<open>int\<close>.
\<close>

section \<open>External libraries\<close>

record externals =
  JsonPathLookup :: jsonpath_lookup
  JsonPathCompile :: "string \<Rightarrow> error option"
  RunString :: "string list \<Rightarrow> string \<Rightarrow> error + any"
  JsonMarshal :: "any \<Rightarrow> error + string"
  JsonUnmarshal :: "string \<Rightarrow> error + any"
  FloatOverflow :: "rat \<Rightarrow> int"

section \<open>Action types\<close>

datatype actionType = SYSTEM | USER

definition ToActionType :: "string \<Rightarrow> actionType" where
  "ToActionType s = (if EqualFold s ''system'' then SYSTEM else USER)"

definition ValidateActionType :: "string \<Rightarrow> error option" where
  "ValidateActionType s =
     (if EqualFold s ''system'' \<or> EqualFold s ''user'' then None else Some (InvalidActionType s))"

section \<open>The structs\<close>

record baseAction =
  baId :: int
  baActType :: actionType
  baName :: string
  baInputParams :: anymap
  baNextMap :: "nextmap option"
  baParams :: anymap

datatype Action =
    BaseAction baseAction
  | DelayAction baseAction int
  | WaitAction baseAction string int
  | SwitchAction baseAction string
  | JsAction baseAction string
  | JsonMapAction baseAction
  | UserAction baseAction

definition NewBaseAction ::
  "int \<Rightarrow> actionType \<Rightarrow> string \<Rightarrow> anymap \<Rightarrow> nextmap option \<Rightarrow> baseAction" where
  "NewBaseAction aid ty name inputParams nextMap =
     \<lparr>baId = aid, baActType = ty, baName = name, baInputParams = inputParams,
      baNextMap = nextMap, baParams = fmempty\<rparr>"

definition NewDelayAction :: "int \<Rightarrow> baseAction \<Rightarrow> Action" where
  "NewDelayAction delaySeconds b =
     (let delay = seconds delaySeconds
      in DelayAction (b\<lparr>baParams := fmupd ''delay'' (VDuration delay) (baParams b)\<rparr>) delay)"

definition NewWaitAction :: "string \<Rightarrow> int \<Rightarrow> baseAction \<Rightarrow> Action" where
  "NewWaitAction eventName timeoutSeconds b =
     (let timeout = seconds timeoutSeconds
      in WaitAction (b\<lparr>baParams := fmupd ''event'' (VString eventName)
           (fmupd ''timeout'' (VDuration timeout) (baParams b))\<rparr>) eventName timeout)"

definition NewSwitchAction :: "string \<Rightarrow> baseAction \<Rightarrow> Action" where
  "NewSwitchAction expression b = SwitchAction b expression"

definition NewJsAction :: "string \<Rightarrow> baseAction \<Rightarrow> Action" where
  "NewJsAction expression b = JsAction b expression"

definition NewJsonMapAction :: "baseAction \<Rightarrow> Action" where
  "NewJsonMapAction b = JsonMapAction b"

definition NewUserAction :: "baseAction \<Rightarrow> Action" where
  "NewUserAction b = UserAction b"

section \<open>Accessors\<close>

fun base_of :: "Action \<Rightarrow> baseAction" where
  "base_of (BaseAction b) = b"
| "base_of (DelayAction b _) = b"
| "base_of (WaitAction b _ _) = b"
| "base_of (SwitchAction b _) = b"
| "base_of (JsAction b _) = b"
| "base_of (JsonMapAction b) = b"
| "base_of (UserAction b) = b"

definition GetId :: "Action \<Rightarrow> int" where
  "GetId a = baId (base_of a)"

definition GetName :: "Action \<Rightarrow> string" where
  "GetName a = baName (base_of a)"

definition GetType :: "Action \<Rightarrow> actionType" where
  "GetType a = baActType (base_of a)"

definition GetInputParams :: "Action \<Rightarrow> anymap" where
  "GetInputParams a = baInputParams (base_of a)"

definition GetParams :: "Action \<Rightarrow> anymap" where
  "GetParams a = baParams (base_of a)"

definition GetNext :: "Action \<Rightarrow> nextmap option" where
  "GetNext a = baNextMap (base_of a)"

section \<open>Validation\<close>

definition has_default :: "nextmap option \<Rightarrow> bool" where
  "has_default nm = (case nm of None \<Rightarrow> False | Some m \<Rightarrow> fmlookup m ''default'' \<noteq> None)"

definition base_Validate :: "baseAction \<Rightarrow> error option" where
  "base_Validate b = Some (ImplementationNotFound (baName b))"

definition delay_Validate :: "baseAction \<Rightarrow> int \<Rightarrow> error option" where
  "delay_Validate d delay =
     (if delay \<le> 0 then Some (DelayValueWrong (baId d) delay)
      else if \<not> has_default (baNextMap d) then Some (DelayWithoutDefault (baId d))
      else None)"

definition wait_Validate :: "baseAction \<Rightarrow> string \<Rightarrow> error option" where
  "wait_Validate b event =
     (if length event = 0 then Some (WaitWithoutEvent (baId b))
      else if \<not> has_default (baNextMap b) then Some (WaitWithoutDefault (baId b))
      else None)"

definition switch_Validate :: "externals \<Rightarrow> baseAction \<Rightarrow> string \<Rightarrow> error option" where
  "switch_Validate ex d expression =
     (if length expression = 0 then Some (ExpressionEmpty (baId d))
      else if JsonPathCompile ex expression \<noteq> None then Some (ExpressionInvalid (baId d))
      else if (case baNextMap d of None \<Rightarrow> True | Some m \<Rightarrow> m = fmempty)
      then Some (SwitchWithoutNext (baId d))
      else None)"

definition js_Validate :: "baseAction \<Rightarrow> string \<Rightarrow> error option" where
  "js_Validate d expression =
     (if length expression = 0 then Some (ExpressionEmpty (baId d)) else None)"

fun Validate :: "externals \<Rightarrow> Action \<Rightarrow> error option" where
  "Validate ex (BaseAction b) = base_Validate b"
| "Validate ex (DelayAction b delay) = delay_Validate b delay"
| "Validate ex (WaitAction b event timeout) = wait_Validate b event"
| "Validate ex (SwitchAction b expression) = switch_Validate ex b expression"
| "Validate ex (JsAction b expression) = js_Validate b expression"
| "Validate ex (JsonMapAction b) = None"
| "Validate ex (UserAction b) = None"

section \<open>Execution\<close>

text \<open>Go's conversion of a \<open>float64\<close> to \<open>int\<close> truncates towards zero; outside the
  range of \<open>int64\<close> the result is the platform's.\<close>

definition trunc :: "rat \<Rightarrow> int" where
  "trunc q = (if q < 0 then \<lceil>q\<rceil> else \<lfloor>q\<rfloor>)"

definition float_to_int :: "externals \<Rightarrow> rat \<Rightarrow> int" where
  "float_to_int ex q =
     (if - (2 ^ 63) \<le> trunc q \<and> trunc q < 2 ^ 63 then trunc q else FloatOverflow ex q)"

definition FormatBool :: "bool \<Rightarrow> string" where
  "FormatBool b = (if b then ''true'' else ''false'')"

text \<open>
  The event a switch value selects. The clause for integers asserts the type \<open>int\<close> and the
  clause for floats the type \<open>float64\<close>, so the other types of the two clauses panic; a value
  of any other type leaves the event \<open>default\<close>.
\<close>

fun switch_event :: "externals \<Rightarrow> any \<Rightarrow> string res" where
  "switch_event ex (VInt n) = Val (Itoa n)"
| "switch_event ex (VInt16 n) = Panic TypeAssertion"
| "switch_event ex (VInt32 n) = Panic TypeAssertion"
| "switch_event ex (VInt64 n) = Panic TypeAssertion"
| "switch_event ex (VFloat32 q) = Panic TypeAssertion"
| "switch_event ex (VFloat64 q) = Val (Itoa (float_to_int ex q))"
| "switch_event ex (VBool b) = Val (FormatBool b)"
| "switch_event ex (VString s) = Val s"
| "switch_event ex _ = Val ''default''"

type_synonym exec_result = "error + (string \<times> anymap option)"

definition switch_Execute :: "externals \<Rightarrow> string \<Rightarrow> FlowContext \<Rightarrow> exec_result res" where
  "switch_Execute ex expression flowContext =
     (let (expressionValue, err) = JsonPathLookup ex (Data flowContext) expression in
      case err of
        Some e \<Rightarrow> Val (Inl e)
      | None \<Rightarrow> bind_res (switch_event ex expressionValue) (\<lambda>event. Val (Inr (event, None))))"

definition js_Execute :: "externals \<Rightarrow> string \<Rightarrow> FlowContext \<Rightarrow> exec_result" where
  "js_Execute ex expression flowContext =
     (let data = (case JsonMarshal ex (VMap (Data flowContext)) of Inl _ \<Rightarrow> [] | Inr s \<Rightarrow> s);
          script = ''var $ = '' @ data @ '';'' @ [CHR 0x0A] @ expression in
      case RunString ex [] script of
        Inl e \<Rightarrow> Inl (JavascriptError e)
      | Inr _ \<Rightarrow>
        (case RunString ex [script] ''$'' of
           Inl e \<Rightarrow> Inl (JavascriptError e)
         | Inr val \<Rightarrow>
           (case JsonMarshal ex val of
              Inl e \<Rightarrow> Inl e
            | Inr res \<Rightarrow>
                Inr (''default'',
                  case JsonUnmarshal ex res of Inr (VMap m) \<Rightarrow> Some m | _ \<Rightarrow> None))))"

definition jsonMap_Execute :: "externals \<Rightarrow> baseAction \<Rightarrow> FlowContext \<Rightarrow> exec_result" where
  "jsonMap_Execute ex d flowContext =
     Inr (''default'', Some (ResolveInputParams (JsonPathLookup ex) flowContext (baInputParams d)))"

definition delay_Execute :: "FlowContext \<Rightarrow> exec_result" where
  "delay_Execute flowContext = Inr (''default'', None)"

definition wait_Execute :: "FlowContext \<Rightarrow> exec_result" where
  "wait_Execute flowContext = Inr (''default'', None)"

definition user_Execute :: "FlowContext \<Rightarrow> exec_result" where
  "user_Execute flowContext = Inr (''default'', None)"

fun Execute :: "externals \<Rightarrow> Action \<Rightarrow> FlowContext \<Rightarrow> exec_result res" where
  "Execute ex (BaseAction b) flowContext = Val (Inl CanNotExecute)"
| "Execute ex (DelayAction b delay) flowContext = Val (delay_Execute flowContext)"
| "Execute ex (WaitAction b event timeout) flowContext = Val (wait_Execute flowContext)"
| "Execute ex (SwitchAction b expression) flowContext = switch_Execute ex expression flowContext"
| "Execute ex (JsAction b expression) flowContext = Val (js_Execute ex expression flowContext)"
| "Execute ex (JsonMapAction b) flowContext = Val (jsonMap_Execute ex b flowContext)"
| "Execute ex (UserAction b) flowContext = Val (user_Execute flowContext)"

section \<open>Properties\<close>

lemmas accessor_defs = GetId_def GetName_def GetType_def GetInputParams_def GetParams_def GetNext_def
lemmas constructor_defs = NewBaseAction_def NewDelayAction_def NewWaitAction_def
  NewSwitchAction_def NewJsAction_def NewJsonMapAction_def NewUserAction_def

lemmas validate_defs_of_actions = base_Validate_def delay_Validate_def wait_Validate_def switch_Validate_def js_Validate_def
lemmas execute_defs_of_actions = jsonMap_Execute_def delay_Execute_def wait_Execute_def user_Execute_def

lemma trunc_of_int [simp]: "trunc (of_int n) = n"
  by (simp add: trunc_def)

lemma ToActionType_valid:
  "ValidateActionType s = None \<longleftrightarrow> ToActionType s = SYSTEM \<or> EqualFold s ''user''"
  by (simp add: ValidateActionType_def ToActionType_def)

end
