(* ===== verification/Flow_Def.thy ===== *)
theory Flow_Def
  imports Actions
begin

text \<open>
  The compiled form of a workflow, \<open>src/flow/flow.go\<close>. A state handler is a string; the
  names \<open>DELETE\<close> and \<open>NOOP\<close> are the two the engine knows.
\<close>

type_synonym Statehandler = string

definition DELETE :: Statehandler where
  "DELETE = ''DELETE''"

definition NOOP :: Statehandler where
  "NOOP = ''NOOP''"

lemma DELETE_NOOP [simp]: "DELETE \<noteq> NOOP" "NOOP \<noteq> DELETE"
  by (simp_all add: DELETE_def NOOP_def)

definition ValidateStateHandler :: "string \<Rightarrow> error option" where
  "ValidateStateHandler st =
     (if length st = 0 \<or> EqualFold st ''DELETE'' \<or> EqualFold st ''NOOP'' then None
      else Some (InvalidStateHandler st))"

record Flow =
  flowId :: string
  RootAction :: int
  flowActions :: "(int, Action) fmap"
  FailureHandler :: Statehandler
  SuccessHandler :: Statehandler
  TerminalActions :: "int list list"

end
