(* ===== verification/Slices.thy ===== *)
theory Slices
  imports Prelude
begin

text \<open>
  The slice helpers of \<open>src/util/slice.go\<close>. \<open>Merge\<close> combines the terminal-action
  combinations of parallel branches, \<open>Contains\<close> decides whether one combination has been
  executed. The lemmas characterise both over sets, which is how the rest of the development
  uses them. \<open>Shuffle\<close> reorders the partitions before a poll; it permutes, whatever numbers are drawn.
\<close>

section \<open>Definitions\<close>

definition Merge :: "int list list \<Rightarrow> int list list \<Rightarrow> int list list" where
  "Merge arr1 arr2 =
     (if arr1 = [] then arr2
      else if arr2 = [] then arr1
      else concat (map (\<lambda>outer. map (\<lambda>inner. outer @ inner) arr2) arr1))"

definition Contains :: "int list \<Rightarrow> int list \<Rightarrow> bool" where
  "Contains src dst =
     (if length src = 0 \<and> length dst = 0 then True
      else list_all (\<lambda>v. v \<in> set src) dst)"

text \<open>\<open>rand.Shuffle\<close> of Go's library: for \<open>i\<close> from the last index down to 1, the element at \<open>i\<close> is swapped with
  the one at an index that is drawn from 0 to \<open>i\<close>; \<open>rnd i\<close> is that draw.\<close>

definition swap_at :: "nat \<Rightarrow> nat \<Rightarrow> 'a list \<Rightarrow> 'a list" where
  "swap_at i j xs = xs[i := xs ! j, j := xs ! i]"

primrec rand_Shuffle :: "(nat \<Rightarrow> nat) \<Rightarrow> nat \<Rightarrow> 'a list \<Rightarrow> 'a list" where
  "rand_Shuffle rnd 0 xs = xs"
| "rand_Shuffle rnd (Suc i) xs = rand_Shuffle rnd i (swap_at (Suc i) (rnd (Suc i)) xs)"

definition Shuffle :: "(nat \<Rightarrow> nat) \<Rightarrow> int list \<Rightarrow> int list" where
  "Shuffle rnd xs = rand_Shuffle rnd (length xs - 1) xs"

section \<open>Characterisation\<close>

lemma length_swap_at [simp]: "length (swap_at i j xs) = length xs"
  by (simp add: swap_at_def)

lemma mset_swap_at [simp]: "i < length xs \<Longrightarrow> j < length xs \<Longrightarrow> mset (swap_at i j xs) = mset xs"
  unfolding swap_at_def by (rule mset_swap)

lemma mset_rand_Shuffle:
  "(\<And>i. rnd i \<le> i) \<Longrightarrow> n < length xs \<Longrightarrow> mset (rand_Shuffle rnd n xs) = mset xs"
proof (induction n arbitrary: xs)
  case (Suc n)
  have "rnd (Suc n) < length xs" using Suc.prems(1) [of "Suc n"] Suc.prems(2) by simp
  then show ?case using Suc by simp
qed simp

lemma perm_fun_Shuffle: "(\<And>i. rnd i \<le> i) \<Longrightarrow> perm_fun (Shuffle rnd)"
  unfolding perm_fun_def Shuffle_def using mset_rand_Shuffle [of rnd]
  by (metis One_nat_def Suc_pred diff_0_eq_0 length_greater_0_conv lessI list.size(3) rand_Shuffle.simps(1))

lemma Contains_iff: "Contains src dst \<longleftrightarrow> set dst \<subseteq> set src"
  by (auto simp: Contains_def list_all_iff)

lemma Merge_Nil [simp]: "Merge [] ys = ys" "Merge xs [] = xs"
  by (simp_all add: Merge_def)

lemma Merge_eq_Nil_iff: "Merge xs ys = [] \<longleftrightarrow> xs = [] \<and> ys = []"
  by (auto simp: Merge_def)

lemma set_Merge:
  assumes "xs \<noteq> []" and "ys \<noteq> []"
  shows "set (Merge xs ys) = {x @ y | x y. x \<in> set xs \<and> y \<in> set ys}"
  using assms by (auto simp: Merge_def)

lemma sets_Merge:
  assumes "xs \<noteq> []" and "ys \<noteq> []"
  shows "set ` set (Merge xs ys) = {A \<union> B | A B. A \<in> set ` set xs \<and> B \<in> set ` set ys}"
  unfolding set_Merge [OF assms] by (auto 4 4 simp: image_iff)

lemma length_Merge:
  assumes "xs \<noteq> []" and "ys \<noteq> []"
  shows "length (Merge xs ys) = length xs * length ys"
  using assms by (simp add: Merge_def length_concat sum_list_triv comp_def)

section \<open>Merging the outputs of parallel branches\<close>

text \<open>A pick chooses one combination from the output of every branch.\<close>

definition picks :: "int list list list \<Rightarrow> int set list set" where
  "picks outs = {Ts. list_all2 (\<lambda>out T. T \<in> set ` set out) outs Ts}"

lemma picks_simps [simp]:
  "Ts \<in> picks [] \<longleftrightarrow> Ts = []"
  "Ts \<in> picks (out # outs) \<longleftrightarrow> (\<exists>B Us. Ts = B # Us \<and> B \<in> set ` set out \<and> Us \<in> picks outs)"
  by (auto simp: picks_def list_all2_Cons1)

lemma merge_fold_nonempty:
  "acc \<noteq> [] \<Longrightarrow> foldl (\<lambda>acc out. Merge out acc) acc outs \<noteq> []"
  by (induction outs arbitrary: acc) (simp_all add: Merge_eq_Nil_iff)

lemma sets_merge_fold:
  assumes "acc \<noteq> []" and "[] \<notin> set outs"
  shows "set ` set (foldl (\<lambda>acc out. Merge out acc) acc outs) =
    {A \<union> \<Union> (set Ts) | A Ts. A \<in> set ` set acc \<and> Ts \<in> picks outs}"
  using assms
proof (induction outs arbitrary: acc)
  case (Cons out outs)
  have o: "out \<noteq> []" and os: "[] \<notin> set outs" using Cons.prems by auto
  have "set ` set (foldl (\<lambda>acc out. Merge out acc) acc (out # outs)) =
    {A \<union> \<Union> (set Ts) | A Ts. A \<in> set ` set (Merge out acc) \<and> Ts \<in> picks outs}"
    using Cons.IH [of "Merge out acc"] o os by (simp add: Merge_eq_Nil_iff)
  also have "\<dots> = {B \<union> C \<union> \<Union> (set Us) | B C Us.
      B \<in> set ` set out \<and> C \<in> set ` set acc \<and> Us \<in> picks outs}"
    unfolding sets_Merge [OF o Cons.prems(1)] by blast
  also have "\<dots> = {C \<union> \<Union> (set (B # Us)) | B C Us.
      B \<in> set ` set out \<and> C \<in> set ` set acc \<and> Us \<in> picks outs}"
    by (simp add: Un_ac)
  also have "\<dots> = {A \<union> \<Union> (set Ts) | A Ts. A \<in> set ` set acc \<and> Ts \<in> picks (out # outs)}"
    unfolding picks_simps(2) by blast
  finally show ?case .
qed auto

lemma sets_merge_fold_Nil:
  assumes "outs \<noteq> []" and "[] \<notin> set outs"
  shows "set ` set (foldl (\<lambda>acc out. Merge out acc) [] outs) = {\<Union> (set Ts) | Ts. Ts \<in> picks outs}"
proof -
  obtain out os where outs: "outs = out # os" using assms(1) by (cases outs) auto
  then have "out \<noteq> []" and "[] \<notin> set os" using assms(2) by auto
  then have "set ` set (foldl (\<lambda>acc out. Merge out acc) [] outs) =
      {\<Union> (set (A # Ts)) | A Ts. A \<in> set ` set out \<and> Ts \<in> picks os}"
    by (simp add: outs sets_merge_fold)
  also have "\<dots> = {\<Union> (set Ts) | Ts. Ts \<in> picks outs}"
    unfolding outs picks_simps(2) by blast
  finally show ?thesis .
qed

end
