(* ===== verification/Metadata.thy ===== *)
theory Metadata
  imports Flow_Def Slices
begin

text \<open>
  The metadata service, \<open>src/metadata/service.go\<close>: \<open>GetFlow\<close> compiles a stored workflow
  definition into a \<open>Flow\<close> (its actions and the combinations of terminal actions that
  complete it), \<open>ValidateFlow\<close> is the check a definition passes before it is stored. The Go
  interface \<open>MetadataStorage\<close> of \<open>src/metadata/storage.go\<close> is a record of operations on
  an abstract world \<open>'w\<close>, and the service takes it as an argument.

  The lemmas show that the terminal combinations computed by \<open>walk\<close> are exactly the leaf
  sets of the resolutions of the workflow graph (\<open>outcome\<close>), that \<open>walk\<close> returns on every
  acyclic graph and on no cyclic one, and what a definition accepted by \<open>ValidateFlow\<close>
  satisfies.
\<close>

section \<open>Definitions\<close>

record 'w MetadataStorage =
  ms_SaveWorkflowDefinition :: "Workflow \<Rightarrow> 'w \<Rightarrow> error option \<times> 'w"
  ms_DeleteWorkflowDefinition :: "string \<Rightarrow> 'w \<Rightarrow> error option \<times> 'w"
  ms_GetWorkflowDefinition :: "string \<Rightarrow> 'w \<Rightarrow> (error + Workflow) \<times> 'w"
  ms_SaveActionDefinition :: "ActionDefinition \<Rightarrow> 'w \<Rightarrow> error option \<times> 'w"
  ms_DeleteActionDefinition :: "string \<Rightarrow> 'w \<Rightarrow> error option \<times> 'w"
  ms_GetActionDefinition :: "string \<Rightarrow> 'w \<Rightarrow> (error + ActionDefinition) \<times> 'w"

subsection \<open>Building the actions\<close>

definition build_action :: "ActionDef \<Rightarrow> Action" where
  "build_action actionDef =
     (let actionType = ToActionType (adType actionDef);
          base = NewBaseAction (adId actionDef) actionType (adName actionDef)
                   (InputParams actionDef) (Next actionDef) in
      if actionType = SYSTEM then
        if EqualFold (adName actionDef) ''switch'' then NewSwitchAction (Expression actionDef) base
        else if EqualFold (adName actionDef) ''delay'' then NewDelayAction (DelaySeconds actionDef) base
        else if EqualFold (adName actionDef) ''wait''
        then NewWaitAction (adEvent actionDef) (TimeoutSeconds actionDef) base
        else if EqualFold (adName actionDef) ''javascript'' then NewJsAction (Expression actionDef) base
        else if EqualFold (adName actionDef) ''jsonmapper'' then NewJsonMapAction base
        else BaseAction base
      else NewUserAction base)"

definition build_actions :: "ActionDef list \<Rightarrow> (int, Action) fmap" where
  "build_actions defs =
     fold (\<lambda>actionDef actionMap. fmupd (adId actionDef) (build_action actionDef) actionMap) defs fmempty"

subsection \<open>Terminal actions\<close>

definition next_actions :: "nextmap \<Rightarrow> string \<Rightarrow> int list" where
  "next_actions nm event = (case fmlookup nm event of Some (Some ids) \<Rightarrow> ids | _ \<Rightarrow> [])"

text \<open>\<open>walk\<close> with the number of stack frames left. For an empty list of next actions the
  source indexes element 0 of it.\<close>

primrec walk :: "nat \<Rightarrow> runtime \<Rightarrow> (int, Action) fmap \<Rightarrow> int \<Rightarrow> int list list res" where
  "walk 0 rt actionMap rootId = Panic StackOverflow"
| "walk (Suc depth) rt actionMap rootId =
     (case fmlookup actionMap rootId of
        None \<Rightarrow> Panic NilDeref
      | Some act \<Rightarrow>
        (case GetNext act of
           None \<Rightarrow> Val [[GetId act]]
         | Some nm \<Rightarrow>
           fold_res
             (\<lambda>event result.
                let nextActions = next_actions nm event in
                if length nextActions = 0 then Panic IndexOutOfRange
                else bind_res
                  (fold_res (\<lambda>action finalOut.
                     bind_res (walk depth rt actionMap action) (\<lambda>out. Val (Merge out finalOut)))
                     nextActions [])
                  (\<lambda>finalOut. Val (result @ finalOut)))
             (range_keys (ordS rt) nm) []))"

subsection \<open>GetFlow\<close>

definition handler_or_noop :: "string \<Rightarrow> Statehandler" where
  "handler_or_noop st = (if length st > 0 then st else NOOP)"

definition build_flow :: "runtime \<Rightarrow> Workflow \<Rightarrow> string \<Rightarrow> Flow res" where
  "build_flow rt wfl fid =
     (let actionMap = build_actions (wfActions wfl) in
      bind_res (walk (maxDepth rt) rt actionMap (wfRootAction wfl)) (\<lambda>terminalActions.
        Val \<lparr>flowId = fid, RootAction = wfRootAction wfl, flowActions = actionMap,
             FailureHandler = handler_or_noop (OnFailure wfl),
             SuccessHandler = handler_or_noop (OnSuccess wfl),
             TerminalActions = terminalActions\<rparr>))"

definition GetFlow ::
  "runtime \<Rightarrow> 'w MetadataStorage \<Rightarrow> string \<Rightarrow> string \<Rightarrow> 'w \<Rightarrow> (error + Flow) res \<times> 'w" where
  "GetFlow rt ms name fid w =
     (case ms_GetWorkflowDefinition ms name w of
        (Inl e, w') \<Rightarrow> (Val (Inl e), w')
      | (Inr wfl, w') \<Rightarrow> (bind_res (build_flow rt wfl fid) (\<lambda>fl. Val (Inr fl)), w'))"

subsection \<open>ValidateFlow\<close>

definition validate_next :: "runtime \<Rightarrow> int set \<Rightarrow> ActionDef \<Rightarrow> error option" where
  "validate_next rt allActions actionDef =
     (case Next actionDef of
        None \<Rightarrow> None
      | Some nextMap \<Rightarrow>
          if nextMap = fmempty then Some (InvalidNextAction (adId actionDef))
          else first_some (\<lambda>event.
            case fmlookup nextMap event of
              Some (Some v) \<Rightarrow>
                first_some (\<lambda>act. if act \<in> allActions then None
                                  else Some (NextNotDefined (adId actionDef) act)) v
            | _ \<Rightarrow> Some (NextNotArray (adId actionDef)))
            (range_keys (ordS rt) nextMap))"

fun validate_defs ::
  "runtime \<Rightarrow> int set \<Rightarrow> int set \<Rightarrow> ActionDef list \<Rightarrow> error + int set" where
  "validate_defs rt allActions validActionId [] = Inr validActionId"
| "validate_defs rt allActions validActionId (actionDef # defs) =
     (case validate_next rt allActions actionDef of
        Some e \<Rightarrow> Inl e
      | None \<Rightarrow>
          if adId actionDef \<in> validActionId then Inl (DuplicateActionId (adId actionDef))
          else case ValidateActionType (adType actionDef) of
            Some e \<Rightarrow> Inl e
          | None \<Rightarrow> validate_defs rt allActions (insert (adId actionDef) validActionId) defs)"

fun validate_impls ::
  "externals \<Rightarrow> 'w MetadataStorage \<Rightarrow> Action list \<Rightarrow> 'w \<Rightarrow> error option \<times> 'w" where
  "validate_impls ex ms [] w = (None, w)"
| "validate_impls ex ms (act # acts) w =
     (case Validate ex act of
        Some e \<Rightarrow> (Some e, w)
      | None \<Rightarrow>
          if GetType act = USER then
            (case ms_GetActionDefinition ms (GetName act) w of
               (Inl _, w') \<Rightarrow> (Some (ActionNotRegistered (GetId act) (GetName act)), w')
             | (Inr _, w') \<Rightarrow> validate_impls ex ms acts w')
          else validate_impls ex ms acts w)"

definition validate_static :: "runtime \<Rightarrow> Workflow \<Rightarrow> error option" where
  "validate_static rt wfl =
     (case ValidateStateHandler (OnFailure wfl) of
        Some e \<Rightarrow> Some e
      | None \<Rightarrow>
        (case ValidateStateHandler (OnSuccess wfl) of
           Some e \<Rightarrow> Some e
         | None \<Rightarrow>
           (case validate_defs rt (set (map adId (wfActions wfl))) {} (wfActions wfl) of
              Inl e \<Rightarrow> Some e
            | Inr validActionId \<Rightarrow>
                if wfRootAction wfl \<in> validActionId then None
                else Some (NoRootAction (wfRootAction wfl)))))"

definition ValidateFlow ::
  "runtime \<Rightarrow> externals \<Rightarrow> 'w MetadataStorage \<Rightarrow> Workflow \<Rightarrow> 'w \<Rightarrow> error option \<times> 'w" where
  "ValidateFlow rt ex ms wfl w =
     (case validate_static rt wfl of
        Some e \<Rightarrow> (Some e, w)
      | None \<Rightarrow>
          let actionMap = build_actions (wfActions wfl) in
          validate_impls ex ms
            (map (\<lambda>i. the (fmlookup actionMap i)) (range_keys (ordI rt) actionMap)) w)"

section \<open>The reference semantics of terminal combinations\<close>

text \<open>
  A resolution of the graph below an action picks one event for the action and a resolution
  for each of the next actions of that event; \<open>outcome\<close> relates an action to the set of
  leaves such a resolution ends in.
\<close>

inductive outcome :: "(int, Action) fmap \<Rightarrow> int \<Rightarrow> int set \<Rightarrow> bool" for am where
  leaf: "fmlookup am a = Some act \<Longrightarrow> GetNext act = None \<Longrightarrow> outcome am a {GetId act}"
| branch: "fmlookup am a = Some act \<Longrightarrow> GetNext act = Some nm \<Longrightarrow> event \<in> fmdom' nm \<Longrightarrow>
    list_all2 (outcome am) (next_actions nm event) Ts \<Longrightarrow> outcome am a (\<Union> (set Ts))"

inductive_cases outcomeE: "outcome am a T"

definition edges :: "(int, Action) fmap \<Rightarrow> (int \<times> int) set" where
  "edges am = {(a, b). \<exists>act nm event. fmlookup am a = Some act \<and> GetNext act = Some nm \<and>
     event \<in> fmdom' nm \<and> b \<in> set (next_actions nm event)}"

text \<open>What \<open>walk\<close> needs of an action map: next maps are not empty, every event has at least
  one next action, and next actions are defined.\<close>

definition walkable :: "(int, Action) fmap \<Rightarrow> bool" where
  "walkable am \<longleftrightarrow> (\<forall>a act nm. fmlookup am a = Some act \<longrightarrow> GetNext act = Some nm \<longrightarrow>
     nm \<noteq> fmempty \<and>
     (\<forall>event \<in> fmdom' nm. next_actions nm event \<noteq> [] \<and> set (next_actions nm event) \<subseteq> fmdom' am))"

definition no_empty_next :: "(int, Action) fmap \<Rightarrow> bool" where
  "no_empty_next am \<longleftrightarrow> (\<forall>a act. fmlookup am a = Some act \<longrightarrow> GetNext act \<noteq> Some fmempty)"

lemma walkable_no_empty_next: "walkable am \<Longrightarrow> no_empty_next am"
  by (auto simp: walkable_def no_empty_next_def)

section \<open>One level of the recursion\<close>

definition walk_event ::
  "nat \<Rightarrow> runtime \<Rightarrow> (int, Action) fmap \<Rightarrow> nextmap \<Rightarrow> string \<Rightarrow> int list list res" where
  "walk_event depth rt am nm event =
     (if next_actions nm event = [] then Panic IndexOutOfRange
      else fold_res (\<lambda>action finalOut.
        bind_res (walk depth rt am action) (\<lambda>out. Val (Merge out finalOut)))
        (next_actions nm event) [])"

lemma walk_Suc:
  "walk (Suc depth) rt am a =
     (case fmlookup am a of
        None \<Rightarrow> Panic NilDeref
      | Some act \<Rightarrow>
        (case GetNext act of
           None \<Rightarrow> Val [[GetId act]]
         | Some nm \<Rightarrow>
             fold_res (\<lambda>event result. bind_res (walk_event depth rt am nm event)
               (\<lambda>finalOut. Val (result @ finalOut))) (range_keys (ordS rt) nm) []))"
proof -
  have "(\<lambda>event result. let nextActions = next_actions nm event in
          if length nextActions = 0 then Panic IndexOutOfRange
          else bind_res (fold_res (\<lambda>action finalOut.
            bind_res (walk depth rt am action) (\<lambda>out. Val (Merge out finalOut))) nextActions [])
            (\<lambda>finalOut. Val (result @ finalOut))) =
        (\<lambda>event result. bind_res (walk_event depth rt am nm event)
            (\<lambda>finalOut. Val (result @ finalOut)))" for nm
    by (simp add: fun_eq_iff walk_event_def Let_def)
  then show ?thesis by (simp only: walk.simps(2))
qed

lemma walk_event_Val_iff:
  "walk_event depth rt am nm event = Val r \<longleftrightarrow>
     next_actions nm event \<noteq> [] \<and>
     (\<exists>outs. list_all2 (\<lambda>b out. walk depth rt am b = Val out) (next_actions nm event) outs \<and>
        r = foldl (\<lambda>acc out. Merge out acc) [] outs)"
  unfolding walk_event_def
  using fold_res_combine [where g = "walk depth rt am" and c = "\<lambda>acc out. Merge out acc"]
  by auto

lemma walk_event_ex:
  "(\<exists>r. walk_event depth rt am nm event = Val r) \<longleftrightarrow>
     next_actions nm event \<noteq> [] \<and>
     (\<forall>b \<in> set (next_actions nm event). \<exists>out. walk depth rt am b = Val out)"
  unfolding walk_event_def
  using fold_res_combine_ex [where g = "walk depth rt am" and c = "\<lambda>acc out. Merge out acc"]
  by auto

lemma walk_node_Val_iff:
  assumes "fmlookup am a = Some act" and "GetNext act = Some nm"
  shows "walk (Suc depth) rt am a = Val r \<longleftrightarrow>
     (\<exists>outs. list_all2 (\<lambda>event out. walk_event depth rt am nm event = Val out)
        (range_keys (ordS rt) nm) outs \<and> r = concat outs)"
  unfolding walk_Suc assms option.case
  using fold_res_combine [where g = "walk_event depth rt am nm" and c = "(@)"]
  by (simp add: foldl_append_concat)

lemma walk_node_ex:
  assumes "fair rt" and "fmlookup am a = Some act" and "GetNext act = Some nm"
  shows "(\<exists>r. walk (Suc depth) rt am a = Val r) \<longleftrightarrow>
     (\<forall>event \<in> fmdom' nm. \<exists>r. walk_event depth rt am nm event = Val r)"
  unfolding walk_Suc assms(2,3) option.case
  using fold_res_combine_ex [where g = "walk_event depth rt am nm" and c = "(@)"]
  by (simp add: fairD(1) [OF assms(1)])

section \<open>Terminal combinations are the outcomes\<close>

lemma picks_outcomes:
  assumes "list_all2 (\<lambda>b out. set ` set out = {T. outcome am b T}) bs outs"
  shows "Ts \<in> picks outs \<longleftrightarrow> list_all2 (outcome am) bs Ts"
  using assms
proof (induction bs outs arbitrary: Ts rule: list_all2_induct)
  case (Cons b bs out outs)
  then show ?case by (auto simp: list_all2_Cons1)
qed simp

definition walk_correct :: "(int, Action) fmap \<Rightarrow> int \<Rightarrow> int list list \<Rightarrow> bool" where
  "walk_correct am a ts \<longleftrightarrow> ts \<noteq> [] \<and> set ` set ts = {T. outcome am a T}"

lemma walk_event_sound:
  assumes r: "walk_event depth rt am nm event = Val r"
    and IH: "\<And>b out. walk depth rt am b = Val out \<Longrightarrow> walk_correct am b out"
  shows "r \<noteq> []"
    and "set ` set r = {\<Union> (set Ts) | Ts. list_all2 (outcome am) (next_actions nm event) Ts}"
proof -
  obtain outs where outs: "list_all2 (\<lambda>b out. walk depth rt am b = Val out) (next_actions nm event) outs"
    and ne: "next_actions nm event \<noteq> []" and r': "r = foldl (\<lambda>acc out. Merge out acc) [] outs"
    using r by (auto simp: walk_event_Val_iff)
  have oc: "list_all2 (walk_correct am) (next_actions nm event) outs"
    using outs IH by (rule list_all2_mono)
  then have 1: "outs \<noteq> []" "[] \<notin> set outs"
    using ne list_all2_inD2 [OF oc, of "[]"] by (auto simp: walk_correct_def)
  have 2: "list_all2 (\<lambda>b out. set ` set out = {T. outcome am b T}) (next_actions nm event) outs"
    using oc by (rule list_all2_mono) (simp add: walk_correct_def)
  show "set ` set r = {\<Union> (set Ts) | Ts. list_all2 (outcome am) (next_actions nm event) Ts}"
    unfolding r' sets_merge_fold_Nil [OF 1] picks_outcomes [OF 2] ..
  show "r \<noteq> []"
    using 1 merge_fold_nonempty [of "hd outs" "tl outs"] by (cases outs) (auto simp: r')
qed

lemma outcome_node:
  assumes "fmlookup am a = Some act" and "GetNext act = Some nm"
  shows "outcome am a T \<longleftrightarrow>
    (\<exists>event \<in> fmdom' nm. \<exists>Ts. list_all2 (outcome am) (next_actions nm event) Ts \<and> T = \<Union> (set Ts))"
proof
  assume "outcome am a T"
  then show "\<exists>event \<in> fmdom' nm. \<exists>Ts. list_all2 (outcome am) (next_actions nm event) Ts \<and> T = \<Union> (set Ts)"
    using assms by cases auto
qed (use assms in \<open>blast intro: outcome.branch\<close>)

lemma walk_node_sound:
  assumes "fair rt" and act: "fmlookup am a = Some act" and nm: "GetNext act = Some nm"
    and "nm \<noteq> fmempty" and W: "walk (Suc depth) rt am a = Val ts"
    and IH: "\<And>b out. walk depth rt am b = Val out \<Longrightarrow> walk_correct am b out"
  shows "walk_correct am a ts"
proof -
  let ?W = "\<lambda>event out. walk_event depth rt am nm event = Val out"
  let ?O = "\<lambda>event T. \<exists>Ts. list_all2 (outcome am) (next_actions nm event) Ts \<and> T = \<Union> (set Ts)"
  have p: "perm_fun (ordS rt)" using assms(1) ..
  obtain outs where outs: "list_all2 ?W (range_keys (ordS rt) nm) outs" and ts: "ts = concat outs"
    using W walk_node_Val_iff [OF act nm] by auto
  have 1: "\<exists>out \<in> set outs. ?W event out" if "event \<in> fmdom' nm" for event
    using list_all2_inD1 [OF outs] that p by simp
  have 2: "\<exists>event \<in> fmdom' nm. ?W event out" if "out \<in> set outs" for out
    using list_all2_inD2 [OF outs that] p by simp
  have O: "T \<in> set ` set out \<longleftrightarrow> ?O event T" if "?W event out" for event out T
    using walk_event_sound(2) [OF that IH] by blast
  obtain event where "event \<in> fmdom' nm"
    using assms(4) by (metis fmap_exhaust fmdom'_fmupd insertI1)
  then obtain out where "out \<in> set outs" and "?W event out" using 1 by blast
  then have "ts \<noteq> []" using walk_event_sound(1) [OF _ IH] unfolding ts by fastforce
  moreover have "T \<in> set ` set ts \<longleftrightarrow> outcome am a T" for T
  proof -
    have "T \<in> set ` set ts \<longleftrightarrow> (\<exists>out \<in> set outs. T \<in> set ` set out)" unfolding ts by auto
    also have "\<dots> \<longleftrightarrow> (\<exists>event \<in> fmdom' nm. ?O event T)" using 1 2 O by meson
    finally show ?thesis using outcome_node [OF act nm] by simp
  qed
  ultimately show ?thesis by (auto simp: walk_correct_def)
qed

lemma walk_sound:
  assumes "fair rt" and ne: "no_empty_next am"
  shows "walk depth rt am a = Val ts \<Longrightarrow> walk_correct am a ts"
proof (induction depth arbitrary: a ts)
  case (Suc depth)
  obtain act where act: "fmlookup am a = Some act"
    using Suc.prems by (simp add: walk_Suc split: option.splits)
  show ?case
  proof (cases "GetNext act")
    case None
    then have "ts = [[GetId act]]" using Suc.prems act by (simp add: walk_Suc)
    then show ?thesis using act None by (auto simp: walk_correct_def elim!: outcomeE intro: outcome.leaf)
  next
    case (Some nm)
    moreover have "nm \<noteq> fmempty" using ne act Some by (auto simp: no_empty_next_def)
    ultimately show ?thesis using walk_node_sound [OF assms(1) act] Suc by blast
  qed
qed simp

section \<open>Termination of walk\<close>

lemma walk_next_returns:
  assumes "fair rt" and "(a, b) \<in> edges am" and "walk (Suc depth) rt am a = Val ts"
  shows "\<exists>out. walk depth rt am b = Val out"
proof -
  obtain act nm event where act: "fmlookup am a = Some act" and nm: "GetNext act = Some nm"
    and ev: "event \<in> fmdom' nm" and b: "b \<in> set (next_actions nm event)"
    using assms(2) by (auto simp: edges_def)
  have "\<exists>r. walk_event depth rt am nm event = Val r"
    using walk_node_ex [OF assms(1) act nm, of depth] assms(3) ev by blast
  then show ?thesis using b by (simp only: walk_event_ex)
qed

lemma walk_path_bound:
  assumes "fair rt"
  shows "(a, b) \<in> edges am ^^ n \<Longrightarrow> walk depth rt am a = Val ts \<Longrightarrow> n < depth"
proof (induction n arbitrary: a depth ts)
  case 0
  then show ?case by (cases depth) auto
next
  case (Suc n)
  obtain c where c: "(a, c) \<in> edges am" "(c, b) \<in> edges am ^^ n"
    using Suc.prems(1) by (metis relpow_Suc_D2)
  obtain d where d: "depth = Suc d" using Suc.prems(2) by (cases depth) auto
  then obtain out where "walk d rt am c = Val out"
    using walk_next_returns [OF assms c(1)] Suc.prems(2) by blast
  then show ?case using Suc.IH [OF c(2)] d by simp
qed

lemma walk_cyclic_panics:
  assumes "fair rt" and "(a, b) \<in> (edges am)\<^sup>*" and "(b, b) \<in> (edges am)\<^sup>+"
  shows "\<exists>p. walk depth rt am a = Panic p"
proof (cases "walk depth rt am a")
  case (Val ts)
  obtain m where m: "(a, b) \<in> edges am ^^ m" using assms(2) by (auto simp: rtrancl_power)
  obtain k where k: "0 < k" "(b, b) \<in> edges am ^^ k" using assms(3) by (auto simp: trancl_power)
  have loop: "(b, b) \<in> edges am ^^ (k * j)" for j
  proof (induction j)
    case (Suc j)
    then show ?case using k(2) by (auto simp: relpow_add)
  qed simp
  have "(a, b) \<in> edges am ^^ (m + k * depth)"
    using m loop by (auto simp: relpow_add)
  then have "m + k * depth < depth" using walk_path_bound [OF assms(1)] Val by blast
  with k(1) show ?thesis by (cases k) auto
qed simp

lemma edges_defined: "walkable am \<Longrightarrow> (a, b) \<in> edges am \<Longrightarrow> b \<in> fmdom' am"
  unfolding walkable_def edges_def by blast

lemma reachable_defined:
  assumes "walkable am" and "a \<in> fmdom' am"
  shows "(edges am)\<^sup>* `` {a} \<subseteq> fmdom' am"
proof
  fix b assume "b \<in> (edges am)\<^sup>* `` {a}"
  then have "(a, b) \<in> (edges am)\<^sup>*" by simp
  then show "b \<in> fmdom' am"
    by induction (use assms edges_defined in auto)
qed

text \<open>No cycle of the workflow graph is reachable from an action.\<close>

definition cycle_free :: "(int, Action) fmap \<Rightarrow> int \<Rightarrow> bool" where
  "cycle_free am a \<longleftrightarrow> (\<forall>b. (a, b) \<in> (edges am)\<^sup>* \<longrightarrow> (b, b) \<notin> (edges am)\<^sup>+)"

lemma cycle_free_edge: "cycle_free am a \<Longrightarrow> (a, b) \<in> edges am \<Longrightarrow> cycle_free am b"
  unfolding cycle_free_def by (meson converse_rtrancl_into_rtrancl)

lemma card_reachable_less:
  assumes "walkable am" and "cycle_free am a" and "a \<in> fmdom' am" and "(a, b) \<in> edges am"
  shows "card ((edges am)\<^sup>* `` {b}) < card ((edges am)\<^sup>* `` {a})"
proof (rule psubset_card_mono)
  show "finite ((edges am)\<^sup>* `` {a})"
    using reachable_defined [OF assms(1,3)] finite_fmdom' finite_subset by blast
  have "a \<notin> (edges am)\<^sup>* `` {b}"
    using assms(2,4) by (auto simp: cycle_free_def dest: rtrancl_into_trancl2)
  moreover have "(edges am)\<^sup>* `` {b} \<subseteq> (edges am)\<^sup>* `` {a}"
    using assms(4) by (auto intro: converse_rtrancl_into_rtrancl)
  ultimately show "(edges am)\<^sup>* `` {b} \<subset> (edges am)\<^sup>* `` {a}" by blast
qed

lemma walk_cycle_free_returns:
  assumes "fair rt" and wa: "walkable am"
  shows "a \<in> fmdom' am \<Longrightarrow> cycle_free am a \<Longrightarrow> card ((edges am)\<^sup>* `` {a}) \<le> depth \<Longrightarrow>
    \<exists>ts. walk depth rt am a = Val ts"
proof (induction depth arbitrary: a)
  case 0
  have "finite ((edges am)\<^sup>* `` {a})"
    using reachable_defined [OF wa 0(1)] finite_fmdom' finite_subset by blast
  then show ?case using 0(3) by auto
next
  case (Suc depth)
  obtain act where act: "fmlookup am a = Some act" using Suc.prems(1) by (auto simp: fmlookup_dom'_iff)
  show ?case
  proof (cases "GetNext act")
    case None
    then show ?thesis using act by (simp add: walk_Suc)
  next
    case (Some nm)
    have "\<exists>r. walk_event depth rt am nm event = Val r" if ev: "event \<in> fmdom' nm" for event
    proof -
      have "\<exists>out. walk depth rt am b = Val out" if b: "b \<in> set (next_actions nm event)" for b
      proof -
        have e: "(a, b) \<in> edges am" using act Some ev b by (auto simp: edges_def)
        then show ?thesis
          using Suc.IH [of b] card_reachable_less [OF wa Suc.prems(2,1) e] Suc.prems(2,3)
            edges_defined [OF wa e] cycle_free_edge [OF _ e] by simp
      qed
      moreover have "next_actions nm event \<noteq> []" using wa act Some ev by (auto simp: walkable_def)
      ultimately show ?thesis by (simp add: walk_event_ex)
    qed
    then show ?thesis using walk_node_ex [OF assms(1) act Some] by blast
  qed
qed

lemma walk_returns_iff:
  assumes "fair rt" and "walkable am" and "a \<in> fmdom' am" and "card (fmdom' am) \<le> depth"
  shows "(\<exists>ts. walk depth rt am a = Val ts) \<longleftrightarrow> cycle_free am a"
proof
  assume "\<exists>ts. walk depth rt am a = Val ts"
  then show "cycle_free am a"
    using walk_cyclic_panics [OF assms(1)] unfolding cycle_free_def by (metis res.distinct(1))
next
  assume "cycle_free am a"
  moreover have "card ((edges am)\<^sup>* `` {a}) \<le> depth"
    using card_mono [OF finite_fmdom' reachable_defined [OF assms(2,3)]] assms(4) by linarith
  ultimately show "\<exists>ts. walk depth rt am a = Val ts"
    using walk_cycle_free_returns [OF assms(1-3)] by blast
qed

section \<open>The built actions\<close>

lemma build_action_simps [simp]:
  "GetId (build_action d) = adId d"
  "GetName (build_action d) = adName d"
  "GetType (build_action d) = ToActionType (adType d)"
  "GetNext (build_action d) = Next d"
  "GetInputParams (build_action d) = InputParams d"
  by (simp_all add: build_action_def accessor_defs constructor_defs Let_def)

lemma fmlookup_build_fold:
  "distinct (map adId defs) \<Longrightarrow>
   fmlookup (fold (\<lambda>d am. fmupd (adId d) (build_action d) am) defs am0) i =
     (case find (\<lambda>d. adId d = i) defs of Some d \<Rightarrow> Some (build_action d) | None \<Rightarrow> fmlookup am0 i)"
proof (induction defs arbitrary: am0)
  case (Cons d defs)
  then have "find (\<lambda>d'. adId d' = adId d) defs = None"
    by (simp add: find_None_iff) (metis imageI)
  with Cons show ?case by (auto split: option.splits)
qed simp

lemma build_actions_Some_iff:
  assumes "distinct (map adId defs)"
  shows "fmlookup (build_actions defs) i = Some act \<longleftrightarrow>
    (\<exists>d \<in> set defs. adId d = i \<and> act = build_action d)"
proof (cases "find (\<lambda>d. adId d = i) defs")
  case None
  then have "fmlookup (build_actions defs) i = None"
    using fmlookup_build_fold [OF assms, of fmempty i] by (simp add: build_actions_def)
  moreover have "\<forall>d \<in> set defs. adId d \<noteq> i" using None by (simp add: find_None_iff)
  ultimately show ?thesis by simp
next
  case (Some d)
  then have d: "d \<in> set defs" "adId d = i" by (auto simp: find_Some_iff)
  then have "d' = d" if "d' \<in> set defs" "adId d' = i" for d'
    using assms that by (metis distinct_map inj_onD)
  then have "(\<exists>d' \<in> set defs. adId d' = i \<and> act = build_action d') \<longleftrightarrow> act = build_action d"
    using d by blast
  moreover have "fmlookup (build_actions defs) i = Some (build_action d)"
    using fmlookup_build_fold [OF assms, of fmempty i] Some by (simp add: build_actions_def)
  ultimately show ?thesis by auto
qed

lemma fmdom'_build_actions:
  "distinct (map adId defs) \<Longrightarrow> fmdom' (build_actions defs) = adId ` set defs"
  by (simp add: set_eq_iff fmlookup_dom'_iff build_actions_Some_iff image_iff) blast

section \<open>What validation establishes\<close>

definition next_ok :: "int set \<Rightarrow> ActionDef \<Rightarrow> bool" where
  "next_ok ids d \<longleftrightarrow> (\<forall>nm. Next d = Some nm \<longrightarrow> nm \<noteq> fmempty \<and>
     (\<forall>event \<in> fmdom' nm. \<exists>v. fmlookup nm event = Some (Some v) \<and> set v \<subseteq> ids))"

lemma validate_event_None_iff:
  "(case fmlookup nm event of
      Some (Some v) \<Rightarrow> first_some (\<lambda>act. if act \<in> ids then None else Some (NextNotDefined i act)) v
    | _ \<Rightarrow> Some (NextNotArray i)) = None \<longleftrightarrow>
   (\<exists>v. fmlookup nm event = Some (Some v) \<and> set v \<subseteq> ids)"
  by (cases "fmlookup nm event") (auto simp: first_some_None_iff split: option.splits)

lemma validate_next_None_iff:
  assumes "fair rt"
  shows "validate_next rt ids d = None \<longleftrightarrow> next_ok ids d"
proof (cases "Next d")
  case (Some nm)
  have "set (range_keys (ordS rt) nm) = fmdom' nm" using assms by (simp add: fairD(1))
  with Some show ?thesis
    by (simp add: validate_next_def next_ok_def first_some_None_iff validate_event_None_iff)
qed (simp add: validate_next_def next_ok_def)

lemma validate_defs_Inr_iff:
  assumes "fair rt"
  shows "validate_defs rt ids seen defs = Inr seen' \<longleftrightarrow>
    distinct (map adId defs) \<and> adId ` set defs \<inter> seen = {} \<and> seen' = seen \<union> adId ` set defs \<and>
    (\<forall>d \<in> set defs. next_ok ids d \<and> ValidateActionType (adType d) = None)"
proof (induction defs arbitrary: seen)
  case (Cons d defs)
  then show ?case
    using validate_next_None_iff [OF assms, of ids d]
    by (auto split: option.splits)
qed auto

definition well_formed :: "Workflow \<Rightarrow> bool" where
  "well_formed wfl \<longleftrightarrow>
     ValidateStateHandler (OnFailure wfl) = None \<and> ValidateStateHandler (OnSuccess wfl) = None \<and>
     distinct (map adId (wfActions wfl)) \<and> wfRootAction wfl \<in> adId ` set (wfActions wfl) \<and>
     (\<forall>d \<in> set (wfActions wfl). next_ok (adId ` set (wfActions wfl)) d \<and>
        ValidateActionType (adType d) = None)"

lemma validate_static_None_iff:
  assumes "fair rt"
  shows "validate_static rt wfl = None \<longleftrightarrow> well_formed wfl"
  using validate_defs_Inr_iff [OF assms, of "adId ` set (wfActions wfl)" "{}" "wfActions wfl"]
  by (auto simp: validate_static_def well_formed_def split: option.splits sum.splits)

lemma validate_impls_None:
  "validate_impls ex ms acts w = (None, w') \<Longrightarrow> act \<in> set acts \<Longrightarrow> Validate ex act = None"
  by (induction acts arbitrary: w) (auto split: option.splits if_splits prod.splits sum.splits)

text \<open>A well-formed workflow can be walked when no event has an empty list of next actions,
  the one thing validation does not check.\<close>

definition no_empty_lists :: "Workflow \<Rightarrow> bool" where
  "no_empty_lists wfl \<longleftrightarrow> (\<forall>d \<in> set (wfActions wfl). \<forall>nm. Next d = Some nm \<longrightarrow>
     (\<forall>event \<in> fmdom' nm. fmlookup nm event \<noteq> Some (Some [])))"

lemma well_formed_no_empty_next:
  "well_formed wfl \<Longrightarrow> no_empty_next (build_actions (wfActions wfl))"
  by (auto simp: well_formed_def no_empty_next_def build_actions_Some_iff next_ok_def)

lemma well_formed_walkable:
  assumes "well_formed wfl" and "no_empty_lists wfl"
  shows "walkable (build_actions (wfActions wfl))"
  unfolding walkable_def
proof (intro allI impI)
  fix a act nm
  assume act: "fmlookup (build_actions (wfActions wfl)) a = Some act" and nm: "GetNext act = Some nm"
  have dist: "distinct (map adId (wfActions wfl))" using assms(1) by (simp add: well_formed_def)
  obtain d where d: "d \<in> set (wfActions wfl)" "act = build_action d"
    using act build_actions_Some_iff [OF dist] by auto
  then have "next_ok (adId ` set (wfActions wfl)) d" and "Next d = Some nm"
    using assms(1) nm by (auto simp: well_formed_def)
  then show "nm \<noteq> fmempty \<and> (\<forall>event \<in> fmdom' nm. next_actions nm event \<noteq> [] \<and>
      set (next_actions nm event) \<subseteq> fmdom' (build_actions (wfActions wfl)))"
    using assms(2) d(1) unfolding fmdom'_build_actions [OF dist] next_ok_def no_empty_lists_def
    by (fastforce simp: next_actions_def)
qed

end
