(* ===== verification/State_Machine.thy ===== *)
theory State_Machine
  imports Metadata
begin

text \<open>
  The state machine of one workflow run, the type \<open>FlowStateMachine\<close> of
  \<open>src/shard/flow.go\<close>. Its methods lock the machine's mutex around their body, so each is
  one function on the machine's state. \<open>MoveForward\<close> records the executed action, decides
  whether the run is complete and otherwise schedules the next actions of the event.
\<close>

section \<open>Definitions\<close>

record FlowStateMachine =
  smWorkflow :: string
  smId :: string
  smContext :: FlowContext
  smFlow :: Flow

definition NewFlowStateMachine :: "string \<Rightarrow> string \<Rightarrow> FlowContext \<Rightarrow> Flow \<Rightarrow> FlowStateMachine" where
  "NewFlowStateMachine workflow fid context fl =
     \<lparr>smWorkflow = workflow, smId = fid, smContext = context, smFlow = fl\<rparr>"

definition ValidateAction :: "FlowStateMachine \<Rightarrow> int \<Rightarrow> error option" where
  "ValidateAction fm actionId =
     (if State (smContext fm) = COMPLETED \<or> State (smContext fm) = FAILED
      then Some FlowAlreadyCompleted
      else if fmlookup (ExecutedActions (smContext fm)) actionId \<noteq> None
      then Some (ActionAlreadyExecuted actionId)
      else None)"

definition GetState :: "FlowStateMachine \<Rightarrow> FlowState" where
  "GetState fm = State (smContext fm)"

definition isComplete :: "runtime \<Rightarrow> Flow \<Rightarrow> FlowContext \<Rightarrow> bool" where
  "isComplete rt fl ctx =
     (let executedActions = range_keys (ordI rt) (ExecutedActions ctx)
      in list_ex (\<lambda>terminals. Contains executedActions terminals) (TerminalActions fl))"

definition put_output :: "int \<Rightarrow> anymap option \<Rightarrow> anymap \<Rightarrow> anymap" where
  "put_output actionId dataMap data =
     (case dataMap of
        None \<Rightarrow> data
      | Some m \<Rightarrow> fmupd (Itoa actionId) (VMap (fmupd ''output'' (VMap m) fmempty)) data)"

definition schedule :: "int list \<Rightarrow> (int, int) fmap \<Rightarrow> (int, int) fmap" where
  "schedule ids current = fold (\<lambda>actionId m. fmupd actionId 1 m) ids current"

definition MoveForward ::
  "runtime \<Rightarrow> FlowStateMachine \<Rightarrow> int \<Rightarrow> string \<Rightarrow> anymap option \<Rightarrow>
   ((bool \<times> int list) \<times> FlowStateMachine) res" where
  "MoveForward rt fm actionId event dataMap =
     (case fmlookup (flowActions (smFlow fm)) actionId of
        None \<Rightarrow> Panic NilDeref
      | Some currentAction \<Rightarrow>
          let nextActionMap = GetNext currentAction;
              ctx = (smContext fm)
                \<lparr>ExecutedActions := fmupd actionId True (ExecutedActions (smContext fm)),
                 CurrentActionIds := fmdrop actionId (CurrentActionIds (smContext fm))\<rparr> in
          if isComplete rt (smFlow fm) ctx then
            Val ((True, []), fm\<lparr>smContext := ctx\<lparr>State := COMPLETED,
                   Data := put_output actionId dataMap (Data ctx)\<rparr>\<rparr>)
          else
            let actionIdsToDispatch =
                  (case nextActionMap of None \<Rightarrow> [] | Some nm \<Rightarrow> next_actions nm event) in
            Val ((False, actionIdsToDispatch), fm\<lparr>smContext := ctx
                  \<lparr>CurrentActionIds := schedule actionIdsToDispatch (CurrentActionIds ctx),
                   Data := put_output actionId dataMap (Data ctx)\<rparr>\<rparr>))"

definition ChangeState :: "FlowState \<Rightarrow> FlowStateMachine \<Rightarrow> FlowStateMachine" where
  "ChangeState st fm = fm\<lparr>smContext := (smContext fm)\<lparr>State := st\<rparr>\<rparr>"

definition SaveEvent :: "string \<Rightarrow> FlowStateMachine \<Rightarrow> FlowStateMachine" where
  "SaveEvent event fm = fm\<lparr>smContext := (smContext fm)\<lparr>Event := event\<rparr>\<rparr>"

section \<open>Characterisation\<close>

lemma fmlookup_schedule:
  "fmlookup (schedule ids m) k = (if k \<in> set ids then Some 1 else fmlookup m k)"
  by (induction ids arbitrary: m) (auto simp: schedule_def)

lemma fmdom'_schedule [simp]: "fmdom' (schedule ids m) = set ids \<union> fmdom' m"
  by (auto simp: fmlookup_dom'_iff fmlookup_schedule split: if_splits)

lemma isComplete_iff:
  assumes "fair rt"
  shows "isComplete rt fl ctx \<longleftrightarrow>
    (\<exists>ts \<in> set (TerminalActions fl). set ts \<subseteq> fmdom' (ExecutedActions ctx))"
  using fairD(2) [OF assms] by (auto simp: isComplete_def list_ex_iff Contains_iff)

lemma isComplete_mono:
  assumes "fair rt" and "isComplete rt fl ctx"
    and "fmdom' (ExecutedActions ctx) \<subseteq> fmdom' (ExecutedActions ctx')"
  shows "isComplete rt fl ctx'"
  using assms by (auto simp: isComplete_iff)

lemma ValidateAction_None_iff:
  "ValidateAction fm a = None \<longleftrightarrow>
     \<not> terminal_state (State (smContext fm)) \<and> a \<notin> fmdom' (ExecutedActions (smContext fm))"
  by (auto simp: ValidateAction_def terminal_state_def fmlookup_dom'_iff)

text \<open>What a move does to the machine, in one place.\<close>

definition next_ids :: "Flow \<Rightarrow> int \<Rightarrow> string \<Rightarrow> int list" where
  "next_ids fl a event =
     (case fmlookup (flowActions fl) a of
        None \<Rightarrow> []
      | Some act \<Rightarrow> (case GetNext act of None \<Rightarrow> [] | Some nm \<Rightarrow> next_actions nm event))"

lemma MoveForward_Val:
  assumes "MoveForward rt fm a event dataMap = Val ((cmpl, ids), fm')"
  shows "a \<in> fmdom' (flowActions (smFlow fm))"
    and "smFlow fm' = smFlow fm"
    and "ExecutedActions (smContext fm') = fmupd a True (ExecutedActions (smContext fm))"
    and "cmpl \<longleftrightarrow> isComplete rt (smFlow fm) (smContext fm')"
    and "ids = (if cmpl then [] else next_ids (smFlow fm) a event)"
    and "CurrentActionIds (smContext fm') = schedule ids (fmdrop a (CurrentActionIds (smContext fm)))"
    and "State (smContext fm') = (if cmpl then COMPLETED else State (smContext fm))"
    and "Event (smContext fm') = Event (smContext fm)"
    and "ctxId (smContext fm') = ctxId (smContext fm)"
    and "Data (smContext fm') = put_output a dataMap (Data (smContext fm))"
  using assms
  by (auto simp: MoveForward_def Let_def next_ids_def isComplete_def schedule_def fmdom'I
      split: option.splits if_splits)

lemma MoveForward_returns:
  "a \<in> fmdom' (flowActions (smFlow fm)) \<Longrightarrow> \<exists>r fm'. MoveForward rt fm a event dataMap = Val (r, fm')"
  by (auto simp: MoveForward_def Let_def fmlookup_dom'_iff)

lemma put_output_other: "k \<noteq> Itoa a \<Longrightarrow> fmlookup (put_output a d m) k = fmlookup m k"
  by (simp add: put_output_def split: option.splits)

end
