(* ===== verification/Effects.thy ===== *)
theory Effects
  imports Prelude
begin

text \<open>
  Stateful Go code. A function that reads or changes the state and may panic is a
  state transformer \<open>'s \<Rightarrow> 'a res \<times> 's\<close>: a panic ends the computation but the effects
  before it remain. \<open>bindM\<close> sequences two statements, \<open>forM\<close> is a loop over a slice.
  \<open>triple\<close> is the total Hoare triple used for the frame and refinement proofs: the
  postcondition speaks about normal returns, the last argument about panics.
\<close>

section \<open>Definitions\<close>

type_synonym ('s, 'a) M = "'s \<Rightarrow> 'a res \<times> 's"

definition ret :: "'a \<Rightarrow> ('s, 'a) M" where
  "ret a = (\<lambda>s. (Val a, s))"

definition bindM :: "('s, 'a) M \<Rightarrow> ('a \<Rightarrow> ('s, 'b) M) \<Rightarrow> ('s, 'b) M" where
  "bindM m f = (\<lambda>s. case m s of (Val a, s') \<Rightarrow> f a s' | (Panic p, s') \<Rightarrow> (Panic p, s'))"

definition liftR :: "'a res \<Rightarrow> ('s, 'a) M" where
  "liftR r = (\<lambda>s. (r, s))"

primrec forM :: "'x list \<Rightarrow> ('x \<Rightarrow> ('s, unit) M) \<Rightarrow> ('s, unit) M" where
  "forM [] f = ret ()"
| "forM (x # xs) f = bindM (f x) (\<lambda>_. forM xs f)"

definition triple ::
  "('s \<Rightarrow> bool) \<Rightarrow> ('s, 'a) M \<Rightarrow> ('a \<Rightarrow> 's \<Rightarrow> bool) \<Rightarrow> ('s \<Rightarrow> bool) \<Rightarrow> bool" where
  "triple P m Q E \<longleftrightarrow>
     (\<forall>s. P s \<longrightarrow> (case m s of (Val a, s') \<Rightarrow> Q a s' | (Panic p, s') \<Rightarrow> E s'))"

text \<open>A relation between the states before and after that holds whatever the outcome.\<close>

definition keeps :: "('s \<Rightarrow> 's \<Rightarrow> bool) \<Rightarrow> ('s, 'a) M \<Rightarrow> bool" where
  "keeps R m \<longleftrightarrow> (\<forall>s. R s (snd (m s)))"

section \<open>Evaluation\<close>

named_theorems run_simps \<open>unfolding of stateful code\<close>

lemma run_ret [run_simps]: "ret a s = (Val a, s)"
  by (simp add: ret_def)

lemma run_liftR [run_simps]: "liftR r s = (r, s)"
  by (simp add: liftR_def)

lemma run_bindM [run_simps]:
  "bindM m f s = (case m s of (Val a, s') \<Rightarrow> f a s' | (Panic p, s') \<Rightarrow> (Panic p, s'))"
  by (simp add: bindM_def)

lemma bindM_assoc: "bindM (bindM m f) g = bindM m (\<lambda>a. bindM (f a) g)"
  by (auto simp: bindM_def fun_eq_iff split: prod.splits res.splits)

lemma bindM_ret [simp]: "bindM (ret a) f = f a" "bindM m ret = m"
  by (auto simp: bindM_def ret_def fun_eq_iff split: prod.splits res.splits)

lemma bindM_liftR: "bindM (liftR (Val a)) f = f a" "bindM (liftR (Panic p)) f = liftR (Panic p)"
  by (simp_all add: fun_eq_iff bindM_def liftR_def)

lemma forM_append: "forM (xs @ ys) f = bindM (forM xs f) (\<lambda>_. forM ys f)"
  by (induction xs) (simp_all add: bindM_assoc)

section \<open>Rules for triples\<close>

lemma tripleD:
  "triple P m Q E \<Longrightarrow> P s \<Longrightarrow> m s = (r, s') \<Longrightarrow> case r of Val a \<Rightarrow> Q a s' | Panic p \<Rightarrow> E s'"
  by (fastforce simp: triple_def)

lemma triple_ret [intro]: "(\<And>s. P s \<Longrightarrow> Q a s) \<Longrightarrow> triple P (ret a) Q E"
  by (simp add: triple_def ret_def)

lemma triple_liftR:
  "(\<And>s a. P s \<Longrightarrow> r = Val a \<Longrightarrow> Q a s) \<Longrightarrow> (\<And>s p. P s \<Longrightarrow> r = Panic p \<Longrightarrow> E s) \<Longrightarrow>
   triple P (liftR r) Q E"
  by (cases r) (auto simp: triple_def liftR_def)

lemma triple_bind:
  "triple P m R E \<Longrightarrow> (\<And>a. triple (R a) (f a) Q E) \<Longrightarrow> triple P (bindM m f) Q E"
  by (fastforce simp: triple_def bindM_def split: prod.splits res.splits)

lemma triple_bind_liftR:
  assumes "\<And>a. r = Val a \<Longrightarrow> triple P (f a) Q E" and "\<And>s. P s \<Longrightarrow> E s"
  shows "triple P (bindM (liftR r) f) Q E"
  using assms by (cases r) (auto simp: triple_def bindM_def liftR_def)

lemma triple_conseq:
  "triple P' m Q' E' \<Longrightarrow> (\<And>s. P s \<Longrightarrow> P' s) \<Longrightarrow> (\<And>a s. Q' a s \<Longrightarrow> Q a s) \<Longrightarrow> (\<And>s. E' s \<Longrightarrow> E s) \<Longrightarrow>
   triple P m Q E"
  by (fastforce simp: triple_def split: prod.splits res.splits)

text \<open>Branches of the code, and facts of the precondition that do not depend on the state.\<close>

lemma triple_sum:
  "(\<And>e. r = Inl e \<Longrightarrow> triple P (f e) Q E) \<Longrightarrow> (\<And>x. r = Inr x \<Longrightarrow> triple P (g x) Q E) \<Longrightarrow>
   triple P (case r of Inl e \<Rightarrow> f e | Inr x \<Rightarrow> g x) Q E"
  by (cases r) auto

lemma triple_option:
  "(r = None \<Longrightarrow> triple P f Q E) \<Longrightarrow> (\<And>x. r = Some x \<Longrightarrow> triple P (g x) Q E) \<Longrightarrow>
   triple P (case r of None \<Rightarrow> f | Some x \<Rightarrow> g x) Q E"
  by (cases r) auto

lemma triple_if:
  "(b \<Longrightarrow> triple P f Q E) \<Longrightarrow> (\<not> b \<Longrightarrow> triple P g Q E) \<Longrightarrow> triple P (if b then f else g) Q E"
  by simp

lemma triple_let: "triple P (f x) Q E \<Longrightarrow> triple P (let y = x in f y) Q E"
  by simp

lemma triple_pure: "(A \<Longrightarrow> triple P m Q E) \<Longrightarrow> triple (\<lambda>s. P s \<and> A) m Q E"
  by (auto simp: triple_def)

lemma triple_pre: "triple P' m Q E \<Longrightarrow> (\<And>s. P s \<Longrightarrow> P' s) \<Longrightarrow> triple P m Q E"
  by (erule triple_conseq)

lemmas triple_split = triple_sum triple_option triple_if triple_let

lemma triple_forM:
  "(\<And>x. x \<in> set xs \<Longrightarrow> triple I (f x) (\<lambda>_. I) E) \<Longrightarrow> triple I (forM xs f) (\<lambda>_. I) E"
  by (induction xs) (auto intro: triple_bind)

lemma keeps_triple:
  "(\<And>s0. triple (\<lambda>s. s = s0) m (\<lambda>_. R s0) (R s0)) \<Longrightarrow> keeps R m"
  unfolding triple_def keeps_def
proof
  fix s
  assume *: "\<And>s0. \<forall>s. s = s0 \<longrightarrow> (case m s of (Val a, s') \<Rightarrow> R s0 s' | (Panic p, s') \<Rightarrow> R s0 s')"
  obtain r s' where "m s = (r, s')" by fastforce
  then show "R s (snd (m s))" using * [of s] by (cases r) auto
qed

lemma triple_keeps: "keeps R m \<Longrightarrow> (\<And>s s'. P s \<Longrightarrow> R s s' \<Longrightarrow> Q s') \<Longrightarrow> triple P m (\<lambda>_. Q) Q"
  unfolding triple_def keeps_def by (auto split: prod.splits res.splits) (metis snd_conv)+

section \<open>Rules for relations\<close>

lemma keeps_ret: "reflp R \<Longrightarrow> keeps R (ret a)"
  by (simp add: keeps_def ret_def reflpD)

lemma keeps_liftR: "reflp R \<Longrightarrow> keeps R (liftR r)"
  by (simp add: keeps_def liftR_def reflpD)

lemma keeps_bind:
  assumes "transp R" and "keeps R m" and "\<And>a. keeps R (f a)"
  shows "keeps R (bindM m f)"
  unfolding keeps_def
proof
  fix s
  obtain r s' where ms: "m s = (r, s')" by fastforce
  then have 1: "R s s'" using assms(2) by (metis keeps_def snd_conv)
  show "R s (snd (bindM m f s))"
  proof (cases r)
    case (Val a)
    then have "R s' (snd (f a s'))" using assms(3) by (simp add: keeps_def)
    with 1 ms Val show ?thesis using assms(1) by (auto simp: bindM_def dest: transpD)
  qed (use 1 ms in \<open>simp add: bindM_def\<close>)
qed

lemma keeps_forM:
  "transp R \<Longrightarrow> reflp R \<Longrightarrow> (\<And>x. x \<in> set xs \<Longrightarrow> keeps R (f x)) \<Longrightarrow> keeps R (forM xs f)"
  by (induction xs) (auto intro: keeps_bind keeps_ret)

text \<open>Branches of the code.\<close>

lemma keeps_sum:
  "(\<And>e. keeps R (f e)) \<Longrightarrow> (\<And>x. keeps R (g x)) \<Longrightarrow> keeps R (case r of Inl e \<Rightarrow> f e | Inr x \<Rightarrow> g x)"
  by (cases r) auto

lemma keeps_option:
  "keeps R f \<Longrightarrow> (\<And>x. keeps R (g x)) \<Longrightarrow> keeps R (case r of None \<Rightarrow> f | Some x \<Rightarrow> g x)"
  by (cases r) auto

lemma keeps_if: "keeps R f \<Longrightarrow> keeps R g \<Longrightarrow> keeps R (if b then f else g)"
  by simp

lemma keeps_let: "keeps R (f x) \<Longrightarrow> keeps R (let y = x in f y)"
  by simp

lemma keeps_prod: "(\<And>a b. keeps R (f a b)) \<Longrightarrow> keeps R (case p of (a, b) \<Rightarrow> f a b)"
  by (cases p) simp

lemma keeps_prod_arg: "(\<And>a b. keeps R (f a b c)) \<Longrightarrow> keeps R ((case p of (a, b) \<Rightarrow> f a b) c)"
  by (cases p) simp

lemmas keeps_split = keeps_sum keeps_option keeps_if keeps_let keeps_prod keeps_prod_arg

lemma triple_keeps_conj:
  assumes "triple P m Q E" and "keeps R m" and "\<And>s s'. R s s' \<Longrightarrow> K s \<Longrightarrow> K s'"
  shows "triple (\<lambda>s. P s \<and> K s) m (\<lambda>a s. Q a s \<and> K s) E"
  unfolding triple_def
proof (intro allI impI)
  fix s assume s: "P s \<and> K s"
  obtain r s' where ms: "m s = (r, s')" by fastforce
  then have "K s'" using assms(2,3) s by (metis keeps_def snd_conv)
  moreover have "case r of Val a \<Rightarrow> Q a s' | Panic p \<Rightarrow> E s'"
    using assms(1) s ms by (auto simp: triple_def)
  ultimately show "case m s of (Val a, s') \<Rightarrow> Q a s' \<and> K s' | (Panic p, s') \<Rightarrow> E s'"
    using ms by (simp split: res.splits)
qed

end
