(* ===== verification/Container.thy ===== *)
theory Container
  imports State_Machine Effects Storage_Spec
begin

text \<open>
  The state of a shard's engine and its small helpers: the \<open>FlowStateMachineContainer\<close> of
  \<open>src/shard/flow.go\<close>, the state handlers of \<open>src/shard/state_change_handlers.go\<close> and the
  analytics collector of \<open>src/analytics\<close>. The container keeps pointers to state machines;
  the model stores the machine again wherever the source changes it through such a pointer.
  \<open>Get\<close> replaces a cached machine's context by the stored one, so only the compiled flow is
  ever reused from the cache.
\<close>

section \<open>State\<close>

datatype analytics_event =
    ActionSuccess string string string int "anymap option"
  | ActionFailure string string string int string

text \<open>\<open>collector\<close> is the package variable of the analytics package: \<open>None\<close> is the nil
  interface it holds when no collector was configured.\<close>

record 'w shard_state =
  world :: 'w
  stateMachines :: "(string, FlowStateMachine) fmap"
  collector :: "analytics_event list option"

text \<open>The fields of \<open>FlowEngine\<close> (and of the container, which shares them), with the run-time
  and the external libraries.\<close>

record 'w FlowEngine =
  engStorage :: "'w Storage"
  engMetadata :: "'w MetadataStorage"
  engRuntime :: runtime
  engExternals :: externals

definition onWorld :: "('w \<Rightarrow> 'a \<times> 'w) \<Rightarrow> ('w shard_state, 'a) M" where
  "onWorld f = (\<lambda>s. case f (world s) of (a, w) \<Rightarrow> (Val a, s\<lparr>world := w\<rparr>))"

definition onWorldR :: "('w \<Rightarrow> 'a res \<times> 'w) \<Rightarrow> ('w shard_state, 'a) M" where
  "onWorldR f = (\<lambda>s. case f (world s) of (r, w) \<Rightarrow> (r, s\<lparr>world := w\<rparr>))"

section \<open>Analytics\<close>

definition record_event :: "analytics_event \<Rightarrow> ('w shard_state, unit) M" where
  "record_event ev = (\<lambda>s. case collector s of
     None \<Rightarrow> (Panic NilDeref, s)
   | Some evs \<Rightarrow> (Val (), s\<lparr>collector := Some (evs @ [ev])\<rparr>))"

definition RecordActionSuccess ::
  "string \<Rightarrow> string \<Rightarrow> string \<Rightarrow> int \<Rightarrow> anymap option \<Rightarrow> ('w shard_state, unit) M" where
  "RecordActionSuccess wn fid actionName actionId data =
     record_event (ActionSuccess wn fid actionName actionId data)"

definition RecordActionFailure ::
  "string \<Rightarrow> string \<Rightarrow> string \<Rightarrow> int \<Rightarrow> string \<Rightarrow> ('w shard_state, unit) M" where
  "RecordActionFailure wn fid actionName actionId reason =
     record_event (ActionFailure wn fid actionName actionId reason)"

section \<open>The container\<close>

definition machine_key :: "string \<Rightarrow> string \<Rightarrow> string" where
  "machine_key wn fid = wn @ '':'' @ fid"

definition container_Store :: "string \<Rightarrow> string \<Rightarrow> FlowStateMachine \<Rightarrow> ('w shard_state, unit) M" where
  "container_Store wn fid m =
     (\<lambda>s. (Val (), s\<lparr>stateMachines := fmupd (machine_key wn fid) m (stateMachines s)\<rparr>))"

definition container_Delete :: "string \<Rightarrow> string \<Rightarrow> ('w shard_state, unit) M" where
  "container_Delete wn fid =
     (\<lambda>s. (Val (), s\<lparr>stateMachines := fmdrop (machine_key wn fid) (stateMachines s)\<rparr>))"

definition container_lookup :: "string \<Rightarrow> string \<Rightarrow> ('w shard_state, FlowStateMachine option) M" where
  "container_lookup wn fid = (\<lambda>s. (Val (fmlookup (stateMachines s) (machine_key wn fid)), s))"

definition initial_context :: "string \<Rightarrow> int \<Rightarrow> anymap option \<Rightarrow> FlowContext" where
  "initial_context fid rootAction input =
     \<lparr>ctxId = fid, CurrentActionIds = fmupd rootAction 1 fmempty,
      Data = fmupd ''input'' (case input of None \<Rightarrow> VNil | Some m \<Rightarrow> VMap m) fmempty,
      State = RUNNING, Event = '''', ExecutedActions = fmempty\<rparr>"

definition container_Init ::
  "'w FlowEngine \<Rightarrow> string \<Rightarrow> string \<Rightarrow> anymap option \<Rightarrow>
   ('w shard_state, error + FlowStateMachine) M" where
  "container_Init F wn fid input =
     bindM (onWorldR (GetFlow (engRuntime F) (engMetadata F) wn fid)) (\<lambda>r. case r of
       Inl e \<Rightarrow> ret (Inl e)
     | Inr fl \<Rightarrow>
         let sm = NewFlowStateMachine wn fid (initial_context fid (RootAction fl) input) fl in
         bindM (container_Store wn fid sm) (\<lambda>_. ret (Inr sm)))"

definition container_Get ::
  "'w FlowEngine \<Rightarrow> string \<Rightarrow> string \<Rightarrow> ('w shard_state, error + FlowStateMachine) M" where
  "container_Get F wn fid =
     bindM (container_lookup wn fid) (\<lambda>cached.
     bindM (onWorld (st_GetFlowContext (engStorage F) wn fid)) (\<lambda>r. case r of
       Inl _ \<Rightarrow> ret (Inl FlowAlreadyCompleted)
     | Inr flowCtx \<Rightarrow>
       (case cached of
          None \<Rightarrow>
            bindM (onWorldR (GetFlow (engRuntime F) (engMetadata F) wn fid)) (\<lambda>g. case g of
              Inl e \<Rightarrow> ret (Inl e)
            | Inr fl \<Rightarrow>
                let sm = NewFlowStateMachine wn fid flowCtx fl in
                bindM (container_Store wn fid sm) (\<lambda>_. ret (Inr sm)))
        | Some sm \<Rightarrow>
            let sm' = sm\<lparr>smContext := flowCtx\<rparr> in
            bindM (container_Store wn fid sm') (\<lambda>_. ret (Inr sm')))))"

section \<open>State handlers\<close>

text \<open>\<open>GetHandler\<close> followed by the call of the handler: the map of handlers has exactly the
  keys \<open>DELETE\<close> and \<open>NOOP\<close>, and any other key falls back to \<open>noop\<close>.\<close>

definition run_handler ::
  "'w Storage \<Rightarrow> Statehandler \<Rightarrow> string \<Rightarrow> string \<Rightarrow> 'w \<Rightarrow> error option \<times> 'w" where
  "run_handler S st wn fid =
     (if st = DELETE then st_DeleteFlowContext S wn fid else (\<lambda>w. (None, w)))"

section \<open>Evaluation rules\<close>

lemma onWorld_run: "onWorld f s = (Val (fst (f (world s))), s\<lparr>world := snd (f (world s))\<rparr>)"
  by (simp add: onWorld_def split_beta)

lemma onWorldR_run: "onWorldR f s = (fst (f (world s)), s\<lparr>world := snd (f (world s))\<rparr>)"
  by (simp add: onWorldR_def split_beta)

lemmas container_defs [run_simps] = onWorld_def onWorldR_def record_event_def
  RecordActionSuccess_def RecordActionFailure_def container_Store_def container_Delete_def
  container_lookup_def

end
