(* ===== verification/Engine.thy ===== *)
theory Engine
  imports Container
begin

text \<open>
  The flow engine, \<open>src/shard/engine.go\<close>, one definition per method of \<open>FlowEngine\<close> in the
  order of the file where Isabelle's definition before use allows it. A method that only logs
  an error ignores it here too. Logging is not modelled.
\<close>

section \<open>Dispatch\<close>

definition model_type :: "actionType \<Rightarrow> ActionType" where
  "model_type ty = (if ty = SYSTEM then ACTION_TYPE_SYSTEM else ACTION_TYPE_USER)"

fun build_requests :: "Flow \<Rightarrow> int list \<Rightarrow> ActionExecutionRequest list res" where
  "build_requests fl [] = Val []"
| "build_requests fl (actionId # ids) =
     (case fmlookup (flowActions fl) actionId of
        None \<Rightarrow> Panic NilDeref
      | Some currentAction \<Rightarrow>
          bind_res (build_requests fl ids) (\<lambda>actions.
            Val (\<lparr>aeWorkflowName = '''', aeFlowId = '''', aeActionId = actionId,
                  aeActionName = GetName currentAction,
                  aeActionType = model_type (GetType currentAction)\<rparr> # actions)))"

definition saveContextAndDispatchAction ::
  "'w FlowEngine \<Rightarrow> string \<Rightarrow> string \<Rightarrow> int list \<Rightarrow> Flow \<Rightarrow> FlowContext \<Rightarrow>
   ('w shard_state, error option) M" where
  "saveContextAndDispatchAction F wn fid actionIds fl flowCtx =
     bindM (liftR (build_requests fl actionIds)) (\<lambda>actions.
       onWorld (st_SaveFlowContextAndDispatchAction (engStorage F) wn fid flowCtx actions))"

section \<open>State changes\<close>

definition changeStateWithEvent ::
  "'w FlowEngine \<Rightarrow> string \<Rightarrow> string \<Rightarrow> FlowState \<Rightarrow> string \<Rightarrow> ('w shard_state, unit) M" where
  "changeStateWithEvent F wn fid st event =
     bindM (container_Get F wn fid) (\<lambda>r. case r of
       Inl _ \<Rightarrow> ret ()
     | Inr sm \<Rightarrow>
         let sm1 = ChangeState st sm;
             sm2 = (if length event \<noteq> 0 then SaveEvent event sm1 else sm1) in
         bindM (container_Store wn fid sm2) (\<lambda>_.
         bindM (onWorld (st_SaveFlowContext (engStorage F) wn fid (smContext sm2))) (\<lambda>_.
         bindM (if st \<noteq> RUNNING then container_Delete wn fid else ret ()) (\<lambda>_.
         if st = FAILED then
           bindM (onWorld (run_handler (engStorage F) (FailureHandler (smFlow sm2)) wn fid)) (\<lambda>_. ret ())
         else if st = COMPLETED then
           bindM (onWorld (run_handler (engStorage F) (SuccessHandler (smFlow sm2)) wn fid)) (\<lambda>_. ret ())
         else ret ()))))"

definition changeState ::
  "'w FlowEngine \<Rightarrow> string \<Rightarrow> string \<Rightarrow> FlowState \<Rightarrow> ('w shard_state, unit) M" where
  "changeState F wn fid st = changeStateWithEvent F wn fid st ''''"

definition MarkComplete :: "'w FlowEngine \<Rightarrow> string \<Rightarrow> string \<Rightarrow> Statehandler \<Rightarrow> ('w shard_state, unit) M" where
  "MarkComplete F wn fid successhandler = changeState F wn fid COMPLETED"

definition MarkFailed :: "'w FlowEngine \<Rightarrow> string \<Rightarrow> string \<Rightarrow> ('w shard_state, unit) M" where
  "MarkFailed F wn fid = changeState F wn fid FAILED"

definition MarkPaused :: "'w FlowEngine \<Rightarrow> string \<Rightarrow> string \<Rightarrow> ('w shard_state, unit) M" where
  "MarkPaused F wn fid = changeState F wn fid PAUSED"

definition MarkWaitingDelay :: "'w FlowEngine \<Rightarrow> string \<Rightarrow> string \<Rightarrow> ('w shard_state, unit) M" where
  "MarkWaitingDelay F wn fid = changeState F wn fid WAITING_DELAY"

definition MarkWaitingEvent ::
  "'w FlowEngine \<Rightarrow> string \<Rightarrow> string \<Rightarrow> string \<Rightarrow> ('w shard_state, unit) M" where
  "MarkWaitingEvent F wn fid event = changeStateWithEvent F wn fid WAITING_EVENT event"

definition MarkRunning :: "'w FlowEngine \<Rightarrow> string \<Rightarrow> string \<Rightarrow> ('w shard_state, unit) M" where
  "MarkRunning F wn fid = changeState F wn fid RUNNING"

section \<open>Starting and advancing a flow\<close>

definition engine_GetFlow ::
  "'w FlowEngine \<Rightarrow> string \<Rightarrow> string \<Rightarrow> ('w shard_state, error + FlowContext) M" where
  "engine_GetFlow F wn fid = onWorld (st_GetFlowContext (engStorage F) wn fid)"

text \<open>The result of \<open>saveContextAndDispatchAction\<close> is not assigned to \<open>err\<close> in the source, so
  the check after it always passes.\<close>

definition Init ::
  "'w FlowEngine \<Rightarrow> string \<Rightarrow> string \<Rightarrow> anymap option \<Rightarrow> ('w shard_state, error option) M" where
  "Init F wn fid input =
     bindM (container_Init F wn fid input) (\<lambda>r. case r of
       Inl e \<Rightarrow> ret (Some e)
     | Inr sm \<Rightarrow>
         bindM (saveContextAndDispatchAction F wn fid [RootAction (smFlow sm)] (smFlow sm) (smContext sm))
           (\<lambda>_. ret None))"

definition execute ::
  "'w FlowEngine \<Rightarrow> string \<Rightarrow> string \<Rightarrow> int \<Rightarrow> string \<Rightarrow> anymap option \<Rightarrow> bool \<Rightarrow>
   ('w shard_state, unit) M" where
  "execute F wn fid actionId event dataMap resume =
     bindM (container_Get F wn fid) (\<lambda>r. case r of
       Inl _ \<Rightarrow> ret ()
     | Inr sm \<Rightarrow>
       (case ValidateAction sm actionId of
          Some _ \<Rightarrow> ret ()
        | None \<Rightarrow>
            if \<not> resume \<and> GetState sm = PAUSED then ret ()
            else
              bindM (liftR (MoveForward (engRuntime F) sm actionId event dataMap))
                (\<lambda>((completed, actionIdsToDispatch), sm1).
              bindM (container_Store wn fid sm1) (\<lambda>_.
              if completed then
                bindM (onWorld (st_SaveFlowContext (engStorage F) wn fid (smContext sm1))) (\<lambda>_.
                MarkComplete F wn fid (SuccessHandler (smFlow sm1)))
              else
                let sm2 = sm1\<lparr>smContext := (smContext sm1)\<lparr>State := RUNNING\<rparr>\<rparr> in
                bindM (container_Store wn fid sm2) (\<lambda>_.
                bindM (saveContextAndDispatchAction F wn fid actionIdsToDispatch (smFlow sm2) (smContext sm2))
                  (\<lambda>_. ret ()))))))"

definition ExecuteAction ::
  "'w FlowEngine \<Rightarrow> string \<Rightarrow> string \<Rightarrow> string \<Rightarrow> int \<Rightarrow> anymap option \<Rightarrow> ('w shard_state, unit) M" where
  "ExecuteAction F wn fid event actionId data = execute F wn fid actionId event data False"

definition ExecuteActionResume ::
  "'w FlowEngine \<Rightarrow> string \<Rightarrow> string \<Rightarrow> string \<Rightarrow> int \<Rightarrow> anymap option \<Rightarrow> ('w shard_state, unit) M" where
  "ExecuteActionResume F wn fid event actionId data = execute F wn fid actionId event data True"

section \<open>Delays and system actions\<close>

definition DelayFlowAction ::
  "'w FlowEngine \<Rightarrow> string \<Rightarrow> string \<Rightarrow> string \<Rightarrow> int \<Rightarrow> int \<Rightarrow> ('w shard_state, unit) M" where
  "DelayFlowAction F wn fid actionName actionId delay =
     bindM (container_Get F wn fid) (\<lambda>r. case r of
       Inl _ \<Rightarrow> ret ()
     | Inr sm \<Rightarrow>
       (case ValidateAction sm actionId of
          Some _ \<Rightarrow> ret ()
        | None \<Rightarrow>
            bindM (onWorld (st_Delay (engStorage F) wn fid actionName actionId delay)) (\<lambda>_. ret ())))"

definition as_duration :: "any option \<Rightarrow> int res" where
  "as_duration v = (case v of Some (VDuration d) \<Rightarrow> Val d | _ \<Rightarrow> Panic TypeAssertion)"

definition as_string :: "any option \<Rightarrow> string res" where
  "as_string v = (case v of Some (VString s) \<Rightarrow> Val s | _ \<Rightarrow> Panic TypeAssertion)"

definition run_system_action ::
  "'w FlowEngine \<Rightarrow> string \<Rightarrow> string \<Rightarrow> int \<Rightarrow> Action \<Rightarrow> string \<Rightarrow> anymap option \<Rightarrow>
   ('w shard_state, unit) M" where
  "run_system_action F wn fid actionId currentAction event dataMap =
     (if GetName currentAction = ''delay'' then
        bindM (MarkWaitingDelay F wn fid) (\<lambda>_.
        bindM (liftR (as_duration (fmlookup (GetParams currentAction) ''delay''))) (\<lambda>delay.
        DelayFlowAction F wn fid (GetName currentAction) (GetId currentAction) delay))
      else if GetName currentAction = ''wait'' then
        bindM (liftR (as_duration (fmlookup (GetParams currentAction) ''timeout''))) (\<lambda>timeout.
        bindM (liftR (as_string (fmlookup (GetParams currentAction) ''event''))) (\<lambda>ev.
        bindM (if timeout \<noteq> 0
               then DelayFlowAction F wn fid (GetName currentAction) (GetId currentAction) timeout
               else ret ()) (\<lambda>_.
        MarkWaitingEvent F wn fid ev)))
      else ExecuteAction F wn fid event actionId dataMap)"

definition ExecuteSystemAction ::
  "'w FlowEngine \<Rightarrow> string \<Rightarrow> string \<Rightarrow> int \<Rightarrow> ('w shard_state, unit) M" where
  "ExecuteSystemAction F wn fid actionId =
     bindM (container_Get F wn fid) (\<lambda>r. case r of
       Inl _ \<Rightarrow> ret ()
     | Inr sm \<Rightarrow>
       (case ValidateAction sm actionId of
          Some _ \<Rightarrow> ret ()
        | None \<Rightarrow>
          (case fmlookup (flowActions (smFlow sm)) actionId of
             None \<Rightarrow> liftR (Panic NilDeref)
           | Some currentAction \<Rightarrow>
               bindM (liftR (Execute (engExternals F) currentAction (smContext sm))) (\<lambda>res. case res of
                 Inl _ \<Rightarrow>
                   bindM (RecordActionFailure wn fid (GetName currentAction) actionId ''action failed'')
                     (\<lambda>_. MarkFailed F wn fid)
               | Inr (event, dataMap) \<Rightarrow>
                   if GetType currentAction = SYSTEM then
                     bindM (run_system_action F wn fid actionId currentAction event dataMap) (\<lambda>_.
                     RecordActionSuccess wn fid (GetName currentAction) actionId dataMap)
                   else ret ()))))"

section \<open>Retries\<close>

definition retry_delay :: "ActionDefinition \<Rightarrow> int \<Rightarrow> int" where
  "retry_delay def tryCount =
     (if dfRetryPolicy def = RETRY_POLICY_FIXED then seconds (RetryAfterSeconds def)
      else if dfRetryPolicy def = RETRY_POLICY_BACKOFF
      then seconds (i64 (RetryAfterSeconds def * i64 (tryCount + 1)))
      else 0)"

definition try_count :: "FlowContext \<Rightarrow> int \<Rightarrow> int" where
  "try_count ctx actionId = (case fmlookup (CurrentActionIds ctx) actionId of None \<Rightarrow> 0 | Some n \<Rightarrow> n)"

text \<open>The common beginning of the two retry methods: get the machine, validate the action and
  fetch its definition.\<close>

definition with_definition ::
  "'w FlowEngine \<Rightarrow> string \<Rightarrow> string \<Rightarrow> int \<Rightarrow>
   (FlowStateMachine \<Rightarrow> ActionDefinition \<Rightarrow> ('w shard_state, unit) M) \<Rightarrow> ('w shard_state, unit) M" where
  "with_definition F wn fid actionId body =
     bindM (container_Get F wn fid) (\<lambda>r. case r of
       Inl _ \<Rightarrow> ret ()
     | Inr sm \<Rightarrow>
       (case ValidateAction sm actionId of
          Some _ \<Rightarrow> ret ()
        | None \<Rightarrow>
          (case fmlookup (flowActions (smFlow sm)) actionId of
             None \<Rightarrow> liftR (Panic NilDeref)
           | Some act \<Rightarrow>
               bindM (onWorld (ms_GetActionDefinition (engMetadata F) (GetName act))) (\<lambda>d. case d of
                 Inl _ \<Rightarrow> ret ()
               | Inr def \<Rightarrow> body sm def))))"

definition RetryFailedAction ::
  "'w FlowEngine \<Rightarrow> string \<Rightarrow> string \<Rightarrow> string \<Rightarrow> int \<Rightarrow> ('w shard_state, unit) M" where
  "RetryFailedAction F wn fid actionName actionId =
     with_definition F wn fid actionId (\<lambda>sm def.
       let tryCount = try_count (smContext sm) actionId in
       if tryCount < RetryCount def then
         bindM (onWorld (st_Retry (engStorage F) wn fid actionName actionId (retry_delay def tryCount)))
           (\<lambda>_. ret ())
       else MarkFailed F wn fid)"

definition RetryTimedoutAction ::
  "'w FlowEngine \<Rightarrow> string \<Rightarrow> string \<Rightarrow> string \<Rightarrow> int \<Rightarrow> ('w shard_state, unit) M" where
  "RetryTimedoutAction F wn fid actionName actionId =
     with_definition F wn fid actionId (\<lambda>sm def.
       if try_count (smContext sm) actionId < RetryCount def then
         bindM (onWorld (st_Retry (engStorage F) wn fid actionName actionId (seconds 1))) (\<lambda>_. ret ())
       else
         bindM (RecordActionFailure wn fid actionName actionId ''action timedout'') (\<lambda>_.
         MarkFailed F wn fid))"

definition ExecuteDelay :: "'w FlowEngine \<Rightarrow> string \<Rightarrow> string \<Rightarrow> int \<Rightarrow> ('w shard_state, unit) M" where
  "ExecuteDelay F wn fid actionId = ExecuteAction F wn fid ''default'' actionId None"

definition bump_try :: "int \<Rightarrow> FlowContext \<Rightarrow> FlowContext" where
  "bump_try actionId ctx =
     ctx\<lparr>CurrentActionIds := fmupd actionId (i64 (try_count ctx actionId + 1)) (CurrentActionIds ctx)\<rparr>"

definition ExecuteRetry :: "'w FlowEngine \<Rightarrow> string \<Rightarrow> string \<Rightarrow> int \<Rightarrow> ('w shard_state, unit) M" where
  "ExecuteRetry F wn fid actionId =
     bindM (container_Get F wn fid) (\<lambda>r. case r of
       Inl _ \<Rightarrow> ret ()
     | Inr sm \<Rightarrow>
       (case ValidateAction sm actionId of
          Some _ \<Rightarrow> ret ()
        | None \<Rightarrow>
            let sm1 = sm\<lparr>smContext := bump_try actionId (smContext sm)\<rparr> in
            bindM (container_Store wn fid sm1) (\<lambda>_.
            bindM (saveContextAndDispatchAction F wn fid [actionId] (smFlow sm1) (smContext sm1))
              (\<lambda>_. ret ()))))"

section \<open>Resuming\<close>

definition ExecuteResume :: "'w FlowEngine \<Rightarrow> string \<Rightarrow> string \<Rightarrow> string \<Rightarrow> ('w shard_state, unit) M" where
  "ExecuteResume F wn fid event =
     bindM (container_Get F wn fid) (\<lambda>r. case r of
       Inl _ \<Rightarrow> ret ()
     | Inr sm \<Rightarrow>
         let flowCtx = smContext sm in
         if State flowCtx = COMPLETED \<or> State flowCtx = FAILED then ret ()
         else forM (range_keys (ordI (engRuntime F)) (CurrentActionIds flowCtx))
           (\<lambda>k. ExecuteActionResume F wn fid event k None))"

definition ExecuteResumeAfterWait ::
  "'w FlowEngine \<Rightarrow> string \<Rightarrow> string \<Rightarrow> string \<Rightarrow> ('w shard_state, error option) M" where
  "ExecuteResumeAfterWait F wn fid event =
     bindM (container_Get F wn fid) (\<lambda>r. case r of
       Inl e \<Rightarrow> ret (Some e)
     | Inr sm \<Rightarrow>
         let flowCtx = smContext sm in
         if Event flowCtx \<noteq> event then ret (Some (EventMismatch event (Event flowCtx)))
         else if State flowCtx = COMPLETED \<or> State flowCtx = FAILED then ret (Some FlowAlreadyCompleted)
         else bindM (forM (range_keys (ordI (engRuntime F)) (CurrentActionIds flowCtx))
                (\<lambda>k. ExecuteAction F wn fid event k None)) (\<lambda>_. ret None))"

end
