(* ===== verification/Flow_Spec.thy ===== *)
theory Flow_Spec
  imports State_Machine
begin

text \<open>
  The abstract specification of a workflow run. A run is seen through its \<open>flow_view\<close>: the
  state, the awaited event, the scheduled actions with their try counts and the set of executed
  actions; \<open>None\<close> is a run that was never started or whose context has been deleted.
  \<open>flow_step\<close> is a labelled transition system on these views. It fixes what the engine may
  do to a run, whatever the storage does and in whatever order requests arrive; the theory
  \<open>Engine_Refinement\<close> shows that every operation of the engine is a sequence of its steps.

  The lemmas here are the consequences of the specification: an action is executed at most
  once, the executed actions only grow, a finished run stays finished unless a client pauses
  or restarts it, the number of moves is bounded by the number of actions, and a run whose
  actions report only events the workflow defines is never left with nothing to do.
\<close>

section \<open>Views and steps\<close>

record flow_view =
  vState :: FlowState
  vEvent :: string
  vCurrent :: "(int, int) fmap"
  vExecuted :: "int set"

definition view_of :: "FlowContext \<Rightarrow> flow_view" where
  "view_of c = \<lparr>vState = State c, vEvent = Event c, vCurrent = CurrentActionIds c,
     vExecuted = fmdom' (ExecutedActions c)\<rparr>"

lemma view_of_simps [simp]:
  "vState (view_of c) = State c" "vEvent (view_of c) = Event c"
  "vCurrent (view_of c) = CurrentActionIds c" "vExecuted (view_of c) = fmdom' (ExecutedActions c)"
  by (simp_all add: view_of_def)

datatype label =
    Start
  | Move int string bool   \<comment> \<open>action, event, whether a paused run may move\<close>
  | Finish int bool
  | LostFinish int bool    \<comment> \<open>the run completes but the move of its last action is not stored\<close>
  | Bump int
  | Mark FlowState
  | Await string
  | Pause
  | Remove

definition finished :: "Flow \<Rightarrow> int set \<Rightarrow> bool" where
  "finished fl E \<longleftrightarrow> (\<exists>ts \<in> set (TerminalActions fl). set ts \<subseteq> E)"

definition may_move :: "Flow \<Rightarrow> flow_view \<Rightarrow> int \<Rightarrow> bool \<Rightarrow> bool" where
  "may_move fl v a resume \<longleftrightarrow> \<not> terminal_state (vState v) \<and> a \<notin> vExecuted v \<and>
     a \<in> fmdom' (flowActions fl) \<and> (resume \<or> vState v \<noteq> PAUSED)"

definition start_view :: "Flow \<Rightarrow> flow_view" where
  "start_view fl = \<lparr>vState = RUNNING, vEvent = '''', vCurrent = fmupd (RootAction fl) 1 fmempty,
     vExecuted = {}\<rparr>"

definition moved :: "Flow \<Rightarrow> int \<Rightarrow> string \<Rightarrow> flow_view \<Rightarrow> flow_view" where
  "moved fl a event v = v\<lparr>vState := RUNNING,
     vCurrent := schedule (next_ids fl a event) (fmdrop a (vCurrent v)),
     vExecuted := insert a (vExecuted v)\<rparr>"

inductive flow_step :: "Flow \<Rightarrow> flow_view option \<Rightarrow> label \<Rightarrow> flow_view option \<Rightarrow> bool" for fl where
  start: "flow_step fl v Start (Some (start_view fl))"
| move: "may_move fl v a resume \<Longrightarrow> \<not> finished fl (insert a (vExecuted v)) \<Longrightarrow>
    flow_step fl (Some v) (Move a event resume) (Some (moved fl a event v))"
| finish: "may_move fl v a resume \<Longrightarrow> finished fl (insert a (vExecuted v)) \<Longrightarrow>
    flow_step fl (Some v) (Finish a resume)
      (Some (v\<lparr>vState := COMPLETED, vCurrent := fmdrop a (vCurrent v),
               vExecuted := insert a (vExecuted v)\<rparr>))"
| lost: "may_move fl v a resume \<Longrightarrow> finished fl (insert a (vExecuted v)) \<Longrightarrow>
    flow_step fl (Some v) (LostFinish a resume) (Some (v\<lparr>vState := COMPLETED\<rparr>))"
| bump: "may_move fl v a True \<Longrightarrow>
    flow_step fl (Some v) (Bump a) (Some (v\<lparr>vCurrent := fmupd a n (vCurrent v)\<rparr>))"
| mark: "\<not> terminal_state (vState v) \<Longrightarrow> st \<in> {FAILED, WAITING_DELAY} \<Longrightarrow>
    flow_step fl (Some v) (Mark st) (Some (v\<lparr>vState := st\<rparr>))"
| await: "\<not> terminal_state (vState v) \<Longrightarrow>
    flow_step fl (Some v) (Await event) (Some (v\<lparr>vState := WAITING_EVENT,
      vEvent := (if event = '''' then vEvent v else event)\<rparr>))"
| pause: "flow_step fl (Some v) Pause (Some (v\<lparr>vState := PAUSED\<rparr>))"
| remove: "FailureHandler fl = DELETE \<or> SuccessHandler fl = DELETE \<Longrightarrow>
    flow_step fl (Some v) Remove None"

inductive_cases flow_stepE: "flow_step fl v l v'"
inductive_simps flow_step_None: "flow_step fl None l v'"

inductive flow_run :: "Flow \<Rightarrow> flow_view option \<Rightarrow> label list \<Rightarrow> flow_view option \<Rightarrow> bool" for fl where
  Nil: "flow_run fl v [] v"
| Cons: "flow_step fl v l v' \<Longrightarrow> flow_run fl v' ls v'' \<Longrightarrow> flow_run fl v (l # ls) v''"

inductive_simps flow_run_simps [simp]: "flow_run fl v [] v'" "flow_run fl v (l # ls) v'"

lemma flow_run_append:
  "flow_run fl v (ls @ ls') v'' \<longleftrightarrow> (\<exists>v'. flow_run fl v ls v' \<and> flow_run fl v' ls' v'')"
  by (induction ls arbitrary: v) auto

section \<open>Consequences for one step\<close>

definition starts :: "label list \<Rightarrow> bool" where
  "starts ls \<longleftrightarrow> Start \<in> set ls"

lemma step_executed_mono:
  "flow_step fl (Some v) l (Some v') \<Longrightarrow> l \<noteq> Start \<Longrightarrow> vExecuted v \<subseteq> vExecuted v'"
  by (erule flow_stepE) (auto simp: moved_def)

lemma step_terminal:
  "flow_step fl (Some v) l (Some v') \<Longrightarrow> terminal_state (vState v) \<Longrightarrow> l \<noteq> Start \<Longrightarrow> l \<noteq> Pause \<Longrightarrow>
   v' = v"
  by (erule flow_stepE) (auto simp: may_move_def)

lemma step_removed: "flow_step fl None l v' \<Longrightarrow> l \<noteq> Start \<Longrightarrow> v' = None"
  by (simp add: flow_step_None)

section \<open>Consequences for a run\<close>

text \<open>A removed run stays removed, hence a run between two views never passed through
  removal unless it was started again.\<close>

lemma run_removed: "flow_run fl None ls v' \<Longrightarrow> Start \<notin> set ls \<Longrightarrow> v' = None"
  by (induction ls) (auto simp: flow_step_None)

lemma run_induct_live:
  assumes "flow_run fl (Some v) ls (Some v')" and "Start \<notin> set ls"
    and "\<And>v. P v v"
    and "\<And>v l v1 v2. flow_step fl (Some v) l (Some v1) \<Longrightarrow> l \<in> set ls \<Longrightarrow> P v1 v2 \<Longrightarrow> P v v2"
  shows "P v v'"
  using assms
proof (induction ls arbitrary: v)
  case (Cons l ls)
  then obtain w where s: "flow_step fl (Some v) l w" and r: "flow_run fl w ls (Some v')" by auto
  then obtain v1 where v1: "w = Some v1" using run_removed Cons.prems(2) by (cases w) auto
  have "P v1 v'"
    using Cons.IH [of v1] r v1 Cons.prems by (metis list.set_intros(2))
  then show ?case using Cons.prems(4) s v1 by auto
qed auto

lemma run_executed_mono:
  assumes "flow_run fl (Some v) ls (Some v')" and "Start \<notin> set ls"
  shows "vExecuted v \<subseteq> vExecuted v'"
  using assms by (rule run_induct_live) (use assms(2) step_executed_mono in blast)+

lemma run_terminal:
  assumes "flow_run fl (Some v) ls (Some v')" and "Start \<notin> set ls" and "Pause \<notin> set ls"
    and "terminal_state (vState v)"
  shows "v' = v"
proof -
  have "terminal_state (vState v) \<longrightarrow> v' = v"
    using assms(1,2)
  proof (rule run_induct_live)
    fix v l v1 v2
    assume "flow_step fl (Some v) l (Some v1)" "l \<in> set ls"
      and "terminal_state (vState v1) \<longrightarrow> v2 = v1"
    then show "terminal_state (vState v) \<longrightarrow> v2 = v"
      using step_terminal assms(2,3) by metis
  qed simp
  then show ?thesis using assms(4) by blast
qed

subsection \<open>Every action is executed at most once\<close>

fun executes :: "label \<Rightarrow> int option" where
  "executes (Move a _ _) = Some a"
| "executes (Finish a _) = Some a"
| "executes _ = None"

definition executions :: "label list \<Rightarrow> int list" where
  "executions ls = map (\<lambda>l. the (executes l)) (filter (\<lambda>l. executes l \<noteq> None) ls)"

lemma executions_simps [simp]:
  "executions [] = []"
  "executions (l # ls) = (case executes l of None \<Rightarrow> executions ls | Some a \<Rightarrow> a # executions ls)"
  by (simp_all add: executions_def split: option.splits)

lemma step_executes:
  assumes "flow_step fl (Some v) l (Some v')" and "l \<noteq> Start"
  shows "vExecuted v' = vExecuted v \<union> set_option (executes l)"
    and "set_option (executes l) \<inter> vExecuted v = {}"
    and "set_option (executes l) \<subseteq> fmdom' (flowActions fl)"
  using assms by (auto elim!: flow_stepE simp: moved_def may_move_def)

lemma run_executions:
  assumes "flow_run fl (Some v) ls (Some v')" and "Start \<notin> set ls"
  shows "vExecuted v' = vExecuted v \<union> set (executions ls) \<and> distinct (executions ls) \<and>
    set (executions ls) \<inter> vExecuted v = {} \<and> set (executions ls) \<subseteq> fmdom' (flowActions fl)"
  using assms
proof (induction ls arbitrary: v)
  case (Cons l ls)
  then obtain w where s: "flow_step fl (Some v) l w" and r: "flow_run fl w ls (Some v')" by auto
  then obtain v1 where v1: "w = Some v1" using run_removed Cons.prems(2) by (cases w) auto
  have ns: "l \<noteq> Start" using Cons.prems(2) by auto
  show ?case
    using Cons.IH [of v1] r v1 Cons.prems(2) step_executes [OF s [unfolded v1] ns]
    by (auto split: option.splits)
qed simp

lemma run_moves_bounded:
  assumes "flow_run fl (Some v) ls (Some v')" and "Start \<notin> set ls"
  shows "length (executions ls) \<le> card (fmdom' (flowActions fl))"
  using run_executions [OF assms] by (metis card_mono distinct_card finite_fmdom')

subsection \<open>Completed means finished\<close>

lemma finished_mono: "finished fl E \<Longrightarrow> E \<subseteq> E' \<Longrightarrow> finished fl E'"
  unfolding finished_def by blast

lemma finished_insert [intro]: "finished fl E \<Longrightarrow> finished fl (insert a E)"
  by (erule finished_mono) blast

definition complete_inv :: "Flow \<Rightarrow> flow_view \<Rightarrow> bool" where
  "complete_inv fl v \<longleftrightarrow> vExecuted v \<subseteq> fmdom' (flowActions fl) \<and>
     (vState v = COMPLETED \<longrightarrow> (\<exists>a. finished fl (insert a (vExecuted v))))"

lemma complete_inv_step:
  assumes "flow_step fl v l (Some v')" and "pred_option (complete_inv fl) v"
  shows "complete_inv fl v'"
  using assms
  by (cases rule: flow_step.cases)
    (auto simp: complete_inv_def start_view_def moved_def may_move_def)

lemma complete_inv_run:
  "flow_run fl v ls v' \<Longrightarrow> pred_option (complete_inv fl) v \<Longrightarrow> pred_option (complete_inv fl) v'"
proof (induction rule: flow_run.induct)
  case (Cons v l v1 ls v2)
  then show ?case using complete_inv_step by (cases v1) auto
qed

text \<open>When no move was lost, the last action is among the executed ones.\<close>

definition exact_inv :: "Flow \<Rightarrow> flow_view \<Rightarrow> bool" where
  "exact_inv fl v \<longleftrightarrow> (vState v = COMPLETED \<longrightarrow> finished fl (vExecuted v))"

lemma exact_inv_run:
  "flow_run fl v ls v' \<Longrightarrow> \<forall>a r. LostFinish a r \<notin> set ls \<Longrightarrow> pred_option (exact_inv fl) v \<Longrightarrow>
   pred_option (exact_inv fl) v'"
proof (induction rule: flow_run.induct)
  case (Cons v l v1 ls v2)
  have "pred_option (exact_inv fl) v1"
    using Cons.hyps(1) Cons.prems
    by (cases rule: flow_step.cases) (auto simp: exact_inv_def start_view_def moved_def may_move_def)
  then show ?case using Cons by auto
qed

section \<open>A run never gets stuck\<close>

text \<open>An event is defined for an action when the action is a leaf or its next map has it.\<close>

definition defined_event :: "Flow \<Rightarrow> int \<Rightarrow> string \<Rightarrow> bool" where
  "defined_event fl a event \<longleftrightarrow> (\<exists>act. fmlookup (flowActions fl) a = Some act \<and>
     (case GetNext act of None \<Rightarrow> True | Some nm \<Rightarrow> event \<in> fmdom' nm))"

definition defined_label :: "Flow \<Rightarrow> label \<Rightarrow> bool" where
  "defined_label fl l \<longleftrightarrow> (case l of Move a event _ \<Rightarrow> defined_event fl a event | _ \<Rightarrow> True)"

text \<open>\<open>closed\<close>: the root has been scheduled, and so have been the next actions of every executed
  action for the event it reported.\<close>

definition closed :: "Flow \<Rightarrow> int set \<Rightarrow> int set \<Rightarrow> bool" where
  "closed fl E C \<longleftrightarrow> RootAction fl \<in> E \<union> C \<and>
     (\<forall>a \<in> E. \<exists>event. defined_event fl a event \<and> set (next_ids fl a event) \<subseteq> E \<union> C)"

definition progress_inv :: "Flow \<Rightarrow> flow_view \<Rightarrow> bool" where
  "progress_inv fl v \<longleftrightarrow> finished fl (vExecuted v) \<or> closed fl (vExecuted v) (fmdom' (vCurrent v))"

lemma closed_moved:
  assumes "closed fl E C" and "defined_event fl a event"
  shows "closed fl (insert a E) (set (next_ids fl a event) \<union> (C - {a}))"
  using assms unfolding closed_def by (auto 4 4)

lemma closed_mono: "closed fl E C \<Longrightarrow> C \<subseteq> C' \<Longrightarrow> closed fl E C'"
  unfolding closed_def by (auto 4 4)

lemma progress_inv_step:
  assumes "flow_step fl v l (Some v')" and "defined_label fl l" and "pred_option (progress_inv fl) v"
  shows "progress_inv fl v'"
  using assms
proof (cases rule: flow_step.cases)
  case (move u a resume event)
  then show ?thesis
    using assms(2,3) closed_moved [of fl "vExecuted u" "fmdom' (vCurrent u)" a event]
    by (auto simp: progress_inv_def moved_def defined_label_def)
next
  case (bump u a n)
  then show ?thesis
    using assms(3) closed_mono [of fl "vExecuted u" "fmdom' (vCurrent u)" "insert a (fmdom' (vCurrent u))"]
    by (auto simp: progress_inv_def)
qed (auto simp: progress_inv_def start_view_def closed_def)

lemma progress_inv_run:
  "flow_run fl v ls v' \<Longrightarrow> \<forall>l \<in> set ls. defined_label fl l \<Longrightarrow> pred_option (progress_inv fl) v \<Longrightarrow>
   pred_option (progress_inv fl) v'"
proof (induction rule: flow_run.induct)
  case (Cons v l v1 ls v2)
  then show ?case using progress_inv_step by (cases v1) auto
qed

text \<open>In a compiled flow an executed set that is closed with nothing scheduled contains the
  leaves of a resolution of the graph.\<close>

lemma closed_outcome:
  assumes "fair rt" and ids: "\<And>a act. fmlookup (flowActions fl) a = Some act \<Longrightarrow> GetId act = a"
    and cl: "closed fl E {}"
  shows "walk depth rt (flowActions fl) a = Val ts \<Longrightarrow> a \<in> E \<Longrightarrow>
    \<exists>T \<subseteq> E. outcome (flowActions fl) a T"
proof (induction depth arbitrary: a ts)
  case (Suc depth)
  obtain event act where act: "fmlookup (flowActions fl) a = Some act"
    and ev: "case GetNext act of None \<Rightarrow> True | Some nm \<Rightarrow> event \<in> fmdom' nm"
    and sub: "set (next_ids fl a event) \<subseteq> E"
    using cl Suc.prems(2) unfolding closed_def defined_event_def by fastforce
  show ?case
  proof (cases "GetNext act")
    case None
    then show ?thesis using outcome.leaf [OF act] ids [OF act] Suc.prems(2) by auto
  next
    case (Some nm)
    have nx: "next_ids fl a event = next_actions nm event" using act Some by (simp add: next_ids_def)
    have "\<exists>T. T \<subseteq> E \<and> outcome (flowActions fl) b T" if "b \<in> set (next_actions nm event)" for b
    proof -
      have "(a, b) \<in> edges (flowActions fl)" using act Some ev that by (auto simp: edges_def)
      then obtain out where "walk depth rt (flowActions fl) b = Val out"
        using walk_next_returns [OF assms(1) _ Suc.prems(1)] by blast
      then show ?thesis using Suc.IH that sub nx by auto
    qed
    then obtain f where f: "\<And>b. b \<in> set (next_actions nm event) \<Longrightarrow> f b \<subseteq> E \<and> outcome (flowActions fl) b (f b)"
      by metis
    have "list_all2 (outcome (flowActions fl)) (next_actions nm event) (map f (next_actions nm event))"
      using f by (simp add: list_all2_conv_all_nth)
    then have "outcome (flowActions fl) a (\<Union> (set (map f (next_actions nm event))))"
      using outcome.branch [OF act Some, of event] ev Some by fastforce
    then show ?thesis using f by (intro exI conjI) auto
  qed
qed simp

lemma build_flow_Val:
  assumes "build_flow rt wfl fid = Val fl"
  shows "flowActions fl = build_actions (wfActions wfl)" and "RootAction fl = wfRootAction wfl"
    and "walk (maxDepth rt) rt (flowActions fl) (RootAction fl) = Val (TerminalActions fl)"
    and "flowId fl = fid" and "FailureHandler fl = handler_or_noop (OnFailure wfl)"
    and "SuccessHandler fl = handler_or_noop (OnSuccess wfl)"
  using assms by (auto simp: build_flow_def bind_res_Val_iff Let_def)

lemma build_actions_ids: "fmlookup (build_actions defs) a = Some act \<Longrightarrow> GetId act = a"
  by (induction defs rule: rev_induct) (auto simp: build_actions_def split: if_splits)

lemma finished_compiled:
  assumes "fair rt" and "build_flow rt wfl fid = Val fl" and "no_empty_next (flowActions fl)"
  shows "finished fl E \<longleftrightarrow> (\<exists>T \<subseteq> E. outcome (flowActions fl) (RootAction fl) T)"
proof -
  have "set ` set (TerminalActions fl) = {T. outcome (flowActions fl) (RootAction fl) T}"
    using walk_sound [OF assms(1,3) build_flow_Val(3) [OF assms(2)]] by (simp add: walk_correct_def)
  then show ?thesis unfolding finished_def by (metis (no_types, lifting) imageE imageI mem_Collect_eq)
qed

lemma closed_finished:
  assumes "fair rt" and "build_flow rt wfl fid = Val fl" and "no_empty_next (flowActions fl)"
    and "closed fl E {}"
  shows "finished fl E"
proof -
  have "RootAction fl \<in> E" using assms(4) by (simp add: closed_def)
  then have "\<exists>T \<subseteq> E. outcome (flowActions fl) (RootAction fl) T"
    using closed_outcome [OF assms(1) _ assms(4) build_flow_Val(3) [OF assms(2)]]
      build_actions_ids build_flow_Val(1) [OF assms(2)] by metis
  then show ?thesis using finished_compiled [OF assms(1-3)] by blast
qed

lemma run_not_stuck:
  assumes "fair rt" and "build_flow rt wfl fid = Val fl" and "no_empty_next (flowActions fl)"
    and "flow_run fl None ls (Some v)" and "\<forall>l \<in> set ls. defined_label fl l"
    and "vCurrent v = fmempty"
  shows "finished fl (vExecuted v)"
  using progress_inv_run [OF assms(4,5)] closed_finished [OF assms(1-3)] assms(6)
  by (auto simp: progress_inv_def)

section \<open>Well-typed runs\<close>

text \<open>A flow is closed under its edges when the root and all next actions are actions of it; a view is
  well typed when it mentions only actions of the flow, and its state is one of the six.\<close>

definition flow_closed :: "Flow \<Rightarrow> bool" where
  "flow_closed fl \<longleftrightarrow> RootAction fl \<in> fmdom' (flowActions fl) \<and>
     (\<forall>a event. set (next_ids fl a event) \<subseteq> fmdom' (flowActions fl))"

definition typed_view :: "Flow \<Rightarrow> flow_view \<Rightarrow> bool" where
  "typed_view fl v \<longleftrightarrow> fmdom' (vCurrent v) \<subseteq> fmdom' (flowActions fl) \<and>
     vExecuted v \<subseteq> fmdom' (flowActions fl) \<and> (\<forall>x. vState v \<noteq> OtherFlowState x)"

lemma next_ok_ids:
  assumes "next_ok ids d" and "Next d = Some nm"
  shows "set (next_actions nm event) \<subseteq> ids"
proof (cases "fmlookup nm event")
  case (Some v)
  then have "event \<in> fmdom' nm" by (simp add: fmlookup_dom'_iff)
  then show ?thesis using assms unfolding next_ok_def next_actions_def by fastforce
qed (simp add: next_actions_def)

lemma well_formed_closed:
  assumes "well_formed wfl" and "build_flow rt wfl fid = Val fl"
  shows "flow_closed fl"
proof -
  have dist: "distinct (map adId (wfActions wfl))" using assms(1) by (simp add: well_formed_def)
  have ids: "fmdom' (flowActions fl) = adId ` set (wfActions wfl)"
    using build_flow_Val(1) [OF assms(2)] fmdom'_build_actions [OF dist] by simp
  have "set (next_ids fl a event) \<subseteq> adId ` set (wfActions wfl)" for a event
  proof (cases "fmlookup (flowActions fl) a")
    case (Some act)
    then obtain d where d: "d \<in> set (wfActions wfl)" "act = build_action d"
      using build_flow_Val(1) [OF assms(2)] build_actions_Some_iff [OF dist] by auto
    then have "next_ok (adId ` set (wfActions wfl)) d" using assms(1) by (auto simp: well_formed_def)
    then show ?thesis
      using d(2) Some next_ok_ids by (cases "Next d") (simp_all add: next_ids_def)
  qed (simp add: next_ids_def)
  then show ?thesis
    using assms(1) ids build_flow_Val(2) [OF assms(2)] by (simp add: flow_closed_def well_formed_def)
qed

lemma typed_step:
  assumes "flow_step fl v l (Some v')" and "flow_closed fl" and "\<And>u. v = Some u \<Longrightarrow> typed_view fl u"
  shows "typed_view fl v'"
  using assms
  by (cases rule: flow_step.cases)
    (auto simp: typed_view_def flow_closed_def start_view_def moved_def may_move_def)

lemma typed_run:
  assumes "flow_run fl v ls (Some v')" and "flow_closed fl" and "\<And>u. v = Some u \<Longrightarrow> typed_view fl u"
  shows "typed_view fl v'"
  using assms(1,3)
proof (induction ls arbitrary: v)
  case (Cons l ls)
  then obtain w where s: "flow_step fl v l w" and r: "flow_run fl w ls (Some v')" by auto
  show ?case
  proof (rule Cons.IH [OF r])
    show "typed_view fl u" if "w = Some u" for u using typed_step [OF _ assms(2) Cons.prems(2)] s that by blast
  qed
qed auto

end
