(* ===== verification/Engine_Refinement.thy ===== *)
theory Engine_Refinement
  imports Engine Flow_Spec
begin

text \<open>
  The engine refines the specification of a run. \<open>engine_op\<close> lists the entry points of the
  engine that the executors and the cluster call, \<open>labels_of\<close> the steps of \<open>Flow_Spec\<close> each
  may take. The locale \<open>engine_env\<close> extends the storage contract by what the engine needs of
  the metadata storage; the lemmas proved in it say that every operation on a run is a sequence
  of the steps permitted for it, also when storage calls fail or the operation panics half-way,
  and that it leaves every other run alone.
\<close>

section \<open>The operations of the engine\<close>

datatype engine_op =
    OpInit "anymap option"
  | OpExecute string int "anymap option"
  | OpSystem int
  | OpRetryFailed string int
  | OpRetryTimedout string int
  | OpDelay int
  | OpRetry int
  | OpResume string
  | OpConsume string
  | OpPause

fun run_op :: "'w FlowEngine \<Rightarrow> string \<Rightarrow> string \<Rightarrow> engine_op \<Rightarrow> ('w shard_state, unit) M" where
  "run_op F wn fid (OpInit input) = bindM (Init F wn fid input) (\<lambda>_. ret ())"
| "run_op F wn fid (OpExecute event a data) = ExecuteAction F wn fid event a data"
| "run_op F wn fid (OpSystem a) = ExecuteSystemAction F wn fid a"
| "run_op F wn fid (OpRetryFailed name a) = RetryFailedAction F wn fid name a"
| "run_op F wn fid (OpRetryTimedout name a) = RetryTimedoutAction F wn fid name a"
| "run_op F wn fid (OpDelay a) = ExecuteDelay F wn fid a"
| "run_op F wn fid (OpRetry a) = ExecuteRetry F wn fid a"
| "run_op F wn fid (OpResume event) = ExecuteResume F wn fid event"
| "run_op F wn fid (OpConsume event) = bindM (ExecuteResumeAfterWait F wn fid event) (\<lambda>_. ret ())"
| "run_op F wn fid OpPause = MarkPaused F wn fid"

definition move_labels :: "int \<Rightarrow> bool \<Rightarrow> label set" where
  "move_labels a resume = insert Remove (insert (Finish a resume) (insert (LostFinish a resume)
     (range (\<lambda>event. Move a event resume))))"

fun labels_of :: "engine_op \<Rightarrow> label set" where
  "labels_of (OpInit input) = {Start}"
| "labels_of (OpExecute event a data) = {Move a event False, Finish a False, LostFinish a False, Remove}"
| "labels_of (OpSystem a) =
     move_labels a False \<union> {Mark FAILED, Mark WAITING_DELAY} \<union> range Await"
| "labels_of (OpRetryFailed name a) = {Mark FAILED, Remove}"
| "labels_of (OpRetryTimedout name a) = {Mark FAILED, Remove}"
| "labels_of (OpDelay a) = {Move a ''default'' False, Finish a False, LostFinish a False, Remove}"
| "labels_of (OpRetry a) = {Bump a}"
| "labels_of (OpResume event) =
     {Remove} \<union> (\<Union>a. {Move a event True, Finish a True, LostFinish a True})"
| "labels_of (OpConsume event) =
     {Remove} \<union> (\<Union>a. {Move a event False, Finish a False, LostFinish a False})"
| "labels_of OpPause = {Pause}"

text \<open>The action an operation is about.\<close>

fun op_action :: "engine_op \<Rightarrow> int option" where
  "op_action (OpExecute _ a _) = Some a"
| "op_action (OpSystem a) = Some a"
| "op_action (OpRetryFailed _ a) = Some a"
| "op_action (OpRetryTimedout _ a) = Some a"
| "op_action (OpDelay a) = Some a"
| "op_action (OpRetry a) = Some a"
| "op_action _ = None"

section \<open>The relations\<close>

text \<open>The cached machine of the run and the stored definition agree with the flow \<open>fl\<close> the run
  is executed with; a definition that has been deleted is allowed.\<close>

definition coherent ::
  "('w \<Rightarrow> string \<Rightarrow> Workflow option) \<Rightarrow> string \<Rightarrow> string \<Rightarrow> Workflow \<Rightarrow> Flow \<Rightarrow> 'w shard_state \<Rightarrow> bool" where
  "coherent defs wn fid wfl fl s \<longleftrightarrow> defs (world s) wn \<in> {None, Some wfl} \<and>
     (\<forall>sm. fmlookup (stateMachines s) (machine_key wn fid) = Some sm \<longrightarrow> smFlow sm = fl)"

definition run_view :: "('w \<Rightarrow> contexts) \<Rightarrow> string \<Rightarrow> string \<Rightarrow> 'w shard_state \<Rightarrow> flow_view option" where
  "run_view ctxs wn fid s = map_option view_of (ctxs (world s) (wn, fid))"

definition refines_run ::
  "('w \<Rightarrow> contexts) \<Rightarrow> Flow \<Rightarrow> string \<Rightarrow> string \<Rightarrow> label set \<Rightarrow> 'w shard_state \<Rightarrow> 'w shard_state \<Rightarrow> bool" where
  "refines_run ctxs fl wn fid L s s' \<longleftrightarrow>
     (\<forall>k. k \<noteq> (wn, fid) \<longrightarrow> ctxs (world s') k = ctxs (world s) k) \<and>
     (\<exists>ls. set ls \<subseteq> L \<and> flow_run fl (run_view ctxs wn fid s) ls (run_view ctxs wn fid s'))"

section \<open>The contract with the metadata storage\<close>

locale engine_env = flow_store "engStorage F" ctxs img
  for F :: "'w FlowEngine" and ctxs :: "'w \<Rightarrow> contexts" and img :: "FlowContext \<Rightarrow> FlowContext" +
  fixes defs :: "'w \<Rightarrow> string \<Rightarrow> Workflow option"
  assumes def_value: "ms_GetWorkflowDefinition (engMetadata F) wn w = (Inr wfl, w') \<Longrightarrow>
      defs w wn = Some wfl"
    and def_frame: "ctxs (snd (ms_GetWorkflowDefinition (engMetadata F) wn w)) = ctxs w"
      "defs (snd (ms_GetWorkflowDefinition (engMetadata F) wn w)) = defs w"
    and action_frame: "ctxs (snd (ms_GetActionDefinition (engMetadata F) name w)) = ctxs w"
      "defs (snd (ms_GetActionDefinition (engMetadata F) name w)) = defs w"
    and storage_defs: "defs (snd (st_GetFlowContext (engStorage F) wn fid w)) = defs w"
      "defs (snd (st_SaveFlowContext (engStorage F) wn fid c w)) = defs w"
      "defs (snd (st_SaveFlowContextAndDispatchAction (engStorage F) wn fid c reqs w)) = defs w"
      "defs (snd (st_DeleteFlowContext (engStorage F) wn fid w)) = defs w"
      "defs (snd (st_Retry (engStorage F) wn fid name a d w)) = defs w"
      "defs (snd (st_Delay (engStorage F) wn fid name a d w)) = defs w"
begin

lemma view_of_img [simp]: "view_of (img c) = view_of c"
  by (simp add: view_of_def)

end

section \<open>The proof of the refinement\<close>

text \<open>The lemmas are about one run, given by its workflow, its identifier, the stored definition
  and the flow compiled from it; \<open>s0\<close> is the state before the operation and \<open>L\<close> a set of
  labels.\<close>

locale engine_run = engine_env F ctxs img defs
  for F :: "'w FlowEngine" and ctxs :: "'w \<Rightarrow> contexts" and img :: "FlowContext \<Rightarrow> FlowContext"
    and defs :: "'w \<Rightarrow> string \<Rightarrow> Workflow option" +
  fixes wn fid :: string and wfl :: Workflow and fl :: Flow
  assumes fair: "fair (engRuntime F)"
    and compiled: "build_flow (engRuntime F) wfl fid = Val fl"
begin

definition sim :: "'w shard_state \<Rightarrow> label set \<Rightarrow> 'w shard_state \<Rightarrow> bool" where
  "sim s0 L s \<longleftrightarrow> coherent defs wn fid wfl fl s \<and> refines_run ctxs fl wn fid L s0 s"

definition sim_at :: "'w shard_state \<Rightarrow> label set \<Rightarrow> FlowContext \<Rightarrow> 'w shard_state \<Rightarrow> bool" where
  "sim_at s0 L c s \<longleftrightarrow> sim s0 L s \<and> ctxs (world s) (wn, fid) = Some c"

lemma sim_refl: "coherent defs wn fid wfl fl s \<Longrightarrow> sim s L s"
  by (auto simp: sim_def refines_run_def intro: exI [where x = "[]"])

lemma sim_atD: "sim_at s0 L c s \<Longrightarrow> sim s0 L s"
  by (simp add: sim_at_def)

text \<open>A state that differs only in what the run does not depend on.\<close>

lemma sim_cong:
  assumes "sim s0 L s" and "ctxs (world s') = ctxs (world s)" and "defs (world s') = defs (world s)"
    and "\<And>sm. fmlookup (stateMachines s') (machine_key wn fid) = Some sm \<Longrightarrow> smFlow sm = fl"
  shows "sim s0 L s'"
  using assms by (auto simp: sim_def coherent_def refines_run_def run_view_def)

lemma sim_machines:
  "sim s0 L s \<Longrightarrow> fmlookup (stateMachines s) (machine_key wn fid) = Some sm \<Longrightarrow> smFlow sm = fl"
  by (simp add: sim_def coherent_def)

lemma sim_onWorld:
  assumes "\<And>w. ctxs (snd (f w)) = ctxs w" and "\<And>w. defs (snd (f w)) = defs w"
  shows "triple (sim s0 L) (onWorld f) (\<lambda>_. sim s0 L) E"
    and "triple (sim_at s0 L c) (onWorld f) (\<lambda>_. sim_at s0 L c) E"
proof -
  have *: "sim s0 L (s\<lparr>world := snd (f (world s))\<rparr>)" if "sim s0 L s" for s
    using that by (rule sim_cong) (use assms sim_machines [OF that] in auto)
  show "triple (sim s0 L) (onWorld f) (\<lambda>_. sim s0 L) E"
    using * by (simp add: triple_def onWorld_run)
  show "triple (sim_at s0 L c) (onWorld f) (\<lambda>_. sim_at s0 L c) E"
    using * assms(1) by (simp add: triple_def onWorld_run sim_at_def)
qed

text \<open>Taking steps: the stored context changes from \<open>c\<close> to \<open>c'\<close>.\<close>

lemma sim_step:
  assumes "sim s0 L s"
    and "ctxs (world s') \<in> {ctxs (world s), (ctxs (world s))((wn, fid) := c')}"
    and "flow_run fl (run_view ctxs wn fid s) ls (map_option view_of c')" and "set ls \<subseteq> L"
    and "defs (world s') = defs (world s)" and "stateMachines s' = stateMachines s"
  shows "sim s0 L s'"
proof (cases "ctxs (world s') = ctxs (world s)")
  case True
  then show ?thesis using assms(1) by (rule_tac sim_cong) (use assms sim_machines in auto)
next
  case False
  then have c': "ctxs (world s') = (ctxs (world s))((wn, fid) := c')" using assms(2) by blast
  obtain ls0 where "set ls0 \<subseteq> L" "flow_run fl (run_view ctxs wn fid s0) ls0 (run_view ctxs wn fid s)"
    using assms(1) by (auto simp: sim_def refines_run_def)
  then have "flow_run fl (run_view ctxs wn fid s0) (ls0 @ ls) (run_view ctxs wn fid s')"
    using assms(3) c' by (auto simp: flow_run_append run_view_def)
  then have "\<exists>ls. set ls \<subseteq> L \<and> flow_run fl (run_view ctxs wn fid s0) ls (run_view ctxs wn fid s')"
    using \<open>set ls0 \<subseteq> L\<close> assms(4) by (metis Un_least set_append)
  then show ?thesis
    using assms(1,5,6) c' by (auto simp: sim_def coherent_def refines_run_def)
qed

subsection \<open>The container\<close>

lemma sim_Store:
  assumes "smFlow sm = fl"
  shows "triple (sim s0 L) (container_Store wn fid sm) (\<lambda>_. sim s0 L) E"
    and "triple (sim_at s0 L c) (container_Store wn fid sm) (\<lambda>_. sim_at s0 L c) E"
proof -
  have "sim s0 L (s\<lparr>stateMachines := fmupd (machine_key wn fid) sm (stateMachines s)\<rparr>)"
    if "sim s0 L s" for s
    using that by (rule sim_cong) (use assms in auto)
  then show "triple (sim s0 L) (container_Store wn fid sm) (\<lambda>_. sim s0 L) E"
    and "triple (sim_at s0 L c) (container_Store wn fid sm) (\<lambda>_. sim_at s0 L c) E"
    by (simp_all add: triple_def container_Store_def sim_at_def)
qed

lemma sim_Delete:
  "triple (sim s0 L) (container_Delete wn fid) (\<lambda>_. sim s0 L) E"
  "triple (sim_at s0 L c) (container_Delete wn fid) (\<lambda>_. sim_at s0 L c) E"
  by (auto simp: triple_def container_Delete_def sim_at_def elim!: sim_cong)

lemma sim_record:
  "triple (sim s0 L) (record_event ev) (\<lambda>_. sim s0 L) (sim s0 L)"
  unfolding triple_def record_event_def
proof (intro allI impI)
  fix s assume "sim s0 L s"
  moreover have "sim s0 L (s\<lparr>collector := e\<rparr>)" for e
    using calculation by (rule sim_cong) (use sim_machines [OF calculation] in auto)
  ultimately show "case case collector s of None \<Rightarrow> (Panic NilDeref, s)
      | Some evs \<Rightarrow> (Val (), s\<lparr>collector := Some (evs @ [ev])\<rparr>) of
      (Val a, s') \<Rightarrow> sim s0 L s' | (Panic p, s') \<Rightarrow> sim s0 L s'"
    by (simp split: option.splits)
qed

lemma GetFlow_result:
  assumes "sim s0 L s" and "GetFlow (engRuntime F) (engMetadata F) wn fid (world s) = (r, w')"
  shows "sim s0 L (s\<lparr>world := w'\<rparr>)" and "ctxs w' = ctxs (world s)"
    and "r = Val (Inr g) \<Longrightarrow> g = fl"
proof -
  obtain d w1 where d: "ms_GetWorkflowDefinition (engMetadata F) wn (world s) = (d, w1)" by fastforce
  then have w1: "w1 = w'" using assms(2) by (auto simp: GetFlow_def split: sum.splits)
  then show cw: "ctxs w' = ctxs (world s)" using def_frame(1) [of wn "world s"] d by simp
  have "defs w' = defs (world s)" using def_frame(2) [of wn "world s"] d w1 by simp
  then show "sim s0 L (s\<lparr>world := w'\<rparr>)"
    using assms(1) cw sim_machines [OF assms(1)] by (auto elim!: sim_cong)
  assume "r = Val (Inr g)"
  then obtain wfl' where "d = Inr wfl'" "build_flow (engRuntime F) wfl' fid = Val g"
    using assms(2) d by (auto simp: GetFlow_def bind_res_Val_iff split: sum.splits)
  moreover have "wfl' = wfl" using def_value d calculation(1) assms(1) by (fastforce simp: sim_def coherent_def)
  ultimately show "g = fl" using compiled by simp
qed

lemma sim_GetFlow:
  "triple (sim s0 L) (onWorldR (GetFlow (engRuntime F) (engMetadata F) wn fid))
     (\<lambda>r s. sim s0 L s \<and> (\<forall>g. r = Inr g \<longrightarrow> g = fl)) (sim s0 L)"
  "triple (sim_at s0 L c) (onWorldR (GetFlow (engRuntime F) (engMetadata F) wn fid))
     (\<lambda>r s. sim_at s0 L c s \<and> (\<forall>g. r = Inr g \<longrightarrow> g = fl)) (sim s0 L)"
  using GetFlow_result by (fastforce simp: triple_def onWorldR_def sim_at_def split: prod.splits res.splits)+

text \<open>A machine that \<open>Get\<close> returns holds the stored context and the flow of the run.\<close>

lemma sim_read:
  "triple (sim s0 L) (onWorld (st_GetFlowContext (engStorage F) wn fid))
     (\<lambda>r s. sim s0 L s \<and> (\<forall>c. r = Inr c \<longrightarrow> sim_at s0 L c s)) E"
proof -
  have "sim s0 L (s\<lparr>world := w'\<rparr>) \<and> (\<forall>c. r = Inr c \<longrightarrow> sim_at s0 L c (s\<lparr>world := w'\<rparr>))"
    if "sim s0 L s" and g: "st_GetFlowContext (engStorage F) wn fid (world s) = (r, w')" for s r w'
  proof -
    have f: "ctxs w' = ctxs (world s)" "defs w' = defs (world s)"
      using get_frame [of wn fid "world s"] storage_defs(1) [of wn fid "world s"] g by simp_all
    have "sim s0 L (s\<lparr>world := w'\<rparr>)"
      using that(1) f sim_machines [OF that(1)] by (auto elim!: sim_cong)
    then show ?thesis using f get_value g by (auto simp: sim_at_def)
  qed
  then show ?thesis by (simp add: triple_def onWorld_run) (metis prod.collapse)
qed

lemma sim_lookup:
  "triple (sim s0 L) (container_lookup wn fid)
     (\<lambda>r s. sim s0 L s \<and> (\<forall>sm. r = Some sm \<longrightarrow> smFlow sm = fl)) E"
  by (auto simp: triple_def container_lookup_def dest: sim_machines)

definition got :: "'w shard_state \<Rightarrow> label set \<Rightarrow> error + FlowStateMachine \<Rightarrow> 'w shard_state \<Rightarrow> bool" where
  "got s0 L r s \<longleftrightarrow> (case r of Inl _ \<Rightarrow> sim s0 L s
     | Inr sm \<Rightarrow> sim_at s0 L (smContext sm) s \<and> smFlow sm = fl)"

lemma got_simps [simp]:
  "got s0 L (Inl e) = sim s0 L"
  "got s0 L (Inr sm) = (\<lambda>s. sim_at s0 L (smContext sm) s \<and> smFlow sm = fl)"
  by (simp_all add: got_def fun_eq_iff)

lemma sim_Store_got:
  assumes "smFlow sm = fl" and "smContext sm = c"
  shows "triple (sim_at s0 L c) (bindM (container_Store wn fid sm) (\<lambda>_. ret (Inr sm))) (got s0 L) (sim s0 L)"
  by (rule triple_bind [OF sim_Store(2) [OF assms(1)]]) (simp add: triple_def ret_def assms)

lemma sim_Get: "triple (sim s0 L) (container_Get F wn fid) (got s0 L) (sim s0 L)"
  unfolding container_Get_def
  apply (rule triple_bind [OF sim_lookup])
  apply (rule triple_pure)
  apply (rule triple_bind [OF sim_read])
  apply (rule triple_sum)
   apply (auto simp: triple_def ret_def) [1]
  apply (rule triple_option)
   apply (rule triple_pre)
    apply (rule triple_bind [OF sim_GetFlow(2)])
    apply (rule triple_pure)
    apply (rule triple_sum)
     apply (auto simp: triple_def ret_def dest: sim_atD) [1]
    apply (rule triple_let, rule sim_Store_got)
     apply (simp add: NewFlowStateMachine_def)
     apply (simp add: NewFlowStateMachine_def)
    apply simp
   apply (rule triple_let, rule triple_pre, rule sim_Store_got)
     apply simp_all
   apply blast
  done

text \<open>\<open>Get\<close> does not change the stored contexts, so what is known about them remains known.\<close>

lemma Get_contexts: "keeps (\<lambda>s s'. ctxs (world s') = ctxs (world s)) (container_Get F wn' fid')"
proof -
  have g: "ctxs (snd (GetFlow rt (engMetadata F) wn' fid' w)) = ctxs w" for rt w
    using def_frame(1) [of wn' w] by (auto simp: GetFlow_def split: prod.splits sum.splits)
  have t: "transp (\<lambda>s s'. ctxs (world s') = ctxs (world s))" and
    r: "reflp (\<lambda>s s'. ctxs (world s') = ctxs (world s))" by (simp_all add: transp_def reflp_def)
  show ?thesis
    unfolding container_Get_def
    by (intro keeps_bind [OF t])
      (auto simp: keeps_def onWorld_run onWorldR_run container_lookup_def get_frame g ret_def
         bindM_def container_Store_def Let_def split: sum.splits option.splits prod.splits res.splits)
qed

text \<open>The common shape of the engine's methods: get the machine, give up on an error. \<open>K\<close> is
  what is known about the stored context before.\<close>

definition simK :: "'w shard_state \<Rightarrow> label set \<Rightarrow> FlowContext option set \<Rightarrow> 'w shard_state \<Rightarrow> bool" where
  "simK s0 L K s \<longleftrightarrow> sim s0 L s \<and> ctxs (world s) (wn, fid) \<in> K"

lemma simKD: "simK s0 L K s \<Longrightarrow> sim s0 L s"
  by (simp add: simK_def)

lemma sim_with_machine_K:
  assumes "\<And>sm. smFlow sm = fl \<Longrightarrow> Some (smContext sm) \<in> K \<Longrightarrow>
      triple (sim_at s0 L (smContext sm)) (body sm) Q (sim s0 L)"
    and "\<And>e. triple (simK s0 L K) (fail e) Q (sim s0 L)"
  shows "triple (simK s0 L K)
    (bindM (container_Get F wn fid) (\<lambda>r. case r of Inl e \<Rightarrow> fail e | Inr sm \<Rightarrow> body sm)) Q (sim s0 L)"
proof -
  have G: "triple (simK s0 L K) (container_Get F wn fid)
      (\<lambda>r s. got s0 L r s \<and> ctxs (world s) (wn, fid) \<in> K) (sim s0 L)"
    unfolding simK_def by (rule triple_keeps_conj [OF sim_Get Get_contexts]) simp
  show ?thesis
  proof (rule triple_bind [OF G])
    fix r
    show "triple (\<lambda>s. got s0 L r s \<and> ctxs (world s) (wn, fid) \<in> K)
        (case r of Inl e \<Rightarrow> fail e | Inr sm \<Rightarrow> body sm) Q (sim s0 L)"
    proof (cases r)
      case (Inl e)
      then show ?thesis using assms(2) [of e] by (simp add: simK_def [abs_def])
    next
      case (Inr sm)
      show ?thesis
      proof (cases "smFlow sm = fl \<and> Some (smContext sm) \<in> K")
        case True
        then have "triple (sim_at s0 L (smContext sm)) (body sm) Q (sim s0 L)" using assms(1) by blast
        then show ?thesis unfolding Inr sum.case by (rule triple_pre) simp
      next
        case False
        then show ?thesis using Inr by (auto simp: triple_def sim_at_def)
      qed
    qed
  qed
qed

lemma sim_with_machine:
  assumes "\<And>sm. smFlow sm = fl \<Longrightarrow> triple (sim_at s0 L (smContext sm)) (body sm) Q (sim s0 L)"
    and "\<And>e. triple (sim s0 L) (fail e) Q (sim s0 L)"
  shows "triple (sim s0 L)
    (bindM (container_Get F wn fid) (\<lambda>r. case r of Inl e \<Rightarrow> fail e | Inr sm \<Rightarrow> body sm)) Q (sim s0 L)"
proof -
  have "simK s0 L UNIV = sim s0 L" by (simp add: simK_def fun_eq_iff)
  then show ?thesis using sim_with_machine_K [of UNIV s0 L body Q fail] assms by simp
qed

subsection \<open>Storage calls that change the run\<close>

definition reach :: "label set \<Rightarrow> FlowContext \<Rightarrow> FlowContext \<Rightarrow> bool" where
  "reach L c c' \<longleftrightarrow> (\<exists>ls. set ls \<subseteq> L \<and> flow_run fl (Some (view_of c)) ls (Some (view_of c')))"

lemma reach_step: "flow_step fl (Some (view_of c)) l (Some (view_of c')) \<Longrightarrow> l \<in> L \<Longrightarrow> reach L c c'"
  unfolding reach_def by (intro exI [where x = "[l]"]) auto

lemma reach_same: "view_of c' = view_of c \<Longrightarrow> reach L c c'"
  unfolding reach_def by (intro exI [where x = "[]"]) auto

lemma sim_write:
  assumes "\<And>w. ctxs (snd (f w)) \<in> {ctxs w, (ctxs w)((wn, fid) \<mapsto> img c')}"
    and "\<And>w. defs (snd (f w)) = defs w" and "reach L c c'"
  shows "triple (sim_at s0 L c) (onWorld f) (\<lambda>_. simK s0 L {Some c, Some (img c')}) E"
  unfolding triple_def onWorld_run
proof (intro allI impI)
  fix s assume s: "sim_at s0 L c s"
  let ?s = "s\<lparr>world := snd (f (world s))\<rparr>"
  obtain ls where ls: "set ls \<subseteq> L" "flow_run fl (Some (view_of c)) ls (Some (view_of c'))"
    using assms(3) by (auto simp: reach_def)
  have "sim s0 L ?s"
    by (rule sim_step [where s = s and c' = "Some (img c')" and ls = ls])
      (use s assms(1) [of "world s"] assms(2) ls in \<open>auto simp: sim_at_def run_view_def\<close>)
  then have "simK s0 L {Some c, Some (img c')} ?s"
    using s assms(1) [of "world s"] by (auto simp: sim_at_def simK_def)
  then show "case (Val (fst (f (world s))), ?s) of
      (Val a, s') \<Rightarrow> simK s0 L {Some c, Some (img c')} s' | (Panic p, s') \<Rightarrow> E s'"
    by simp
qed

lemmas sim_Save = sim_write [OF save_cases storage_defs(2)]
lemmas sim_Dispatch = sim_write [OF dispatch_cases storage_defs(3)]

lemma triple_forget: "triple P m (\<lambda>_. Q) E \<Longrightarrow> triple P (bindM m (\<lambda>_. ret ())) (\<lambda>_. Q) E"
  by (rule triple_bind) auto

text \<open>A run is removed only through a handler whose name is \<open>DELETE\<close>.\<close>

lemma sim_handler:
  assumes "st \<in> {FailureHandler fl, SuccessHandler fl}" and "Remove \<in> L"
  shows "triple (sim s0 L) (onWorld (run_handler (engStorage F) st wn fid)) (\<lambda>_. sim s0 L) E"
proof (cases "st = DELETE")
  case True
  show ?thesis
    unfolding triple_def onWorld_run
  proof (intro allI impI)
    fix s assume s: "sim s0 L s"
    let ?f = "st_DeleteFlowContext (engStorage F) wn fid"
    let ?s = "s\<lparr>world := snd (?f (world s))\<rparr>"
    let ?ls = "case run_view ctxs wn fid s of None \<Rightarrow> [] | Some v \<Rightarrow> [Remove]"
    have "FailureHandler fl = DELETE \<or> SuccessHandler fl = DELETE" using assms(1) True by auto
    then have "flow_run fl (run_view ctxs wn fid s) ?ls (map_option view_of None)"
      by (auto intro: flow_step.remove split: option.splits)
    moreover have "set ?ls \<subseteq> L" using assms(2) by (auto split: option.splits)
    ultimately have "sim s0 L ?s"
      using delete_cases [of wn fid "world s"] storage_defs(4) [of wn fid "world s"]
      by (intro sim_step [OF s]) auto
    then show "case (Val (fst (run_handler (engStorage F) st wn fid (world s))),
        s\<lparr>world := snd (run_handler (engStorage F) st wn fid (world s))\<rparr>) of
        (Val a, s') \<Rightarrow> sim s0 L s' | (Panic p, s') \<Rightarrow> E s'"
      using True by (simp add: run_handler_def)
  qed
next
  case False
  then show ?thesis unfolding run_handler_def by (intro sim_onWorld) auto
qed

subsection \<open>State changes\<close>

definition with_state :: "FlowState \<Rightarrow> string \<Rightarrow> FlowContext \<Rightarrow> FlowContext" where
  "with_state st event c =
     c\<lparr>State := st, Event := (if event = '''' then Event c else event)\<rparr>"

lemma changed_machine:
  "(if length event \<noteq> 0 then SaveEvent event (ChangeState st sm) else ChangeState st sm) =
   sm\<lparr>smContext := with_state st event (smContext sm)\<rparr>"
  by (simp add: SaveEvent_def ChangeState_def with_state_def)

lemma sim_changeStateWithEvent:
  assumes "\<And>c. Some c \<in> K \<Longrightarrow> reach L c (with_state st event c)"
    and "st \<in> {COMPLETED, FAILED} \<Longrightarrow> Remove \<in> L"
  shows "triple (simK s0 L K) (changeStateWithEvent F wn fid st event) (\<lambda>_. sim s0 L) (sim s0 L)"
  unfolding changeStateWithEvent_def Let_def changed_machine
proof (rule sim_with_machine_K)
  fix sm :: FlowStateMachine
  assume sm: "smFlow sm = fl" and K: "Some (smContext sm) \<in> K"
  let ?sm = "sm\<lparr>smContext := with_state st event (smContext sm)\<rparr>"
  have fl: "smFlow ?sm = fl" using sm by simp
  show "triple (sim_at s0 L (smContext sm))
     (bindM (container_Store wn fid ?sm) (\<lambda>_.
      bindM (onWorld (st_SaveFlowContext (engStorage F) wn fid (smContext ?sm))) (\<lambda>_.
      bindM (if st \<noteq> RUNNING then container_Delete wn fid else ret ()) (\<lambda>_.
      if st = FAILED then
        bindM (onWorld (run_handler (engStorage F) (FailureHandler (smFlow ?sm)) wn fid)) (\<lambda>_. ret ())
      else if st = COMPLETED then
        bindM (onWorld (run_handler (engStorage F) (SuccessHandler (smFlow ?sm)) wn fid)) (\<lambda>_. ret ())
      else ret ())))) (\<lambda>_. sim s0 L) (sim s0 L)"
    unfolding fl
  proof (rule triple_bind [OF sim_Store(2) [OF fl]],
      rule triple_bind [OF sim_Save triple_bind [where R = "\<lambda>_. sim s0 L"]])
    show "reach L (smContext sm) (smContext ?sm)" using assms(1) [OF K] by simp
    show "triple (simK s0 L {Some (smContext sm), Some (img (smContext ?sm))})
        (if st \<noteq> RUNNING then container_Delete wn fid else ret ()) (\<lambda>_. sim s0 L) (sim s0 L)"
      by (intro triple_if) (auto intro: triple_pre [OF sim_Delete(1)] dest: simKD)
    show "triple (sim s0 L) (if st = FAILED then
        bindM (onWorld (run_handler (engStorage F) (FailureHandler fl) wn fid)) (\<lambda>_. ret ())
      else if st = COMPLETED then
        bindM (onWorld (run_handler (engStorage F) (SuccessHandler fl) wn fid)) (\<lambda>_. ret ())
      else ret ()) (\<lambda>_. sim s0 L) (sim s0 L)"
      using assms(2) by (intro triple_if triple_forget sim_handler) auto
  qed
qed (auto dest: simKD)

lemma sim_Mark:
  assumes "\<And>c. Some c \<in> K \<Longrightarrow> \<not> terminal_state (State c)" and "st \<in> {FAILED, WAITING_DELAY}"
    and "Mark st \<in> L" and "Remove \<in> L"
  shows "triple (simK s0 L K) (changeState F wn fid st) (\<lambda>_. sim s0 L) (sim s0 L)"
  unfolding changeState_def
proof (rule sim_changeStateWithEvent)
  fix c assume "Some c \<in> K"
  then have "flow_step fl (Some (view_of c)) (Mark st) (Some ((view_of c)\<lparr>vState := st\<rparr>))"
    using assms(1,2) by (intro flow_step.mark) auto
  moreover have "(view_of c)\<lparr>vState := st\<rparr> = view_of (with_state st '''' c)"
    by (simp add: view_of_def with_state_def)
  ultimately show "reach L c (with_state st '''' c)" using reach_step assms(3) by metis
qed (use assms(4) in auto)

lemma sim_MarkWaitingEvent:
  assumes "\<And>c. Some c \<in> K \<Longrightarrow> \<not> terminal_state (State c)" and "Await event \<in> L"
  shows "triple (simK s0 L K) (MarkWaitingEvent F wn fid event) (\<lambda>_. sim s0 L) (sim s0 L)"
  unfolding MarkWaitingEvent_def
proof (rule sim_changeStateWithEvent)
  fix c assume "Some c \<in> K"
  then have "flow_step fl (Some (view_of c)) (Await event) (Some ((view_of c)\<lparr>vState := WAITING_EVENT,
      vEvent := (if event = '''' then vEvent (view_of c) else event)\<rparr>))"
    using assms(1) by (intro flow_step.await) auto
  moreover have "(view_of c)\<lparr>vState := WAITING_EVENT,
      vEvent := (if event = '''' then vEvent (view_of c) else event)\<rparr> =
      view_of (with_state WAITING_EVENT event c)"
    by (simp add: view_of_def with_state_def)
  ultimately show "reach L c (with_state WAITING_EVENT event c)" using reach_step assms(2) by metis
qed auto

lemma sim_MarkPaused:
  assumes "Pause \<in> L"
  shows "triple (sim s0 L) (MarkPaused F wn fid) (\<lambda>_. sim s0 L) (sim s0 L)"
proof -
  have "simK s0 L UNIV = sim s0 L" by (simp add: simK_def fun_eq_iff)
  moreover have "triple (simK s0 L UNIV) (MarkPaused F wn fid) (\<lambda>_. sim s0 L) (sim s0 L)"
    unfolding MarkPaused_def changeState_def
  proof (rule sim_changeStateWithEvent)
    fix c
    have "(view_of c)\<lparr>vState := PAUSED\<rparr> = view_of (with_state PAUSED '''' c)"
      by (simp add: view_of_def with_state_def)
    then show "reach L c (with_state PAUSED '''' c)" using flow_step.pause reach_step assms by metis
  qed auto
  ultimately show ?thesis by simp
qed

subsection \<open>Moves\<close>

lemma sim_saveDispatch:
  assumes "reach L c c'"
  shows "triple (sim_at s0 L c) (saveContextAndDispatchAction F wn fid ids g c')
    (\<lambda>_. sim s0 L) (sim s0 L)"
  unfolding saveContextAndDispatchAction_def
proof (rule triple_bind [where R = "\<lambda>_. sim_at s0 L c"])
  show "triple (sim_at s0 L c) (liftR (build_requests g ids)) (\<lambda>_. sim_at s0 L c) (sim s0 L)"
    by (rule triple_liftR) (auto dest: sim_atD)
  show "triple (sim_at s0 L c)
      (onWorld (st_SaveFlowContextAndDispatchAction (engStorage F) wn fid c' actions))
      (\<lambda>_. sim s0 L) (sim s0 L)" for actions
    using sim_Dispatch [OF assms] by (rule triple_conseq) (auto dest: simKD)
qed

text \<open>What \<open>ValidateAction\<close> and the test for a paused run establish, and where \<open>MoveForward\<close>
  leads then.\<close>

lemma may_move_view:
  assumes "smFlow sm = fl" and "ValidateAction sm a = None" and "resume \<or> GetState sm \<noteq> PAUSED"
    and "a \<in> fmdom' (flowActions fl)"
  shows "may_move fl (view_of (smContext sm)) a resume"
  using assms by (auto simp: may_move_def ValidateAction_None_iff GetState_def)

lemma MoveForward_step:
  assumes "smFlow sm = fl" and "ValidateAction sm a = None" and "resume \<or> GetState sm \<noteq> PAUSED"
    and mf: "MoveForward (engRuntime F) sm a event dataMap = Val ((cmpl, ids), sm1)"
  shows "cmpl \<Longrightarrow> flow_step fl (Some (view_of (smContext sm))) (Finish a resume) (Some (view_of (smContext sm1)))"
    and "cmpl \<Longrightarrow> flow_step fl (Some (view_of (smContext sm))) (LostFinish a resume)
          (Some (view_of ((smContext sm)\<lparr>State := COMPLETED\<rparr>)))"
    and "\<not> cmpl \<Longrightarrow> flow_step fl (Some (view_of (smContext sm))) (Move a event resume)
          (Some (view_of ((smContext sm1)\<lparr>State := RUNNING\<rparr>)))"
    and "smFlow sm1 = fl" and "cmpl \<Longrightarrow> State (smContext sm1) = COMPLETED"
proof -
  note M = MoveForward_Val [OF mf]
  have may: "may_move fl (view_of (smContext sm)) a resume"
    using may_move_view assms(1-3) M(1) by simp
  have fin: "cmpl \<longleftrightarrow> finished fl (insert a (vExecuted (view_of (smContext sm))))"
    using M(3,4) assms(1) isComplete_iff [OF fair] by (simp add: finished_def)
  show "smFlow sm1 = fl" "cmpl \<Longrightarrow> State (smContext sm1) = COMPLETED" using M(2,7) assms(1) by simp_all
  { assume c: "cmpl"
    then have "view_of (smContext sm1) = (view_of (smContext sm))\<lparr>vState := COMPLETED,
        vCurrent := fmdrop a (vCurrent (view_of (smContext sm))),
        vExecuted := insert a (vExecuted (view_of (smContext sm)))\<rparr>"
      using M(3,5-8) by (simp add: view_of_def schedule_def)
    then show "flow_step fl (Some (view_of (smContext sm))) (Finish a resume) (Some (view_of (smContext sm1)))"
      using flow_step.finish [OF may] fin c by simp
    have lost: "view_of ((smContext sm)\<lparr>State := COMPLETED\<rparr>) = (view_of (smContext sm))\<lparr>vState := COMPLETED\<rparr>"
      by (simp add: view_of_def)
    show "flow_step fl (Some (view_of (smContext sm))) (LostFinish a resume)
          (Some (view_of ((smContext sm)\<lparr>State := COMPLETED\<rparr>)))"
      unfolding lost using flow_step.lost [OF may] fin c by blast }
  assume c: "\<not> cmpl"
  then have "view_of ((smContext sm1)\<lparr>State := RUNNING\<rparr>) = moved fl a event (view_of (smContext sm))"
    using M(3,5-8) assms(1) by (simp add: view_of_def moved_def)
  then show "flow_step fl (Some (view_of (smContext sm))) (Move a event resume)
          (Some (view_of ((smContext sm1)\<lparr>State := RUNNING\<rparr>)))"
    using flow_step.move [OF may] fin c by simp
qed

lemma sim_MarkComplete:
  assumes "State c' = COMPLETED" and "reach L c (c\<lparr>State := COMPLETED\<rparr>)" and "Remove \<in> L"
  shows "triple (simK s0 L {Some c, Some (img c')}) (MarkComplete F wn fid h) (\<lambda>_. sim s0 L) (sim s0 L)"
  unfolding MarkComplete_def changeState_def
proof (rule sim_changeStateWithEvent)
  fix d assume "Some d \<in> {Some c, Some (img c')}"
  moreover have "view_of (with_state COMPLETED '''' (img c')) = view_of (img c')"
    using assms(1) by (simp add: with_state_def view_of_def)
  then have "reach L (img c') (with_state COMPLETED '''' (img c'))" by (rule reach_same)
  moreover have "with_state COMPLETED '''' c = c\<lparr>State := COMPLETED\<rparr>" by (simp add: with_state_def)
  ultimately show "reach L d (with_state COMPLETED '''' d)" using assms(2) by auto
qed (use assms(3) in auto)

text \<open>The two ways \<open>execute\<close> goes on after \<open>MoveForward\<close>.\<close>

lemma sim_finish:
  assumes "reach L c c'" and "reach L c (c\<lparr>State := COMPLETED\<rparr>)" and "State c' = COMPLETED" and "Remove \<in> L"
  shows "triple (sim_at s0 L c)
    (bindM (onWorld (st_SaveFlowContext (engStorage F) wn fid c')) (\<lambda>_. MarkComplete F wn fid h))
    (\<lambda>_. sim s0 L) (sim s0 L)"
  by (rule triple_bind [OF sim_Save sim_MarkComplete]) (use assms in auto)

lemma sim_move:
  assumes "reach L c (smContext sm)" and "smFlow sm = fl"
  shows "triple (sim_at s0 L c)
    (bindM (container_Store wn fid sm) (\<lambda>_.
       bindM (saveContextAndDispatchAction F wn fid ids (smFlow sm) (smContext sm)) (\<lambda>_. ret ())))
    (\<lambda>_. sim s0 L) (sim s0 L)"
  using assms by (intro triple_bind [OF sim_Store(2) triple_forget] sim_saveDispatch)

lemma sim_execute:
  assumes "{Move a event resume, Finish a resume, LostFinish a resume, Remove} \<subseteq> L"
  shows "triple (sim s0 L) (execute F wn fid a event dataMap resume) (\<lambda>_. sim s0 L) (sim s0 L)"
  unfolding execute_def
proof (intro sim_with_machine triple_option triple_if)
  fix sm :: FlowStateMachine
  assume fl: "smFlow sm = fl" and v: "ValidateAction sm a = None" and p: "\<not> (\<not> resume \<and> GetState sm = PAUSED)"
  show "triple (sim_at s0 L (smContext sm))
      (bindM (liftR (MoveForward (engRuntime F) sm a event dataMap)) (\<lambda>((completed, actionIdsToDispatch), sm1).
              bindM (container_Store wn fid sm1) (\<lambda>_.
              if completed then
                bindM (onWorld (st_SaveFlowContext (engStorage F) wn fid (smContext sm1))) (\<lambda>_.
                MarkComplete F wn fid (SuccessHandler (smFlow sm1)))
              else
                let sm2 = sm1\<lparr>smContext := (smContext sm1)\<lparr>State := RUNNING\<rparr>\<rparr> in
                bindM (container_Store wn fid sm2) (\<lambda>_.
                bindM (saveContextAndDispatchAction F wn fid actionIdsToDispatch (smFlow sm2) (smContext sm2))
                  (\<lambda>_. ret ())))))
      (\<lambda>_. sim s0 L) (sim s0 L)"
  proof (rule triple_bind_liftR, clarify)
    fix cmpl ids sm1
    assume mf: "MoveForward (engRuntime F) sm a event dataMap = Val ((cmpl, ids), sm1)"
    have "resume \<or> GetState sm \<noteq> PAUSED" using p by blast
    note M = MoveForward_step [OF fl v this mf]
    have L: "Finish a resume \<in> L" "LostFinish a resume \<in> L" "Move a event resume \<in> L" "Remove \<in> L" using assms by auto
    have fin: "reach L (smContext sm) (smContext sm1)" "reach L (smContext sm) ((smContext sm)\<lparr>State := COMPLETED\<rparr>)"
      if cmpl using reach_step [OF M(1) L(1)] reach_step [OF M(2) L(2)] that by blast+
    let ?sm2 = "sm1\<lparr>smContext := (smContext sm1)\<lparr>State := RUNNING\<rparr>\<rparr>"
    have move: "reach L (smContext sm) (smContext ?sm2)" if "\<not> cmpl" using reach_step [OF M(3) L(3)] that by simp
    have fl2: "smFlow ?sm2 = fl" using M(4) by simp
    show "triple (sim_at s0 L (smContext sm)) (bindM (container_Store wn fid sm1) (\<lambda>_.
        if cmpl then bindM (onWorld (st_SaveFlowContext (engStorage F) wn fid (smContext sm1))) (\<lambda>_.
            MarkComplete F wn fid (SuccessHandler (smFlow sm1)))
        else let sm2 = sm1\<lparr>smContext := (smContext sm1)\<lparr>State := RUNNING\<rparr>\<rparr> in
            bindM (container_Store wn fid sm2) (\<lambda>_.
              bindM (saveContextAndDispatchAction F wn fid ids (smFlow sm2) (smContext sm2)) (\<lambda>_. ret ()))))
        (\<lambda>_. sim s0 L) (sim s0 L)"
      by (rule triple_bind [OF sim_Store(2) [OF M(4)] triple_if])
        (rule sim_finish [OF fin M(5) L(4)], assumption+, rule triple_let, rule sim_move [OF move fl2])
  qed (rule sim_atD)
qed (rule triple_ret, (erule sim_atD | assumption))+

subsection \<open>System actions\<close>

lemma sim_at_simK: "sim_at s0 L c = simK s0 L {Some c}"
  by (simp add: sim_at_def simK_def fun_eq_iff)

lemma sim_UNIV: "simK s0 L UNIV = sim s0 L"
  by (simp add: simK_def fun_eq_iff)

lemma sim_ret: "triple (sim s0 L) (ret x) (\<lambda>_. sim s0 L) E"
  by auto

lemma simK_ret: "triple (simK s0 L K) (ret x) (\<lambda>_. sim s0 L) E"
  by (auto dest: simKD)

lemma simK_liftR: "triple (simK s0 L K) (liftR r) (\<lambda>_. simK s0 L K) (sim s0 L)"
  by (rule triple_liftR) (auto dest: simKD)

lemma simK_panic: "triple (simK s0 L K) (liftR (Panic p)) Q (sim s0 L)"
  by (rule triple_liftR) (auto dest: simKD)

lemma sim_at_ret: "triple (sim_at s0 L c) (ret x) (\<lambda>_. sim s0 L) E"
  by (auto dest: sim_atD)

lemmas sim_exits = sim_ret simK_ret sim_at_ret simK_panic

lemma simK_Delay: "triple (simK s0 L K) (DelayFlowAction F wn fid name a d) (\<lambda>_. simK s0 L K) (sim s0 L)"
proof -
  have D: "triple (simK s0 L {Some c}) (onWorld (st_Delay (engStorage F) wn fid name a d))
      (\<lambda>_. simK s0 L {Some c}) (sim s0 L)" for c
    unfolding sim_at_simK [symmetric] by (rule sim_onWorld) (simp_all add: delay_frame storage_defs)
  have K: "Some c \<in> K \<Longrightarrow> simK s0 L {Some c} s \<Longrightarrow> simK s0 L K s" for c s
    by (auto simp: simK_def)
  show ?thesis
    unfolding DelayFlowAction_def
  proof (rule sim_with_machine_K)
    fix sm :: FlowStateMachine assume "Some (smContext sm) \<in> K"
    then show "triple (sim_at s0 L (smContext sm)) (case ValidateAction sm a of
          Some _ \<Rightarrow> ret ()
        | None \<Rightarrow> bindM (onWorld (st_Delay (engStorage F) wn fid name a d)) (\<lambda>_. ret ()))
        (\<lambda>_. simK s0 L K) (sim s0 L)"
      unfolding sim_at_simK using K
      by (intro triple_option triple_bind [OF D]) auto
  qed auto
qed

lemma sim_record_K: "triple (simK s0 L K) (record_event ev) (\<lambda>_. simK s0 L K) (sim s0 L)"
  unfolding simK_def
  by (rule triple_keeps_conj [where R = "\<lambda>s s'. world s' = world s", OF sim_record])
    (auto simp: keeps_def record_event_def split: option.splits)

lemma sim_MarkFailed:
  assumes "\<And>c. Some c \<in> K \<Longrightarrow> \<not> terminal_state (State c)" and "Mark FAILED \<in> L" and "Remove \<in> L"
  shows "triple (simK s0 L K) (MarkFailed F wn fid) (\<lambda>_. sim s0 L) (sim s0 L)"
  unfolding MarkFailed_def by (rule sim_Mark) (use assms in auto)

lemma sim_run_system_action:
  assumes nt: "\<not> terminal_state (State c)" and L: "labels_of (OpSystem a) \<subseteq> L"
  shows "triple (simK s0 L {Some c}) (run_system_action F wn fid a act event dataMap)
    (\<lambda>_. sim s0 L) (sim s0 L)"
proof -
  let ?d = "\<lambda>k. as_duration (fmlookup (GetParams act) k)"
  have delay: "triple (simK s0 L {Some c}) (bindM (MarkWaitingDelay F wn fid) (\<lambda>_.
        bindM (liftR (?d ''delay'')) (\<lambda>delay. DelayFlowAction F wn fid (GetName act) (GetId act) delay)))
      (\<lambda>_. sim s0 L) (sim s0 L)"
    unfolding MarkWaitingDelay_def
  proof (rule triple_bind [OF sim_Mark])
    show "triple (sim s0 L) (bindM (liftR (?d ''delay''))
        (\<lambda>delay. DelayFlowAction F wn fid (GetName act) (GetId act) delay)) (\<lambda>_. sim s0 L) (sim s0 L)"
      unfolding sim_UNIV [symmetric]
      by (rule triple_bind [OF simK_liftR [unfolded sim_UNIV [symmetric]]]) (use simK_Delay [of s0 L UNIV] in \<open>simp add: sim_UNIV\<close>)
  qed (use nt L in \<open>auto simp: move_labels_def\<close>)
  have wait: "triple (simK s0 L {Some c})
       (bindM (liftR (?d ''timeout'')) (\<lambda>timeout.
        bindM (liftR (as_string (fmlookup (GetParams act) ''event''))) (\<lambda>ev.
        bindM (if timeout \<noteq> 0 then DelayFlowAction F wn fid (GetName act) (GetId act) timeout else ret ())
          (\<lambda>_. MarkWaitingEvent F wn fid ev)))) (\<lambda>_. sim s0 L) (sim s0 L)"
    by (intro triple_bind [OF simK_liftR] triple_bind [where R = "\<lambda>_. simK s0 L {Some c}"] triple_if simK_Delay
        sim_MarkWaitingEvent) (use nt L in auto)
  have move: "triple (simK s0 L {Some c}) (ExecuteAction F wn fid event a dataMap) (\<lambda>_. sim s0 L) (sim s0 L)"
    unfolding ExecuteAction_def
    by (rule triple_pre [OF sim_execute]) (use L in \<open>auto simp: move_labels_def dest: simKD\<close>)
  show ?thesis
    unfolding run_system_action_def by (intro triple_if delay wait move)
qed

lemma not_terminal: "ValidateAction sm a = None \<Longrightarrow> \<not> terminal_state (State (smContext sm))"
  by (simp add: ValidateAction_None_iff)

lemma sim_ExecuteSystemAction:
  assumes L: "labels_of (OpSystem a) \<subseteq> L"
  shows "triple (sim s0 L) (ExecuteSystemAction F wn fid a) (\<lambda>_. sim s0 L) (sim s0 L)"
  unfolding ExecuteSystemAction_def
proof (rule sim_with_machine, unfold sim_at_simK, intro triple_option)
  fix sm :: FlowStateMachine and act
  assume v: "ValidateAction sm a = None"
  let ?K = "{Some (smContext sm)}"
  have fail: "triple (simK s0 L ?K) (bindM (RecordActionFailure wn fid (GetName act) a ''action failed'')
      (\<lambda>_. MarkFailed F wn fid)) (\<lambda>_. sim s0 L) (sim s0 L)"
    unfolding RecordActionFailure_def
    by (rule triple_bind [OF sim_record_K sim_MarkFailed])
      (use L not_terminal [OF v] in \<open>auto simp: move_labels_def\<close>)
  have ok: "triple (simK s0 L ?K) (bindM (run_system_action F wn fid a act event dataMap)
      (\<lambda>_. RecordActionSuccess wn fid (GetName act) a dataMap)) (\<lambda>_. sim s0 L) (sim s0 L)" for event dataMap
    unfolding RecordActionSuccess_def
    by (rule triple_bind [OF sim_run_system_action [OF not_terminal [OF v] L] sim_record])
  show "triple (simK s0 L ?K) (bindM (liftR (Execute (engExternals F) act (smContext sm)))
       (\<lambda>res. case res of
          Inl _ \<Rightarrow> bindM (RecordActionFailure wn fid (GetName act) a ''action failed'') (\<lambda>_. MarkFailed F wn fid)
        | Inr (event, dataMap) \<Rightarrow>
            if GetType act = SYSTEM then
              bindM (run_system_action F wn fid a act event dataMap) (\<lambda>_.
              RecordActionSuccess wn fid (GetName act) a dataMap)
            else ret ())) (\<lambda>_. sim s0 L) (sim s0 L)"
    by (rule triple_bind [OF simK_liftR])
      (auto intro!: triple_sum fail ok sim_exits split: prod.splits)
qed (rule sim_exits)+

subsection \<open>Retries\<close>

lemma sim_with_definition:
  assumes "\<And>sm d. smFlow sm = fl \<Longrightarrow> ValidateAction sm a = None \<Longrightarrow>
    triple (simK s0 L {Some (smContext sm)}) (body sm d) (\<lambda>_. sim s0 L) (sim s0 L)"
  shows "triple (sim s0 L) (with_definition F wn fid a body) (\<lambda>_. sim s0 L) (sim s0 L)"
  unfolding with_definition_def
proof (rule sim_with_machine, unfold sim_at_simK, intro triple_option)
  fix sm :: FlowStateMachine and act
  assume fl: "smFlow sm = fl" and v: "ValidateAction sm a = None"
  have "triple (simK s0 L {Some (smContext sm)}) (onWorld (ms_GetActionDefinition (engMetadata F) (GetName act)))
      (\<lambda>_. simK s0 L {Some (smContext sm)}) (sim s0 L)"
    unfolding sim_at_simK [symmetric] by (rule sim_onWorld) (simp_all add: action_frame)
  then show "triple (simK s0 L {Some (smContext sm)})
      (bindM (onWorld (ms_GetActionDefinition (engMetadata F) (GetName act))) (\<lambda>d. case d of
                 Inl _ \<Rightarrow> ret () | Inr def \<Rightarrow> body sm def)) (\<lambda>_. sim s0 L) (sim s0 L)"
    by (rule triple_bind) (intro triple_sum sim_exits assms fl v)
qed (rule sim_exits)+

lemma sim_st_Retry:
  "triple (simK s0 L {Some c}) (bindM (onWorld (st_Retry (engStorage F) wn fid name a d)) (\<lambda>_. ret ()))
     (\<lambda>_. sim s0 L) (sim s0 L)"
proof (rule triple_forget, rule triple_pre)
  show "triple (sim s0 L) (onWorld (st_Retry (engStorage F) wn fid name a d)) (\<lambda>_. sim s0 L) (sim s0 L)"
    by (rule sim_onWorld) (simp_all add: retry_frame storage_defs)
qed (auto dest: simKD)

lemma sim_RetryFailedAction:
  assumes "{Mark FAILED, Remove} \<subseteq> L"
  shows "triple (sim s0 L) (RetryFailedAction F wn fid name a) (\<lambda>_. sim s0 L) (sim s0 L)"
  unfolding RetryFailedAction_def Let_def
  by (intro sim_with_definition triple_if sim_st_Retry sim_MarkFailed) (use assms not_terminal in auto)

lemma sim_RetryTimedoutAction:
  assumes "{Mark FAILED, Remove} \<subseteq> L"
  shows "triple (sim s0 L) (RetryTimedoutAction F wn fid name a) (\<lambda>_. sim s0 L) (sim s0 L)"
  unfolding RetryTimedoutAction_def RecordActionFailure_def
  by (intro sim_with_definition triple_if sim_st_Retry triple_bind [OF sim_record_K] sim_MarkFailed)
    (use assms not_terminal in auto)

lemma sim_ExecuteRetry:
  assumes "Bump a \<in> L"
  shows "triple (sim s0 L) (ExecuteRetry F wn fid a) (\<lambda>_. sim s0 L) (sim s0 L)"
  unfolding ExecuteRetry_def
proof (rule sim_with_machine, intro triple_option)
  fix sm :: FlowStateMachine
  assume fl: "smFlow sm = fl" and v: "ValidateAction sm a = None"
  let ?c = "bump_try a (smContext sm)"
  let ?sm = "sm\<lparr>smContext := ?c\<rparr>"
  have "triple (sim_at s0 L (smContext sm)) (saveContextAndDispatchAction F wn fid [a] fl ?c)
      (\<lambda>_. sim s0 L) (sim s0 L)"
  proof (cases "fmlookup (flowActions fl) a")
    case None
    then show ?thesis
      by (auto simp: triple_def saveContextAndDispatchAction_def run_simps dest: sim_atD)
  next
    case (Some act)
    then have "may_move fl (view_of (smContext sm)) a True"
      using fl v by (intro may_move_view) (auto intro: fmdom'I)
    from flow_step.bump [OF this] have "flow_step fl (Some (view_of (smContext sm))) (Bump a) (Some (view_of ?c))"
      by (simp add: view_of_def bump_try_def)
    then show ?thesis by (intro sim_saveDispatch reach_step [OF _ assms])
  qed
  then have "triple (sim_at s0 L (smContext sm)) (bindM (container_Store wn fid ?sm) (\<lambda>_.
      bindM (saveContextAndDispatchAction F wn fid [a] fl ?c) (\<lambda>_. ret ()))) (\<lambda>_. sim s0 L) (sim s0 L)"
    by (intro triple_bind [OF sim_Store(2)] triple_forget) (use fl in simp_all)
  then show "triple (sim_at s0 L (smContext sm)) (let sm1 = ?sm in bindM (container_Store wn fid sm1) (\<lambda>_.
      bindM (saveContextAndDispatchAction F wn fid [a] (smFlow sm1) (smContext sm1)) (\<lambda>_. ret ())))
      (\<lambda>_. sim s0 L) (sim s0 L)"
    using fl by (simp add: Let_def)
qed (unfold sim_at_simK, (rule sim_exits)+)

subsection \<open>Resuming and starting\<close>

lemma sim_executes:
  assumes "\<And>k. {Move k event resume, Finish k resume, LostFinish k resume, Remove} \<subseteq> L"
  shows "triple (sim s0 L) (forM ks (\<lambda>k. execute F wn fid k event None resume)) (\<lambda>_. sim s0 L) (sim s0 L)"
  by (intro triple_forM sim_execute assms)

lemma sim_ExecuteResume:
  assumes "labels_of (OpResume event) \<subseteq> L"
  shows "triple (sim s0 L) (ExecuteResume F wn fid event) (\<lambda>_. sim s0 L) (sim s0 L)"
  unfolding ExecuteResume_def ExecuteActionResume_def Let_def
  by (intro sim_with_machine triple_if sim_exits triple_pre [OF sim_executes])
    (use assms in \<open>auto simp: sim_at_def\<close>)

lemma sim_ExecuteResumeAfterWait:
  assumes "labels_of (OpConsume event) \<subseteq> L"
  shows "triple (sim s0 L) (ExecuteResumeAfterWait F wn fid event) (\<lambda>_. sim s0 L) (sim s0 L)"
  unfolding ExecuteResumeAfterWait_def ExecuteAction_def Let_def
  by (intro sim_with_machine triple_if sim_exits triple_bind [OF triple_pre [OF sim_executes]])
    (use assms in \<open>auto simp: sim_at_def\<close>)

abbreviation new_machine :: "anymap option \<Rightarrow> FlowStateMachine" where
  "new_machine input \<equiv> NewFlowStateMachine wn fid (initial_context fid (RootAction fl) input) fl"

lemma sim_start:
  assumes "Start \<in> L"
  shows "triple (sim s0 L) (bindM (saveContextAndDispatchAction F wn fid ids g (initial_context fid (RootAction fl) input))
    (\<lambda>_. ret None)) (\<lambda>_. sim s0 L) (sim s0 L)"
proof -
  let ?c = "initial_context fid (RootAction fl) input"
  have start: "view_of ?c = start_view fl"
    by (simp add: view_of_def start_view_def initial_context_def)
  have "sim s0 L (s\<lparr>world := w'\<rparr>)" if "sim s0 L s"
    and w: "st_SaveFlowContextAndDispatchAction (engStorage F) wn fid ?c reqs (world s) = (r, w')" for s r w' reqs
    using dispatch_cases [of wn fid ?c reqs "world s"] storage_defs(3) [of wn fid ?c reqs "world s"] w
    by (intro sim_step [OF that(1), where ls = "[Start]" and c' = "Some (img ?c)"])
      (use assms start in \<open>auto intro: flow_step.start\<close>)
  then have "triple (sim s0 L) (onWorld (st_SaveFlowContextAndDispatchAction (engStorage F) wn fid ?c reqs))
      (\<lambda>_. sim s0 L) (sim s0 L)" for reqs
    by (simp add: triple_def onWorld_run) (metis prod.collapse)
  then show ?thesis
    unfolding saveContextAndDispatchAction_def bindM_assoc
    by (intro triple_bind_liftR triple_bind) auto
qed

lemma sim_container_Init:
  "triple (sim s0 L) (container_Init F wn fid input)
    (\<lambda>r s. sim s0 L s \<and> (\<forall>sm. r = Inr sm \<longrightarrow> sm = new_machine input)) (sim s0 L)"
  unfolding container_Init_def
proof (rule triple_bind [OF sim_GetFlow(1)], rule triple_pure, intro triple_sum triple_let)
  fix r f assume "\<forall>g. r = Inr g \<longrightarrow> g = fl" and "r = Inr f"
  then have f: "f = fl" by simp
  show "triple (sim s0 L)
      (bindM (container_Store wn fid (NewFlowStateMachine wn fid (initial_context fid (RootAction f) input) f))
        (\<lambda>_. ret (Inr (NewFlowStateMachine wn fid (initial_context fid (RootAction f) input) f))))
      (\<lambda>r s. sim s0 L s \<and> (\<forall>sm. r = Inr sm \<longrightarrow> sm = new_machine input)) (sim s0 L)"
    unfolding f by (rule triple_bind [OF sim_Store(1)]) (auto simp: NewFlowStateMachine_def)
qed auto

lemma sim_Init:
  assumes "Start \<in> L"
  shows "triple (sim s0 L) (Init F wn fid input) (\<lambda>_. sim s0 L) (sim s0 L)"
  unfolding Init_def
proof (rule triple_bind [OF sim_container_Init], rule triple_pure, intro triple_sum sim_exits)
  fix r sm assume "\<forall>sm. r = Inr sm \<longrightarrow> sm = new_machine input" and "r = Inr sm"
  then have "sm = new_machine input" by simp
  then show "triple (sim s0 L) (bindM (saveContextAndDispatchAction F wn fid [RootAction (smFlow sm)]
      (smFlow sm) (smContext sm)) (\<lambda>_. ret None)) (\<lambda>_. sim s0 L) (sim s0 L)"
    using sim_start [OF assms] by (simp add: NewFlowStateMachine_def)
qed

subsection \<open>Every operation\<close>

lemma sim_op: "labels_of op \<subseteq> L \<Longrightarrow> triple (sim s0 L) (run_op F wn fid op) (\<lambda>_. sim s0 L) (sim s0 L)"
  by (cases op)
    (auto simp: ExecuteAction_def ExecuteDelay_def simp del: labels_of.simps(3,8,9)
      intro!: triple_forget sim_Init sim_execute sim_ExecuteSystemAction
      sim_RetryFailedAction sim_RetryTimedoutAction sim_ExecuteRetry sim_ExecuteResume
      sim_ExecuteResumeAfterWait sim_MarkPaused)

lemma op_refines:
  assumes "coherent defs wn fid wfl fl s"
  shows "coherent defs wn fid wfl fl (snd (run_op F wn fid op s))"
    and "refines_run ctxs fl wn fid (labels_of op) s (snd (run_op F wn fid op s))"
proof -
  obtain r s' where r: "run_op F wn fid op s = (r, s')" by fastforce
  have "sim s (labels_of op) s'"
    using sim_op [of op "labels_of op" s] sim_refl [OF assms, of "labels_of op"] r
    by (cases r) (auto simp: triple_def)
  then show "coherent defs wn fid wfl fl (snd (run_op F wn fid op s))"
    and "refines_run ctxs fl wn fid (labels_of op) s (snd (run_op F wn fid op s))"
    using r by (simp_all add: sim_def)
qed

subsection \<open>Results that come too late\<close>

lemma Get_result:
  assumes "coherent defs wn fid wfl fl s" and "container_Get F wn fid s = (r, s1)"
  shows "ctxs (world s1) = ctxs (world s)"
    and "r = Val (Inr sm) \<Longrightarrow> ctxs (world s) (wn, fid) = Some (smContext sm) \<and> smFlow sm = fl"
proof -
  show c: "ctxs (world s1) = ctxs (world s)"
    using Get_contexts [of wn fid] assms(2) by (auto simp: keeps_def dest: spec [of _ s])
  have r: "case r of Val x \<Rightarrow> got s UNIV x s1 | Panic p \<Rightarrow> sim s UNIV s1"
    by (rule tripleD [OF sim_Get sim_refl [OF assms(1)] assms(2)])
  assume "r = Val (Inr sm)"
  then show "ctxs (world s) (wn, fid) = Some (smContext sm) \<and> smFlow sm = fl"
    using r c by (simp add: sim_at_def)
qed

text \<open>An operation on an action that has been executed, or on a run that is finished, does not
  change the stored contexts.\<close>

lemma late_result_ignored:
  assumes coh: "coherent defs wn fid wfl fl s" and a: "op_action op = Some a"
    and late: "\<And>c. ctxs (world s) (wn, fid) = Some c \<Longrightarrow>
      terminal_state (State c) \<or> a \<in> fmdom' (ExecutedActions c)"
  shows "ctxs (world (snd (run_op F wn fid op s))) = ctxs (world s)"
proof -
  obtain r s1 where g: "container_Get F wn fid s = (r, s1)" by fastforce
  note G = Get_result [OF coh g]
  have "ValidateAction sm a \<noteq> None" if "r = Val (Inr sm)" for sm
    using G(2) [OF that] late [of "smContext sm"] ValidateAction_None_iff [of sm a] by blast
  then have "snd (run_op F wn fid op s) = s1"
    using a g
    by (cases op)
      (auto simp: ExecuteAction_def execute_def ExecuteSystemAction_def ExecuteDelay_def ExecuteRetry_def
        RetryFailedAction_def RetryTimedoutAction_def with_definition_def run_simps
        split: res.splits sum.splits option.splits)
  then show ?thesis using G(1) by simp
qed

subsection \<open>Events\<close>

text \<open>An event is consumed only by a run that is stored, not finished and awaits this event;
  otherwise an error is returned and the stored contexts stay as they are.\<close>

lemma consume_event:
  assumes "coherent defs wn fid wfl fl s"
    and "ExecuteResumeAfterWait F wn fid event s = (Val res, s')"
  shows "res = None \<Longrightarrow> \<exists>c. ctxs (world s) (wn, fid) = Some c \<and> Event c = event \<and> \<not> terminal_state (State c)"
    and "res \<noteq> None \<Longrightarrow> ctxs (world s') = ctxs (world s)"
proof -
  obtain r s1 where g: "container_Get F wn fid s = (r, s1)" by fastforce
  note G = Get_result [OF assms(1) g]
  show "\<exists>c. ctxs (world s) (wn, fid) = Some c \<and> Event c = event \<and> \<not> terminal_state (State c)" if n: "res = None"
  proof -
    obtain sm where sm: "r = Val (Inr sm)"
      using assms(2) g n
      by (auto simp: ExecuteResumeAfterWait_def run_simps split: res.splits sum.splits)
    then have "ctxs (world s) (wn, fid) = Some (smContext sm)" using G(2) by blast
    moreover have "Event (smContext sm) = event \<and> \<not> terminal_state (State (smContext sm))"
      using assms(2) g sm n
      by (auto simp: ExecuteResumeAfterWait_def run_simps Let_def terminal_state_def split: if_splits)
    ultimately show ?thesis by blast
  qed
  show "ctxs (world s') = ctxs (world s)" if "res \<noteq> None"
  proof -
    have "s' = s1"
      using assms(2) g that
      by (auto simp: ExecuteResumeAfterWait_def run_simps Let_def split: res.splits sum.splits if_splits prod.splits)
    then show ?thesis using G(1) by simp
  qed
qed

end

end
