(* ===== verification/Redis_Metadata.thy ===== *)
theory Redis_Metadata
  imports Redis_Storage Engine_Refinement
begin

text \<open>
  The Redis metadata storage, \<open>src/persistence/redis/metadata.go\<close>: workflow definitions are
  string keys, action definitions fields of one hash. The end of the theory puts the engine on
  top of the Redis storages and discharges the contract of \<open>Engine_Refinement\<close> for them.
\<close>

section \<open>Definitions\<close>

record 'w redisMetadataStorage =
  rmDao :: "'w baseDao"
  workflowEncoderDecoder :: "Workflow EncoderDecoder"
  actionEncoderDecoder :: "ActionDefinition EncoderDecoder"

definition WORKFLOW_DEF :: string where
  "WORKFLOW_DEF = ''WORKFLOW''"

definition ACTION_DEF :: string where
  "ACTION_DEF = ''ACTION''"

definition workflow_key :: "'w redisMetadataStorage \<Rightarrow> string \<Rightarrow> string" where
  "workflow_key rfd name = getNamespaceKey (rmDao rfd) [WORKFLOW_DEF, name]"

definition action_key :: "'w redisMetadataStorage \<Rightarrow> string" where
  "action_key td = getNamespaceKey (rmDao td) [ACTION_DEF]"

definition mdo :: "'w redisMetadataStorage \<Rightarrow> redis_cmd \<Rightarrow> 'w \<Rightarrow> (string + reply) \<times> 'w" where
  "mdo m = rc_do (redisClient (rmDao m))"

definition client_error :: "string + 'a \<Rightarrow> error option" where
  "client_error r = (case r of Inl e \<Rightarrow> Some (ExternalError e) | Inr _ \<Rightarrow> None)"

text \<open>An action operation reports \<open>StorageLayerError\<close> with an empty message.\<close>

definition blank_error :: "string + 'a \<Rightarrow> error option" where
  "blank_error r = (case r of Inl e \<Rightarrow> Some (StorageLayerError '''') | Inr _ \<Rightarrow> None)"

definition SaveWorkflowDefinition :: "'w redisMetadataStorage \<Rightarrow> Workflow \<Rightarrow> 'w \<Rightarrow> error option \<times> 'w" where
  "SaveWorkflowDefinition rfd wfl w =
     (case Encode (workflowEncoderDecoder rfd) wfl of
        Inl err \<Rightarrow> (Some err, w)
      | Inr data \<Rightarrow> (case mdo rfd (SET (workflow_key rfd (wfName wfl)) data) w of (x, w') \<Rightarrow> (client_error x, w')))"

definition DeleteWorkflowDefinition :: "'w redisMetadataStorage \<Rightarrow> string \<Rightarrow> 'w \<Rightarrow> error option \<times> 'w" where
  "DeleteWorkflowDefinition rfd name w =
     (case mdo rfd (DEL (workflow_key rfd name)) w of (x, w') \<Rightarrow> (client_error x, w'))"

definition GetWorkflowDefinition :: "'w redisMetadataStorage \<Rightarrow> string \<Rightarrow> 'w \<Rightarrow> (error + Workflow) \<times> 'w" where
  "GetWorkflowDefinition rfd name w =
     (case mdo rfd (GET (workflow_key rfd name)) w of
        (Inr (Bulk val), w') \<Rightarrow> (Decode (workflowEncoderDecoder rfd) val, w')
      | (Inr _, w') \<Rightarrow> (Inl (ExternalError ''''), w')
      | (Inl err, w') \<Rightarrow> (Inl (ExternalError err), w'))"

definition SaveActionDefinition :: "'w redisMetadataStorage \<Rightarrow> ActionDefinition \<Rightarrow> 'w \<Rightarrow> error option \<times> 'w" where
  "SaveActionDefinition td action w =
     (case Encode (actionEncoderDecoder td) action of
        Inl err \<Rightarrow> (Some err, w)
      | Inr data \<Rightarrow> (case mdo td (HSET (action_key td) (dfName action) data) w of (x, w') \<Rightarrow> (blank_error x, w')))"

definition DeleteActionDefinition :: "'w redisMetadataStorage \<Rightarrow> string \<Rightarrow> 'w \<Rightarrow> error option \<times> 'w" where
  "DeleteActionDefinition td action w =
     (case mdo td (HDEL (action_key td) action) w of (x, w') \<Rightarrow> (blank_error x, w'))"

definition GetActionDefinition :: "'w redisMetadataStorage \<Rightarrow> string \<Rightarrow> 'w \<Rightarrow> (error + ActionDefinition) \<times> 'w" where
  "GetActionDefinition td action w =
     (case mdo td (HGET (action_key td) action) w of
        (Inr (Bulk actionStr), w') \<Rightarrow> (Decode (actionEncoderDecoder td) actionStr, w')
      | (_, w') \<Rightarrow> (Inl (StorageLayerError ''''), w'))"

definition NewRedisMetadataStorage :: "'w redisMetadataStorage \<Rightarrow> 'w MetadataStorage" where
  "NewRedisMetadataStorage m =
     \<lparr>ms_SaveWorkflowDefinition = SaveWorkflowDefinition m,
      ms_DeleteWorkflowDefinition = DeleteWorkflowDefinition m,
      ms_GetWorkflowDefinition = GetWorkflowDefinition m,
      ms_SaveActionDefinition = SaveActionDefinition m,
      ms_DeleteActionDefinition = DeleteActionDefinition m,
      ms_GetActionDefinition = GetActionDefinition m\<rparr>"

section \<open>Definitions as stored\<close>

definition redis_defs :: "'w redisMetadataStorage \<Rightarrow> keyspace \<Rightarrow> string \<Rightarrow> Workflow option" where
  "redis_defs m ks wn =
     (case strval ks (workflow_key m wn) of
        None \<Rightarrow> None
      | Some s \<Rightarrow> (case Decode (workflowEncoderDecoder m) s of Inl _ \<Rightarrow> None | Inr wfl \<Rightarrow> Some wfl))"

definition redis_actions :: "'w redisMetadataStorage \<Rightarrow> keyspace \<Rightarrow> string \<Rightarrow> ActionDefinition option" where
  "redis_actions m ks name =
     (case hfield ks (action_key m) name of
        None \<Rightarrow> None
      | Some s \<Rightarrow> (case Decode (actionEncoderDecoder m) s of Inl _ \<Rightarrow> None | Inr d \<Rightarrow> Some d))"

locale redis_metadata = redis_server "redisClient (rmDao m)" db
  for m :: "'w redisMetadataStorage" and db :: "'w \<Rightarrow> keyspace"
begin

lemma mdo_read:
  assumes "mdo m c w = (x, w')" and "snd (apply_cmd c (db w)) = db w"
  shows "db w' = db w" and "x = Inr y \<Longrightarrow> apply_cmd c (db w) = (Inr y, db w)"
  using do_spec [of c w x w'] assms unfolding mdo_def by auto

lemma mdo_ok: "mdo m c w = (Inr y, w') \<Longrightarrow> apply_cmd c (db w) = (Inr y, db w')"
  using do_spec [of c w "Inr y" w'] unfolding mdo_def by auto

lemma GET_reads: "snd (apply_cmd (GET k) ks) = ks"
  by (auto split: option.splits rvalue.splits)

lemma get_workflow:
  assumes "GetWorkflowDefinition m wn w = (x, w')"
  shows "db w' = db w" and "x = Inr wfl \<Longrightarrow> redis_defs m (db w) wn = Some wfl"
proof -
  obtain y where y: "mdo m (GET (workflow_key m wn)) w = (y, w')"
    using assms by (auto simp: GetWorkflowDefinition_def split: prod.splits sum.splits reply.splits)
  show "db w' = db w" by (rule mdo_read(1) [OF y GET_reads])
  assume "x = Inr wfl"
  then obtain v where v: "y = Inr (Bulk v)" "Decode (workflowEncoderDecoder m) v = Inr wfl"
    using assms y by (auto simp: GetWorkflowDefinition_def split: sum.splits reply.splits)
  then show "redis_defs m (db w) wn = Some wfl"
    using GET_strval mdo_read(2) [OF y GET_reads v(1)] by (fastforce simp: redis_defs_def)
qed

lemma get_action:
  assumes "GetActionDefinition m name w = (x, w')"
  shows "db w' = db w" and "x = Inr d \<Longrightarrow> redis_actions m (db w) name = Some d"
proof -
  obtain y where y: "mdo m (HGET (action_key m) name) w = (y, w')"
    using assms by (auto simp: GetActionDefinition_def split: prod.splits sum.splits reply.splits)
  show "db w' = db w" by (rule mdo_read(1) [OF y HGET_reads])
  assume "x = Inr d"
  then obtain v where v: "y = Inr (Bulk v)" "Decode (actionEncoderDecoder m) v = Inr d"
    using assms y by (auto simp: GetActionDefinition_def split: sum.splits reply.splits)
  then show "redis_actions m (db w) name = Some d"
    using HGET_hfield mdo_read(2) [OF y HGET_reads v(1)] by (fastforce simp: redis_actions_def)
qed

lemma workflow_key_inject: "workflow_key m wn = workflow_key m wn' \<longleftrightarrow> wn = wn'"
  by (simp add: workflow_key_def getNamespaceKey_def)

lemma save_workflow:
  assumes "SaveWorkflowDefinition m wfl w = (None, w')"
    and "Encode (workflowEncoderDecoder m) wfl = Inr s" and "Decode (workflowEncoderDecoder m) s = Inr wfl'"
  shows "redis_defs m (db w') = (redis_defs m (db w))(wfName wfl \<mapsto> wfl')"
proof -
  obtain y where y: "mdo m (SET (workflow_key m (wfName wfl)) s) w = (Inr y, w')"
    using assms by (auto simp: SaveWorkflowDefinition_def client_error_def split: prod.splits sum.splits)
  then have "db w' = fmupd (workflow_key m (wfName wfl)) (RString s) (db w)"
    using mdo_ok [OF y] by simp
  then show ?thesis
    using assms(3) by (auto simp: redis_defs_def strval_def fun_eq_iff workflow_key_inject)
qed

lemma delete_workflow:
  assumes "DeleteWorkflowDefinition m name w = (None, w')"
  shows "redis_defs m (db w') = (redis_defs m (db w))(name := None)"
proof -
  obtain y where y: "mdo m (DEL (workflow_key m name)) w = (Inr y, w')"
    using assms by (auto simp: DeleteWorkflowDefinition_def client_error_def split: prod.splits sum.splits)
  then have "db w' = fmdrop (workflow_key m name) (db w)" using mdo_ok [OF y] by simp
  then show ?thesis by (auto simp: redis_defs_def strval_def fun_eq_iff workflow_key_inject)
qed

end

section \<open>The engine on Redis\<close>

definition redis_engine :: "'w redisShardStorage \<Rightarrow> 'w redisMetadataStorage \<Rightarrow> runtime \<Rightarrow> externals \<Rightarrow> 'w FlowEngine" where
  "redis_engine r m rt ex =
     \<lparr>engStorage = NewRedisStorage r, engMetadata = NewRedisMetadataStorage m,
      engRuntime = rt, engExternals = ex\<rparr>"

locale redis_deployment = redis_store r db img + meta: redis_metadata m db
  for r :: "'w redisShardStorage" and db :: "'w \<Rightarrow> keyspace" and img :: "FlowContext \<Rightarrow> FlowContext"
    and m :: "'w redisMetadataStorage"
begin

lemma defs_cong: "strval ks' = strval ks \<Longrightarrow> redis_defs m ks' = redis_defs m ks"
  by (simp add: redis_defs_def fun_eq_iff)

lemma engine_env_redis:
  "engine_env (redis_engine r m rt ex) (\<lambda>w. redis_contexts r (db w)) img (\<lambda>w. redis_defs m (db w))"
proof (rule engine_env.intro)
  show "flow_store (engStorage (redis_engine r m rt ex)) (\<lambda>w. redis_contexts r (db w)) img"
    using store.flow_store_axioms by (simp add: redis_engine_def)
  let ?F = "redis_engine r m rt ex"
  have W: "db (snd (GetWorkflowDefinition m wn w)) = db w" for wn w
    by (cases "GetWorkflowDefinition m wn w") (simp add: meta.get_workflow(1))
  have A: "db (snd (GetActionDefinition m name w)) = db w" for name w
    by (cases "GetActionDefinition m name w") (simp add: meta.get_action(1))
  have G: "strval (db (snd (GetFlowContext r wn fid w))) = strval (db w)" for wn fid w
    by (cases "GetFlowContext r wn fid w") (simp add: get_contexts(2))
  have S: "strval (db (snd (SaveFlowContext r wn fid c w))) = strval (db w)" for wn fid c w
    by (cases "SaveFlowContext r wn fid c w") (simp add: save_contexts(3))
  have D: "strval (db (snd (SaveFlowContextAndDispatchAction r wn fid c reqs w))) = strval (db w)" for wn fid c reqs w
    by (cases "SaveFlowContextAndDispatchAction r wn fid c reqs w") (simp add: dispatch_contexts(3))
  have X: "strval (db (snd (DeleteFlowContext r wn fid w))) = strval (db w)" for wn fid w
    by (cases "DeleteFlowContext r wn fid w") (simp add: delete_contexts(3))
  show "engine_env_axioms ?F (\<lambda>w. redis_contexts r (db w)) (\<lambda>w. redis_defs m (db w))"
    by unfold_locales
      (auto simp: redis_engine_def NewRedisStorage_def NewRedisMetadataStorage_def Retry_def Delay_def W A
        dest: meta.get_workflow(2) intro!: defs_cong G S D X conjunct2 [OF add_frame])
qed

end

text \<open>Every operation of the engine on a Redis deployment takes only steps of the specification.\<close>

lemma redis_engine_run:
  assumes "redis_deployment r db img m" and "fair rt" and "build_flow rt wfl fid = Val fl"
  shows "engine_run (redis_engine r m rt ex) (\<lambda>w. redis_contexts r (db w)) img (\<lambda>w. redis_defs m (db w)) fid wfl fl"
  using assms(2,3) redis_deployment.engine_env_redis [OF assms(1)]
  by (intro engine_run.intro engine_run_axioms.intro) (simp_all add: redis_engine_def)

lemma redis_op_refines:
  assumes "redis_deployment r db img m" and "fair rt" and "build_flow rt wfl fid = Val fl"
    and "coherent (\<lambda>w. redis_defs m (db w)) wn fid wfl fl s"
  shows "coherent (\<lambda>w. redis_defs m (db w)) wn fid wfl fl (snd (run_op (redis_engine r m rt ex) wn fid op s))"
    and "refines_run (\<lambda>w. redis_contexts r (db w)) fl wn fid (labels_of op) s
      (snd (run_op (redis_engine r m rt ex) wn fid op s))"
  using engine_run.op_refines [OF redis_engine_run [OF assms(1-3)] assms(4)] by blast+

lemmas redis_late_result_ignored = engine_run.late_result_ignored [OF redis_engine_run]
lemmas redis_consume_event = engine_run.consume_event [OF redis_engine_run]

end
