(* ===== verification/Runs.thy ===== *)
theory Runs
  imports Redis_Metadata
begin

text \<open>
  Sequences of engine operations on one workflow run, in any order and with any failures of the
  storage. A panic ends an operation; the next one continues from the stored state. The lemmas
  carry the consequences of the specification over to the engine on Redis.
\<close>

definition run_ops :: "'w FlowEngine \<Rightarrow> string \<Rightarrow> string \<Rightarrow> engine_op list \<Rightarrow> 'w shard_state \<Rightarrow> 'w shard_state" where
  "run_ops F wn fid ops s = fold (\<lambda>op s. snd (run_op F wn fid op s)) ops s"

lemma run_ops_simps [simp]:
  "run_ops F wn fid [] s = s"
  "run_ops F wn fid (op # ops) s = run_ops F wn fid ops (snd (run_op F wn fid op s))"
  by (simp_all add: run_ops_def)

lemma refines_run_refl: "refines_run ctxs fl wn fid L s s"
  by (auto simp: refines_run_def intro: exI [where x = "[]"])

lemma refines_run_trans:
  assumes "refines_run ctxs fl wn fid L s s1" and "refines_run ctxs fl wn fid L' s1 s2"
  shows "refines_run ctxs fl wn fid (L \<union> L') s s2"
proof -
  obtain ls where ls: "set ls \<subseteq> L" "flow_run fl (run_view ctxs wn fid s) ls (run_view ctxs wn fid s1)"
    using assms(1) by (auto simp: refines_run_def)
  obtain ls' where ls': "set ls' \<subseteq> L'" "flow_run fl (run_view ctxs wn fid s1) ls' (run_view ctxs wn fid s2)"
    using assms(2) by (auto simp: refines_run_def)
  have "flow_run fl (run_view ctxs wn fid s) (ls @ ls') (run_view ctxs wn fid s2)"
    using ls(2) ls'(2) by (auto simp: flow_run_append)
  moreover have "set (ls @ ls') \<subseteq> L \<union> L'" using ls(1) ls'(1) by auto
  ultimately have "\<exists>ls. set ls \<subseteq> L \<union> L' \<and> flow_run fl (run_view ctxs wn fid s) ls (run_view ctxs wn fid s2)"
    by blast
  then show ?thesis using assms by (simp add: refines_run_def)
qed

definition op_labels :: "engine_op list \<Rightarrow> label set" where
  "op_labels ops = (\<Union>op \<in> set ops. labels_of op)"

lemma redis_ops_refine:
  assumes "redis_deployment r db img m" and "fair rt" and "build_flow rt wfl fid = Val fl"
    and "coherent (\<lambda>w. redis_defs m (db w)) wn fid wfl fl s"
  shows "refines_run (\<lambda>w. redis_contexts r (db w)) fl wn fid (op_labels ops) s
      (run_ops (redis_engine r m rt ex) wn fid ops s)"
  using assms(4)
proof (induction ops arbitrary: s)
  case (Cons op ops)
  let ?s = "snd (run_op (redis_engine r m rt ex) wn fid op s)"
  note R = redis_op_refines [OF assms(1-3) Cons.prems, where ex = ex and op = op]
  show ?case
    using refines_run_trans [OF R(2) Cons.IH [OF R(1)]] by (simp add: op_labels_def)
qed (simp add: refines_run_refl)

lemma redis_ops_coherent:
  assumes "redis_deployment r db img m" and "fair rt" and "build_flow rt wfl fid = Val fl"
    and "coherent (\<lambda>w. redis_defs m (db w)) wn fid wfl fl s"
  shows "coherent (\<lambda>w. redis_defs m (db w)) wn fid wfl fl (run_ops (redis_engine r m rt ex) wn fid ops s)"
  using assms(4)
proof (induction ops arbitrary: s)
  case (Cons op ops)
  then show ?case using redis_op_refines(1) [OF assms(1-3) Cons.prems, where ex = ex and op = op] by simp
qed simp

section \<open>Which labels an operation can take\<close>

definition starts_op :: "engine_op \<Rightarrow> bool" where
  "starts_op op \<longleftrightarrow> (case op of OpInit _ \<Rightarrow> True | _ \<Rightarrow> False)"

lemma Start_labels: "Start \<in> op_labels ops \<longleftrightarrow> (\<exists>op \<in> set ops. starts_op op)"
proof -
  have "Start \<in> labels_of op \<longleftrightarrow> starts_op op" for op
    by (cases op) (auto simp: starts_op_def move_labels_def)
  then show ?thesis by (simp add: op_labels_def)
qed

lemma Pause_labels: "Pause \<in> op_labels ops \<longleftrightarrow> OpPause \<in> set ops"
proof -
  have "Pause \<in> labels_of op \<longleftrightarrow> op = OpPause" for op
    by (cases op) (auto simp: move_labels_def)
  then show ?thesis by (auto simp: op_labels_def)
qed

text \<open>The operations that report a fixed event and whose events the workflow defines.\<close>

fun reports_defined :: "Flow \<Rightarrow> engine_op \<Rightarrow> bool" where
  "reports_defined fl (OpExecute event a _) = defined_event fl a event"
| "reports_defined fl (OpDelay a) = defined_event fl a ''default''"
| "reports_defined fl (OpSystem a) = (\<forall>event. defined_event fl a event)"
| "reports_defined fl (OpResume event) = (\<forall>a \<in> fmdom' (flowActions fl). defined_event fl a event)"
| "reports_defined fl (OpConsume event) = (\<forall>a \<in> fmdom' (flowActions fl). defined_event fl a event)"
| "reports_defined fl _ = True"

section \<open>Consequences\<close>

locale redis_run = redis_deployment r db img m
  for r :: "'w redisShardStorage" and db :: "'w \<Rightarrow> keyspace" and img :: "FlowContext \<Rightarrow> FlowContext"
    and m :: "'w redisMetadataStorage" +
  fixes rt :: runtime and ex :: externals and wfl :: Workflow and wn fid :: string and fl :: Flow
    and s :: "'w shard_state"
  assumes fair: "fair rt"
    and compiled: "build_flow rt wfl fid = Val fl"
    and coh: "coherent (\<lambda>w. redis_defs m (db w)) wn fid wfl fl s"
begin

lemmas dep = redis_deployment_axioms

abbreviation stored :: "'w shard_state \<Rightarrow> FlowContext option" where
  "stored s' \<equiv> redis_contexts r (db (world s')) (wn, fid)"

abbreviation after_ops :: "engine_op list \<Rightarrow> 'w shard_state" where
  "after_ops ops \<equiv> run_ops (redis_engine r m rt ex) wn fid ops s"

lemma ops_run:
  obtains ls where "set ls \<subseteq> op_labels ops"
    and "flow_run fl (map_option view_of (stored s)) ls (map_option view_of (stored (after_ops ops)))"
  using redis_ops_refine [OF dep fair compiled coh, of ops ex]
  by (auto simp: refines_run_def run_view_def)

lemma ops_other_runs:
  "(wn', fid') \<noteq> (wn, fid) \<Longrightarrow>
   redis_contexts r (db (world (after_ops ops))) (wn', fid') = redis_contexts r (db (world s)) (wn', fid')"
  using redis_ops_refine [OF dep fair compiled coh, of ops ex] by (auto simp: refines_run_def)

lemma ops_executed_once:
  assumes "stored s = Some c" and "stored (after_ops ops) = Some c'" and "\<forall>op \<in> set ops. \<not> starts_op op"
  shows "\<exists>as. distinct as \<and> set as \<inter> fmdom' (ExecutedActions c) = {} \<and>
    fmdom' (ExecutedActions c') = fmdom' (ExecutedActions c) \<union> set as \<and> set as \<subseteq> fmdom' (flowActions fl)"
proof -
  obtain ls where "set ls \<subseteq> op_labels ops" "flow_run fl (Some (view_of c)) ls (Some (view_of c'))"
    using ops_run [of ops] assms(1,2) by (metis option.simps(9))
  moreover have "Start \<notin> op_labels ops" using assms(3) by (simp add: Start_labels)
  ultimately show ?thesis using run_executions [of fl "view_of c" ls "view_of c'"] by (auto 4 4)
qed

lemma ops_terminal:
  assumes "stored s = Some c" and "stored (after_ops ops) = Some c'"
    and "\<forall>op \<in> set ops. \<not> starts_op op" and "OpPause \<notin> set ops" and "terminal_state (State c)"
  shows "view_of c' = view_of c"
proof -
  obtain ls where "set ls \<subseteq> op_labels ops" "flow_run fl (Some (view_of c)) ls (Some (view_of c'))"
    using ops_run [of ops] assms(1,2) by (metis option.simps(9))
  moreover have "Start \<notin> op_labels ops" "Pause \<notin> op_labels ops"
    using assms(3,4) by (simp_all add: Start_labels Pause_labels)
  ultimately show ?thesis using run_terminal assms(5) by (metis subsetD view_of_simps(1))
qed

lemma ops_completed:
  assumes "stored s = None" and "stored (after_ops ops) = Some c" and "State c = COMPLETED"
    and "no_empty_next (flowActions fl)"
  shows "\<exists>a. \<exists>T \<subseteq> insert a (fmdom' (ExecutedActions c)). outcome (flowActions fl) (RootAction fl) T"
proof -
  obtain ls where "flow_run fl None ls (Some (view_of c))"
    using ops_run [of ops] assms(1,2) by (metis option.simps(8,9))
  from complete_inv_run [OF this] have "complete_inv fl (view_of c)" by simp
  then show ?thesis
    using assms(3) finished_compiled [OF fair compiled assms(4)] by (auto simp: complete_inv_def)
qed

lemma ops_not_stuck:
  assumes "stored s = None" and "stored (after_ops ops) = Some c" and "CurrentActionIds c = fmempty"
    and "no_empty_next (flowActions fl)" and "\<forall>op \<in> set ops. reports_defined fl op"
  shows "finished fl (fmdom' (ExecutedActions c))"
proof -
  obtain ls where ls: "set ls \<subseteq> op_labels ops" and run: "flow_run fl None ls (Some (view_of c))"
    using ops_run [of ops] assms(1,2) by (metis option.simps(8,9))
  have acts: "flow_step fl v l v' \<Longrightarrow> defined_label fl l \<or> (\<exists>a event r. l = Move a event r \<and> a \<in> fmdom' (flowActions fl))" for v l v'
    by (erule flow_stepE) (auto simp: may_move_def defined_label_def)
  have moves: "flow_run fl v ls v' \<Longrightarrow> l \<in> set ls \<Longrightarrow> defined_label fl l \<or> (\<exists>a event r. l = Move a event r \<and> a \<in> fmdom' (flowActions fl))" for v ls v' l
    by (induction ls arbitrary: v) (auto dest: acts)
  have "defined_label fl l" if l: "l \<in> set ls" for l
  proof -
    obtain op where op: "op \<in> set ops" "l \<in> labels_of op" using ls l by (auto simp: op_labels_def)
    then have "reports_defined fl op" using assms(5) by blast
    then show ?thesis
      using op(2) moves [OF run l] by (cases op) (auto simp: defined_label_def move_labels_def)
  qed
  then show ?thesis using run_not_stuck [OF fair compiled assms(4) run] assms(3) by simp
qed

lemma ops_typed:
  assumes "\<And>c. stored s = Some c \<Longrightarrow> typed_view fl (view_of c)" and "stored (after_ops ops) = Some c'" and "well_formed wfl"
  shows "typed_view fl (view_of c')"
proof -
  obtain ls where "flow_run fl (map_option view_of (stored s)) ls (Some (view_of c'))"
    using ops_run [of ops] assms(2) by (metis option.simps(9))
  then show ?thesis
    by (rule typed_run [OF _ well_formed_closed [OF assms(3) compiled]]) (use assms(1) in auto)
qed

end

end
