(* ===== verification/Reference_Redis.thy ===== *)
theory Reference_Redis
  imports Runs
begin

text \<open>
  A reference deployment: an in-memory Redis server whose clock advances with every reading and
  which can be down, and an encoding of flow contexts that can be read back. It shows that the
  contracts of \<open>Redis\<close>, \<open>Redis_Storage\<close> and \<open>Engine_Refinement\<close> can be met together, and
  it is the environment in which concrete runs are evaluated.
\<close>

section \<open>The server\<close>

record ref_world =
  refKeys :: keyspace
  refClock :: int
  refDown :: bool

definition ref_do :: "redis_cmd \<Rightarrow> ref_world \<Rightarrow> (string + reply) \<times> ref_world" where
  "ref_do c w =
     (if refDown w then (Inl ''connection refused'', w)
      else let (r, ks) = apply_cmd c (refKeys w) in (r, w\<lparr>refKeys := ks\<rparr>))"

definition first_error :: "(string + reply) list \<Rightarrow> string option" where
  "first_error rs = first_some (\<lambda>r. case r of Inl e \<Rightarrow> Some e | Inr _ \<Rightarrow> None) rs"

definition ref_tx :: "redis_cmd list \<Rightarrow> ref_world \<Rightarrow> string option \<times> ref_world" where
  "ref_tx cs w =
     (if refDown w then (Some ''connection refused'', w)
      else let (rs, ks) = exec_cmds cs (refKeys w) in (first_error rs, w\<lparr>refKeys := ks\<rparr>))"

definition ref_pipe :: "redis_cmd list \<Rightarrow> ref_world \<Rightarrow> (string option \<times> (string + reply) list) \<times> ref_world" where
  "ref_pipe cs w =
     (if refDown w then ((Some ''connection refused'', []), w)
      else let (rs, ks) = exec_cmds cs (refKeys w) in ((first_error rs, rs), w\<lparr>refKeys := ks\<rparr>))"

definition ref_now :: "ref_world \<Rightarrow> int \<times> ref_world" where
  "ref_now w = (refClock w, w\<lparr>refClock := refClock w + 1\<rparr>)"

definition ref_client :: "ref_world RedisClient" where
  "ref_client = \<lparr>rc_do = ref_do, rc_tx = ref_tx, rc_pipe = ref_pipe, rc_now = ref_now\<rparr>"

lemma first_error_None: "first_error rs = None \<longleftrightarrow> all_ok rs"
  by (auto simp: first_error_def all_ok_def first_some_None_iff split: sum.splits)

interpretation ref: redis_server ref_client refKeys
proof
  show "apply_cmd c (refKeys w) = (r, refKeys w') \<or>
      (\<exists>e. r = Inl e \<and> e \<noteq> redis_Nil \<and> refKeys w' \<in> {refKeys w, snd (apply_cmd c (refKeys w))})"
    if "rc_do ref_client c w = (r, w')" for c w r w'
    using that by (auto simp: ref_client_def ref_do_def Let_def redis_Nil_def split: if_splits prod.splits)
  show "all_ok (fst (exec_cmds cs (refKeys w))) \<and> refKeys w' = snd (exec_cmds cs (refKeys w))"
    if "rc_tx ref_client cs w = (None, w')" for cs w w'
    using that by (auto simp: ref_client_def ref_tx_def Let_def first_error_None split: if_splits prod.splits)
  show "refKeys w' \<in> {refKeys w, snd (exec_cmds cs (refKeys w))}"
    if "rc_tx ref_client cs w = (Some e, w')" for cs w e w'
    using that by (auto simp: ref_client_def ref_tx_def Let_def split: if_splits prod.splits)
  show "exec_cmds cs (refKeys w) = (rs, refKeys w') \<and> all_ok rs"
    if "rc_pipe ref_client cs w = ((None, rs), w')" for cs w rs w'
    using that by (auto simp: ref_client_def ref_pipe_def Let_def first_error_None split: if_splits prod.splits)
  show "\<exists>n. refKeys w' = snd (exec_cmds (take n cs) (refKeys w))"
    if "rc_pipe ref_client cs w = ((Some e, rs), w')" for cs w e rs w'
  proof (cases "refDown w")
    case True
    then show ?thesis using that by (intro exI [where x = 0]) (auto simp: ref_client_def ref_pipe_def)
  next
    case False
    then show ?thesis using that
      by (intro exI [where x = "length cs"]) (auto simp: ref_client_def ref_pipe_def Let_def split: prod.splits)
  qed
  show "refKeys (snd (rc_now ref_client w)) = refKeys w" for w
    by (simp add: ref_client_def ref_now_def)
qed

section \<open>An encoding of contexts\<close>

definition enc_nat :: "nat \<Rightarrow> string" where
  "enc_nat n = replicate n (CHR ''1'') @ ''.''"

definition dec_nat :: "string \<Rightarrow> nat \<times> string" where
  "dec_nat s = (let n = length (takeWhile (\<lambda>c. c = CHR ''1'') s) in (n, drop (n + 1) s))"

definition enc_int :: "int \<Rightarrow> string" where
  "enc_int i = (if i < 0 then ''-'' @ enc_nat (nat (- i)) else ''+'' @ enc_nat (nat i))"

definition dec_int :: "string \<Rightarrow> int \<times> string" where
  "dec_int s = (let (n, t) = dec_nat (tl s) in (if hd s = CHR ''-'' then - int n else int n, t))"

definition enc_str :: "string \<Rightarrow> string" where
  "enc_str s = enc_nat (length s) @ s"

definition dec_str :: "string \<Rightarrow> string \<times> string" where
  "dec_str s = (let (n, t) = dec_nat s in (take n t, drop n t))"

fun dec_many :: "(string \<Rightarrow> 'a \<times> string) \<Rightarrow> nat \<Rightarrow> string \<Rightarrow> 'a list \<times> string" where
  "dec_many d 0 s = ([], s)"
| "dec_many d (Suc n) s = (let (x, t) = d s; (xs, u) = dec_many d n t in (x # xs, u))"

definition enc_pairs :: "(int \<times> int) list \<Rightarrow> string" where
  "enc_pairs ps = enc_nat (length ps) @ concat (map (\<lambda>(a, b). enc_int a @ enc_int b) ps)"

definition dec_pairs :: "string \<Rightarrow> (int \<times> int) list \<times> string" where
  "dec_pairs s = (let (n, t) = dec_nat s in
     dec_many (\<lambda>u. let (a, v) = dec_int u; (b, x) = dec_int v in ((a, b), x)) n t)"

fun enc_state :: "FlowState \<Rightarrow> string" where
  "enc_state RUNNING = enc_nat 0" | "enc_state FAILED = enc_nat 1" | "enc_state COMPLETED = enc_nat 2"
| "enc_state WAITING_DELAY = enc_nat 3" | "enc_state WAITING_EVENT = enc_nat 4" | "enc_state PAUSED = enc_nat 5"
| "enc_state (OtherFlowState s) = enc_nat 6 @ enc_str s"

definition dec_state :: "string \<Rightarrow> FlowState \<times> string" where
  "dec_state s = (let (n, t) = dec_nat s in
     if n = 6 then (let (x, u) = dec_str t in (OtherFlowState x, u))
     else ([RUNNING, FAILED, COMPLETED, WAITING_DELAY, WAITING_EVENT, PAUSED] ! n, t))"

lemma dec_nat_enc [simp]: "dec_nat (enc_nat n @ t) = (n, t)"
proof -
  have "takeWhile (\<lambda>c. c = CHR ''1'') (replicate n (CHR ''1'') @ CHR ''.'' # t) = replicate n (CHR ''1'')"
    by (induction n) auto
  then show ?thesis by (simp add: dec_nat_def enc_nat_def Let_def)
qed

lemma dec_int_enc [simp]: "dec_int (enc_int i @ t) = (i, t)"
  by (simp add: dec_int_def enc_int_def)

lemma dec_str_enc [simp]: "dec_str (enc_str s @ t) = (s, t)"
  by (simp add: dec_str_def enc_str_def)

lemma dec_pairs_enc [simp]: "dec_pairs (enc_pairs ps @ t) = (ps, t)"
proof -
  have "dec_many (\<lambda>u. let (a, v) = dec_int u; (b, x) = dec_int v in ((a, b), x)) (length ps)
      (concat (map (\<lambda>(a, b). enc_int a @ enc_int b) ps) @ t) = (ps, t)"
    by (induction ps) (auto simp: split_beta)
  then show ?thesis by (simp add: dec_pairs_def enc_pairs_def)
qed

lemma dec_state_enc [simp]: "dec_state (enc_state st @ t) = (st, t)"
  by (cases st) (simp_all add: dec_state_def)

definition ref_encode :: "FlowContext \<Rightarrow> error + string" where
  "ref_encode c = Inr (enc_str (ctxId c) @ enc_str (Event c) @ enc_state (State c) @
     enc_pairs (sorted_list_of_fmap (CurrentActionIds c)) @
     enc_pairs (map (\<lambda>(a, b). (a, if b then 1 else 0)) (sorted_list_of_fmap (ExecutedActions c))))"

definition ref_decode :: "string \<Rightarrow> error + FlowContext" where
  "ref_decode s =
     (let (i, s1) = dec_str s; (e, s2) = dec_str s1; (st, s3) = dec_state s2;
          (cur, s4) = dec_pairs s3; (ex, s5) = dec_pairs s4
      in Inr \<lparr>ctxId = i, CurrentActionIds = fmap_of_list cur, Data = fmempty, State = st, Event = e,
              ExecutedActions = fmap_of_list (map (\<lambda>(a, b). (a, b = 1)) ex)\<rparr>)"

definition ref_codec :: "FlowContext EncoderDecoder" where
  "ref_codec = \<lparr>Encode = ref_encode, Decode = ref_decode\<rparr>"

definition ref_image :: "FlowContext \<Rightarrow> FlowContext" where
  "ref_image c = c\<lparr>Data := fmempty\<rparr>"

lemma bool_pairs: "map (\<lambda>(a, b). (a, b = 1)) (map (\<lambda>(a, b). (a, if b then 1 else 0 :: int)) xs) = xs"
  by (induction xs) (auto split: if_splits)

lemma fmap_of_sorted_list: "fmap_of_list (sorted_list_of_fmap m) = m"
  by (rule fmap_ext) (simp add: fmlookup_of_list)

lemma ref_decode_encode: "\<exists>s. ref_encode c = Inr s \<and> ref_decode s = Inr (ref_image c)"
  using dec_pairs_enc [where t = "[]"]
  by (simp add: ref_encode_def ref_decode_def ref_image_def fmap_of_sorted_list bool_pairs del: map_map)

interpretation ref: flow_codec ref_codec ref_image
  by unfold_locales (auto simp: ref_codec_def ref_image_def ref_decode_encode [unfolded ref_image_def])

section \<open>A deployment\<close>

text \<open>A workflow with a root that forks into two leaves, stored under the name \<open>demo\<close>. Its
  definition is encoded by its name.\<close>

definition user_def :: "int \<Rightarrow> nextmap option \<Rightarrow> ActionDef" where
  "user_def i nxt = \<lparr>adId = i, adType = ''user'', adName = ''work'', InputParams = fmempty, Next = nxt,
     Expression = '''', adJoin = 0, DelaySeconds = 0, adEvent = '''', TimeoutSeconds = 0\<rparr>"

definition demo :: Workflow where
  "demo = \<lparr>wfName = ''demo'', wfRootAction = 1,
     wfActions = [user_def 1 (Some (fmupd ''default'' (Some [2, 3]) fmempty)), user_def 2 None, user_def 3 None],
     OnFailure = '''', OnSuccess = ''''\<rparr>"

definition ref_rt :: runtime where
  "ref_rt = \<lparr>ordS = (\<lambda>ks. ks), ordI = (\<lambda>ks. ks), maxDepth = 10\<rparr>"

definition ref_dao :: "ref_world baseDao" where
  "ref_dao = \<lparr>redisClient = ref_client, namespace = ''orchy''\<rparr>"

definition ref_storage :: "ref_world redisShardStorage" where
  "ref_storage = \<lparr>rsDao = ref_dao, rsCodec = ref_codec, rsShardId = ''0''\<rparr>"

definition ref_metadata :: "ref_world redisMetadataStorage" where
  "ref_metadata = \<lparr>rmDao = ref_dao,
     workflowEncoderDecoder = \<lparr>Encode = (\<lambda>wfl. Inr (wfName wfl)),
       Decode = (\<lambda>s. if s = ''demo'' then Inr demo else Inl (ExternalError ''not found''))\<rparr>,
     actionEncoderDecoder = \<lparr>Encode = (\<lambda>d. Inr (dfName d)),
       Decode = (\<lambda>s. Inr \<lparr>dfName = s, RetryCount = 3, RetryAfterSeconds = 5,
         dfRetryPolicy = RETRY_POLICY_BACKOFF, dfTimeoutSeconds = 20\<rparr>)\<rparr>\<rparr>"

definition demo_flow :: Flow where
  "demo_flow = \<lparr>flowId = ''f1'', RootAction = 1, flowActions = build_actions (wfActions demo),
     FailureHandler = NOOP, SuccessHandler = NOOP, TerminalActions = [[3, 2]]\<rparr>"

lemma demo_compiled: "build_flow ref_rt demo ''f1'' = Val demo_flow"
  by code_simp

lemma ref_rt_fair: "fair ref_rt"
  by (simp add: fair_def ref_rt_def)

lemma ref_selectors:
  "redisClient (rsDao ref_storage) = ref_client" "rsCodec ref_storage = ref_codec"
  "redisClient (rmDao ref_metadata) = ref_client"
  by (simp_all add: ref_storage_def ref_metadata_def ref_dao_def)

interpretation ref_dep: redis_deployment ref_storage refKeys ref_image ref_metadata
proof (intro redis_deployment.intro redis_store.intro redis_metadata.intro)
  show "redis_server (redisClient (rsDao ref_storage)) refKeys"
    and "redis_server (redisClient (rmDao ref_metadata)) refKeys"
    and "flow_codec (rsCodec ref_storage) ref_image"
    unfolding ref_selectors by (fact ref.redis_server_axioms ref.flow_codec_axioms)+
qed

definition ref_engine :: "externals \<Rightarrow> ref_world FlowEngine" where
  "ref_engine ex = redis_engine ref_storage ref_metadata ref_rt ex"

interpretation ref_run: engine_run "ref_engine ex" "\<lambda>w. redis_contexts ref_storage (refKeys w)" ref_image
  "\<lambda>w. redis_defs ref_metadata (refKeys w)" "''demo''" "''f1''" demo demo_flow for ex
  using ref_rt_fair demo_compiled ref_dep.engine_env_redis [of ref_rt ex]
  by (intro engine_run.intro engine_run_axioms.intro) (simp_all add: ref_engine_def redis_engine_def)

text \<open>The state in which nothing has been started and the definition is stored.\<close>

definition ref_world0 :: ref_world where
  "ref_world0 = \<lparr>refKeys = fmupd (workflow_key ref_metadata ''demo'') (RString ''demo'') fmempty,
     refClock = 1000000000, refDown = False\<rparr>"

definition ref_state0 :: "ref_world shard_state" where
  "ref_state0 = \<lparr>world = ref_world0, stateMachines = fmempty, collector = Some []\<rparr>"

lemma ref_state0_coherent:
  "coherent (\<lambda>w. redis_defs ref_metadata (refKeys w)) ''demo'' ''f1'' demo demo_flow ref_state0"
  by (simp add: coherent_def ref_state0_def ref_world0_def redis_defs_def strval_def ref_metadata_def)

text \<open>The external libraries of concrete runs; no action of the workflow calls them.\<close>

definition ref_ext :: externals where
  "ref_ext = \<lparr>JsonPathLookup = (\<lambda>_ _. (VNil, None)), JsonPathCompile = (\<lambda>_. None),
     RunString = (\<lambda>_ _. Inl (ExternalError '''')), JsonMarshal = (\<lambda>_. Inl (ExternalError '''')),
     JsonUnmarshal = (\<lambda>_. Inl (ExternalError '''')), FloatOverflow = (\<lambda>_. 0)\<rparr>"

interpretation ref_runs: redis_run ref_storage refKeys ref_image ref_metadata ref_rt ref_ext demo "''demo''" "''f1''"
  demo_flow ref_state0
  by (intro redis_run.intro redis_run_axioms.intro ref_dep.redis_deployment_axioms ref_rt_fair
      demo_compiled ref_state0_coherent)

text \<open>Stored contexts of the reference deployment.\<close>

definition ref_stored :: "ref_world shard_state \<Rightarrow> FlowContext option" where
  "ref_stored s = redis_contexts ref_storage (refKeys (world s)) (''demo'', ''f1'')"

text \<open>The state after a sequence of operations.\<close>

definition ref_after :: "engine_op list \<Rightarrow> ref_world shard_state" where
  "ref_after ops = run_ops (ref_engine ref_ext) ''demo'' ''f1'' ops ref_state0"

lemma ref_after_coherent:
  "coherent (\<lambda>w. redis_defs ref_metadata (refKeys w)) ''demo'' ''f1'' demo demo_flow (ref_after ops)"
  unfolding ref_after_def ref_engine_def
  by (rule redis_ops_coherent [OF ref_dep.redis_deployment_axioms ref_rt_fair demo_compiled ref_state0_coherent])

lemmas ref_setting = ref_dep.redis_deployment_axioms ref_rt_fair demo_compiled ref_after_coherent

lemma demo_valid: "validate_static ref_rt demo = None"
  by code_simp

lemma demo_well_formed: "well_formed demo"
  using demo_valid validate_static_None_iff [OF ref_rt_fair] by blast

lemma demo_no_empty_next: "no_empty_next (flowActions demo_flow)"
  using well_formed_no_empty_next [OF demo_well_formed] by (simp add: demo_flow_def)

lemma demo_no_empty_lists: "no_empty_lists demo"
  by (auto simp: no_empty_lists_def demo_def user_def_def)

text \<open>A world in which the action \<open>work\<close> is registered.\<close>

definition registered :: ref_world where
  "registered = ref_world0\<lparr>refKeys := fmupd (action_key ref_metadata) (RHash (fmupd ''work'' ''work'' fmempty)) fmempty\<rparr>"

end
