(* ===== verification/External_Queue.thy ===== *)
theory External_Queue
  imports Redis_Storage
begin

text \<open>
  The queue from which workers take their actions: the interface \<open>ExternalQueue\<close> of
  \<open>src/shard/shard.go\<close> and its Redis implementation \<open>src/persistence/redis/queue.go\<close>. The
  protobuf library that turns an action into a string and back is a parameter; the error of
  \<open>Unmarshal\<close> is dropped in the source, so the parameter only gives the message it leaves.

  The locale \<open>external_queue\<close> states what a client of a queue relies on: nothing is lost,
  nothing is delivered twice, and a poll returns as many actions as were asked for and are there.
  Only a poll that reports an error may take actions that nobody receives.
\<close>

section \<open>Definitions\<close>

text \<open>The generated message \<open>api.Action\<close>, as far as the queue and the executors use it. The
  action id is a 32-bit integer.\<close>

record apiAction =
  paWorkflowName :: string
  paFlowId :: string
  paData :: anymap
  paActionId :: int
  paActionName :: string

record protoLib =
  Marshal :: "apiAction \<Rightarrow> error + string"
  Unmarshal :: "string \<Rightarrow> apiAction"

record 'w ExternalQueue =
  eq_Push :: "apiAction \<Rightarrow> 'w \<Rightarrow> error option \<times> 'w"
  eq_Poll :: "string \<Rightarrow> int \<Rightarrow> 'w \<Rightarrow> (error + apiAction list) \<times> 'w"

record 'w redisQueue =
  rqDao :: "'w baseDao"
  rqShardId :: string
  rqProto :: protoLib

definition ext_key :: "'w redisQueue \<Rightarrow> string \<Rightarrow> string" where
  "ext_key rq actionName = getNamespaceKey (rqDao rq) [actionName, rqShardId rq]"

definition qdo :: "'w redisQueue \<Rightarrow> redis_cmd \<Rightarrow> 'w \<Rightarrow> (string + reply) \<times> 'w" where
  "qdo rq = rc_do (redisClient (rqDao rq))"

definition Push :: "'w redisQueue \<Rightarrow> apiAction \<Rightarrow> 'w \<Rightarrow> error option \<times> 'w" where
  "Push rq action w =
     (case Marshal (rqProto rq) action of
        Inl err \<Rightarrow> (Some err, w)
      | Inr msg \<Rightarrow>
          (case qdo rq (LPUSH (ext_key rq (paActionName action)) msg) w of
             (Inl _, w') \<Rightarrow> (Some (StorageLayerError ''''), w')
           | (Inr _, w') \<Rightarrow> (None, w')))"

definition Poll :: "'w redisQueue \<Rightarrow> string \<Rightarrow> int \<Rightarrow> 'w \<Rightarrow> (error + apiAction list) \<times> 'w" where
  "Poll rq actionName batchSize w =
     (case qdo rq (LPOP (ext_key rq actionName) batchSize) w of
        (Inl err, w') \<Rightarrow>
          (if err = redis_Nil then (Inr [], w') else (Inl (StorageLayerError ''''), w'))
      | (Inr (Multi values), w') \<Rightarrow> (Inr (map (Unmarshal (rqProto rq)) values), w')
      | (Inr _, w') \<Rightarrow> (Inr [], w'))"

definition NewRedisQueue :: "'w redisQueue \<Rightarrow> 'w ExternalQueue" where
  "NewRedisQueue rq = \<lparr>eq_Push = Push rq, eq_Poll = Poll rq\<rparr>"

section \<open>The contract\<close>

locale external_queue =
  fixes Q :: "'w ExternalQueue" and items :: "'w \<Rightarrow> string \<Rightarrow> apiAction list"
  assumes push_ok: "eq_Push Q action w = (None, w') \<Longrightarrow>
      mset (items w' (paActionName action)) = add_mset action (mset (items w (paActionName action)))"
    and push_other: "eq_Push Q action w = (e, w') \<Longrightarrow> name \<noteq> paActionName action \<Longrightarrow> items w' name = items w name"
    and poll_ok: "eq_Poll Q name n w = (Inr acts, w') \<Longrightarrow>
      mset (items w name) = mset acts + mset (items w' name)"
    and poll_length: "eq_Poll Q name n w = (Inr acts, w') \<Longrightarrow> length acts = min (nat n) (length (items w name))"
    and poll_err: "eq_Poll Q name n w = (Inl err, w') \<Longrightarrow> mset (items w' name) \<subseteq># mset (items w name)"
    and poll_other: "eq_Poll Q name n w = (x, w') \<Longrightarrow> name' \<noteq> name \<Longrightarrow> items w' name' = items w name'"
begin

text \<open>An action that was pushed is returned by a later poll or still in the queue.\<close>

lemma push_poll:
  assumes "eq_Push Q action w = (None, w1)" and "eq_Poll Q (paActionName action) n w1 = (Inr acts, w2)"
  shows "mset acts + mset (items w2 (paActionName action)) =
    add_mset action (mset (items w (paActionName action)))"
  using push_ok [OF assms(1)] poll_ok [OF assms(2)] by simp

end

section \<open>The Redis queue\<close>

definition redis_items :: "'w redisQueue \<Rightarrow> keyspace \<Rightarrow> string \<Rightarrow> apiAction list" where
  "redis_items rq ks name =
     (case list_at ks (ext_key rq name) of None \<Rightarrow> [] | Some l \<Rightarrow> map (Unmarshal (rqProto rq)) l)"

lemma ext_key_inject: "ext_key rq name = ext_key rq name' \<longleftrightarrow> name = name'"
  by (simp add: ext_key_def getNamespaceKey_def)

text \<open>A message that can be encoded can be read back.\<close>

locale redis_queue = redis_server "redisClient (rqDao rq)" db
  for rq :: "'w redisQueue" and db :: "'w \<Rightarrow> keyspace" +
  assumes proto: "Marshal (rqProto rq) a = Inr s \<Longrightarrow> Unmarshal (rqProto rq) s = a"
begin

lemma LPUSH_list:
  assumes "apply_cmd (LPUSH k v) ks = (Inr y, ks')"
  shows "\<exists>l. list_at ks k = Some l \<and> list_at ks' k = Some (v # l)"
    and "k' \<noteq> k \<Longrightarrow> list_at ks' k' = list_at ks k'"
proof -
  obtain l where l: "list_at ks k = Some l" "ks' = put_list k (v # l) ks"
    using assms by (auto simp: typed_def split: option.splits)
  then show "\<exists>l. list_at ks k = Some l \<and> list_at ks' k = Some (v # l)"
    and "k' \<noteq> k \<Longrightarrow> list_at ks' k' = list_at ks k'"
    by (auto simp: list_at_def put_list_def)
qed

lemma LPOP_list:
  "list_at (snd (apply_cmd (LPOP k n) ks)) k' =
    (if k' = k then map_option (drop (nat n)) (list_at ks k) else list_at ks k')"
  by (auto simp: typed_def list_at_def put_list_def split: option.splits rvalue.splits)

lemma list_frame:
  "k' \<noteq> k \<Longrightarrow> list_at (snd (apply_cmd (LPUSH k v) ks)) k' = list_at ks k'"
  by (auto simp: typed_def list_at_def put_list_def split: option.splits)

lemma qdo_frame:
  assumes "qdo rq c w = (x, w')" and "list_at (snd (apply_cmd c (db w))) k = list_at (db w) k"
  shows "list_at (db w') k = list_at (db w) k"
  using do_spec [of c w x w'] assms unfolding qdo_def by auto

lemma qdo_ok: "qdo rq c w = (Inr y, w') \<Longrightarrow> apply_cmd c (db w) = (Inr y, db w')"
  using do_spec [of c w "Inr y" w'] unfolding qdo_def by auto

lemma qdo_nil: "qdo rq c w = (Inl redis_Nil, w') \<Longrightarrow> apply_cmd c (db w) = (Inl redis_Nil, db w')"
  using do_spec [of c w "Inl redis_Nil" w'] unfolding qdo_def by auto

lemma poll_pops:
  assumes "Poll rq name n w = (x, w')"
  obtains y where "qdo rq (LPOP (ext_key rq name) n) w = (y, w')"
  using assms by (auto simp: Poll_def split: prod.splits sum.splits reply.splits if_splits)

text \<open>A poll takes the actions from the end at which they were pushed: the last one pushed is the
  first one delivered.\<close>

lemma poll_takes:
  assumes "Poll rq name n w = (Inr acts, w')"
  shows "acts = take (nat n) (redis_items rq (db w) name) \<and>
    redis_items rq (db w') name = drop (nat n) (redis_items rq (db w) name)"
proof -
  let ?c = "LPOP (ext_key rq name) n"
  obtain x where x: "qdo rq ?c w = (x, w')" using poll_pops [OF assms] .
  show ?thesis
  proof (cases x)
    case (Inl e)
    then have "e = redis_Nil" "acts = []" using assms x by (auto simp: Poll_def split: if_splits)
    then have "apply_cmd ?c (db w) = (Inl redis_Nil, db w')" using qdo_nil x Inl by blast
    then have "list_at (db w) (ext_key rq name) = Some []" and "db w' = db w"
      by (auto simp: typed_def split: option.splits if_splits)
    then show ?thesis using \<open>acts = []\<close> by (simp add: redis_items_def)
  next
    case (Inr y)
    then have a: "apply_cmd ?c (db w) = (Inr y, db w')" using qdo_ok x by blast
    then obtain l where l: "list_at (db w) (ext_key rq name) = Some l" "y = Multi (take (nat n) l)"
      by (auto simp: typed_def split: option.splits if_splits)
    moreover have "list_at (db w') (ext_key rq name) = Some (drop (nat n) l)"
      using LPOP_list [of "ext_key rq name" n "db w" "ext_key rq name"] a l by simp
    ultimately show ?thesis
      using assms x Inr by (auto simp: Poll_def redis_items_def take_map drop_map)
  qed
qed

lemma push_puts:
  assumes "Push rq action w = (None, w')"
  shows "redis_items rq (db w') (paActionName action) = action # redis_items rq (db w) (paActionName action)"
proof -
  obtain msg y where m: "Marshal (rqProto rq) action = Inr msg"
    and x: "qdo rq (LPUSH (ext_key rq (paActionName action)) msg) w = (Inr y, w')"
    using assms by (auto simp: Push_def split: sum.splits prod.splits)
  show ?thesis
    using LPUSH_list(1) [OF qdo_ok [OF x]] proto [OF m] by (auto simp: redis_items_def)
qed

text \<open>The queue is last in, first out: what was pushed last is the first that is polled.\<close>

lemma queue_is_lifo:
  assumes "Push rq action w = (None, w1)" and "Poll rq (paActionName action) n w1 = (Inr acts, w2)" and "0 < n"
  shows "\<exists>rest. acts = action # rest"
  using poll_takes [OF assms(2)] push_puts [OF assms(1)] assms(3) by (cases "nat n") auto

text \<open>What the contract of a queue says besides.\<close>

lemma items_other: "list_at (db w') (ext_key rq name) = list_at (db w) (ext_key rq name) \<Longrightarrow> redis_items rq (db w') name = redis_items rq (db w) name"
  by (simp add: redis_items_def)

lemma push_other:
  assumes "Push rq action w = (e, w')" and "name \<noteq> paActionName action"
  shows "redis_items rq (db w') name = redis_items rq (db w) name"
proof -
  have "w' = w \<or> (\<exists>msg x. qdo rq (LPUSH (ext_key rq (paActionName action)) msg) w = (x, w'))"
    using assms(1) by (auto simp: Push_def split: sum.splits prod.splits)
  then have "list_at (db w') (ext_key rq name) = list_at (db w) (ext_key rq name)"
    using qdo_frame list_frame assms(2) ext_key_inject by metis
  then show ?thesis by (rule items_other)
qed

lemma poll_shrinks:
  assumes "Poll rq name n w = (x, w')"
  shows "mset (redis_items rq (db w') name) \<subseteq># mset (redis_items rq (db w) name)"
proof -
  obtain y where y: "qdo rq (LPOP (ext_key rq name) n) w = (y, w')" using poll_pops [OF assms] .
  have "db w' = db w \<or> db w' = snd (apply_cmd (LPOP (ext_key rq name) n) (db w))"
    using do_spec [of "LPOP (ext_key rq name) n" w y w'] y unfolding qdo_def by auto
  then have "redis_items rq (db w') name = redis_items rq (db w) name \<or>
      redis_items rq (db w') name = drop (nat n) (redis_items rq (db w) name)"
    by (auto simp: redis_items_def LPOP_list drop_map simp del: apply_cmd.simps split: option.splits)
  then show ?thesis by (metis append_take_drop_id mset_append mset_subset_eq_add_right subset_mset.order_refl)
qed

lemma poll_other:
  assumes "Poll rq name n w = (x, w')" and "name' \<noteq> name"
  shows "redis_items rq (db w') name' = redis_items rq (db w) name'"
proof -
  obtain y where "qdo rq (LPOP (ext_key rq name) n) w = (y, w')" using poll_pops [OF assms(1)] .
  then have "list_at (db w') (ext_key rq name') = list_at (db w) (ext_key rq name')"
    using qdo_frame LPOP_list assms(2) ext_key_inject by metis
  then show ?thesis by (rule items_other)
qed

end

sublocale redis_queue \<subseteq> queue: external_queue "NewRedisQueue rq" "\<lambda>w. redis_items rq (db w)"
proof unfold_locales
  fix action w w' e name n x acts name'
  show "mset (redis_items rq (db w') (paActionName action)) =
      add_mset action (mset (redis_items rq (db w) (paActionName action)))"
    if "eq_Push (NewRedisQueue rq) action w = (None, w')"
    using push_puts [of action w w'] that by (simp add: NewRedisQueue_def)
  show "redis_items rq (db w') name = redis_items rq (db w) name"
    if "eq_Push (NewRedisQueue rq) action w = (e, w')" "name \<noteq> paActionName action"
    using push_other that by (simp add: NewRedisQueue_def)
  show "mset (redis_items rq (db w) name) = mset acts + mset (redis_items rq (db w') name)"
    and "length acts = min (nat n) (length (redis_items rq (db w) name))"
    if "eq_Poll (NewRedisQueue rq) name n w = (Inr acts, w')"
    using poll_takes [of name n w acts w'] that by (simp_all add: NewRedisQueue_def flip: mset_append)
  show "mset (redis_items rq (db w') name) \<subseteq># mset (redis_items rq (db w) name)"
    if "eq_Poll (NewRedisQueue rq) name n w = (Inl err, w')" for err
    using poll_shrinks that by (simp add: NewRedisQueue_def)
  show "redis_items rq (db w') name' = redis_items rq (db w) name'"
    if "eq_Poll (NewRedisQueue rq) name n w = (x, w')" and "name' \<noteq> name"
    using poll_other that by (simp add: NewRedisQueue_def)
qed

context redis_queue
begin

lemma queue_contract: "external_queue (NewRedisQueue rq) (\<lambda>w. redis_items rq (db w))"
  by (rule queue.external_queue_axioms)

end

end
