(* ===== verification/Engine_Frame.thy ===== *)
theory Engine_Frame
  imports Engine
begin

text \<open>
  What the engine leaves alone. A relation between worlds that every storage call of the engine
  keeps is kept by every operation of the engine, whatever its outcome. The action queues of
  \<open>Executors\<close> and the isolation of the shards of a node in \<open>Redis_Cluster\<close> are instances.
\<close>

locale engine_frame =
  fixes F :: "'w FlowEngine" and R :: "'w \<Rightarrow> 'w \<Rightarrow> bool"
  assumes R_refl: "R w w" and R_trans: "R w1 w2 \<Longrightarrow> R w2 w3 \<Longrightarrow> R w1 w3"
    and R_get: "R w (snd (st_GetFlowContext (engStorage F) wn fid w))"
    and R_save: "R w (snd (st_SaveFlowContext (engStorage F) wn fid c w))"
    and R_delete: "R w (snd (st_DeleteFlowContext (engStorage F) wn fid w))"
    and R_dispatch: "R w (snd (st_SaveFlowContextAndDispatchAction (engStorage F) wn fid c reqs w))"
    and R_retry: "R w (snd (st_Retry (engStorage F) wn fid name a d w))"
    and R_delay: "R w (snd (st_Delay (engStorage F) wn fid name a d w))"
    and R_workflow: "R w (snd (ms_GetWorkflowDefinition (engMetadata F) wn w))"
    and R_action: "R w (snd (ms_GetActionDefinition (engMetadata F) name w))"
begin

definition worlds :: "'w shard_state \<Rightarrow> 'w shard_state \<Rightarrow> bool" where
  "worlds s s' \<longleftrightarrow> R (world s) (world s')"

lemma worlds_trans: "transp worlds" and worlds_refl: "reflp worlds"
  using R_refl R_trans by (auto simp: transp_def reflp_def worlds_def)

lemma worlds_onWorld: "(\<And>w. R w (snd (f w))) \<Longrightarrow> keeps worlds (onWorld f)"
  by (simp add: keeps_def worlds_def onWorld_run)

lemma worlds_onWorldR: "(\<And>w. R w (snd (f w))) \<Longrightarrow> keeps worlds (onWorldR f)"
  by (simp add: keeps_def worlds_def onWorldR_run)

lemma R_GetFlow: "R w (snd (GetFlow rt (engMetadata F) wn fid w))"
  using R_workflow [of w wn] by (auto simp: GetFlow_def split: prod.splits sum.splits)

lemma R_handler: "R w (snd (run_handler (engStorage F) st wn fid w))"
  using R_delete R_refl by (auto simp: run_handler_def)

lemma worlds_local:
  "keeps worlds (container_Store wn fid sm)" "keeps worlds (container_Delete wn fid)"
  "keeps worlds (container_lookup wn fid)" "keeps worlds (record_event ev)"
  using R_refl by (auto simp: keeps_def worlds_def container_Store_def container_Delete_def container_lookup_def
      record_event_def split: option.splits)

lemmas worlds_rules = keeps_bind [OF worlds_trans] keeps_ret [OF worlds_refl] keeps_liftR [OF worlds_refl]
  keeps_forM [OF worlds_trans worlds_refl] keeps_split worlds_onWorld worlds_onWorldR worlds_local

lemmas worlds_laws = R_get R_save R_delete R_dispatch R_retry R_delay R_workflow R_action R_GetFlow R_handler

section \<open>The container and the state changes\<close>

lemma worlds_Get: "keeps worlds (container_Get F wn fid)"
  unfolding container_Get_def by (intro worlds_rules worlds_laws)

lemma worlds_container_Init: "keeps worlds (container_Init F wn fid input)"
  unfolding container_Init_def by (intro worlds_rules worlds_laws)

lemma worlds_changeState: "keeps worlds (changeStateWithEvent F wn fid st event)"
  unfolding changeStateWithEvent_def by (intro worlds_rules worlds_laws worlds_Get)

lemma worlds_marks:
  "keeps worlds (MarkComplete F wn fid h)" "keeps worlds (MarkFailed F wn fid)" "keeps worlds (MarkPaused F wn fid)"
  "keeps worlds (MarkWaitingDelay F wn fid)" "keeps worlds (MarkWaitingEvent F wn fid ev)"
  "keeps worlds (MarkRunning F wn fid)"
  unfolding MarkComplete_def MarkFailed_def MarkPaused_def MarkWaitingDelay_def MarkWaitingEvent_def
    MarkRunning_def changeState_def
  by (rule worlds_changeState)+

lemma worlds_dispatch: "keeps worlds (saveContextAndDispatchAction F wn fid ids fl c)"
  unfolding saveContextAndDispatchAction_def by (intro worlds_rules worlds_laws)

section \<open>The operations\<close>

lemma worlds_Init: "keeps worlds (Init F wn fid input)"
  unfolding Init_def by (intro worlds_rules worlds_container_Init worlds_dispatch)

lemma worlds_engine_GetFlow: "keeps worlds (engine_GetFlow F wn fid)"
  unfolding engine_GetFlow_def by (intro worlds_rules worlds_laws)

lemma worlds_execute: "keeps worlds (execute F wn fid a event d resume)"
  unfolding execute_def by (intro worlds_rules worlds_laws worlds_Get worlds_marks worlds_dispatch)

lemma worlds_ExecuteAction: "keeps worlds (ExecuteAction F wn fid event a d)"
  "keeps worlds (ExecuteActionResume F wn fid event a d)" "keeps worlds (ExecuteDelay F wn fid a)"
  unfolding ExecuteAction_def ExecuteActionResume_def ExecuteDelay_def by (rule worlds_execute)+

lemma worlds_DelayFlowAction: "keeps worlds (DelayFlowAction F wn fid name a d)"
  unfolding DelayFlowAction_def by (intro worlds_rules worlds_laws worlds_Get)

lemma worlds_ExecuteSystemAction: "keeps worlds (ExecuteSystemAction F wn fid a)"
  unfolding ExecuteSystemAction_def run_system_action_def RecordActionFailure_def RecordActionSuccess_def
  by (intro worlds_rules worlds_laws worlds_Get worlds_marks worlds_ExecuteAction worlds_DelayFlowAction)

lemma worlds_retries:
  "keeps worlds (RetryFailedAction F wn fid name a)" "keeps worlds (RetryTimedoutAction F wn fid name a)"
  "keeps worlds (ExecuteRetry F wn fid a)"
  unfolding RetryFailedAction_def RetryTimedoutAction_def with_definition_def ExecuteRetry_def RecordActionFailure_def
  by (intro worlds_rules worlds_laws worlds_Get worlds_marks worlds_dispatch)+

lemma worlds_resumes:
  "keeps worlds (ExecuteResume F wn fid event)" "keeps worlds (ExecuteResumeAfterWait F wn fid event)"
  unfolding ExecuteResume_def ExecuteResumeAfterWait_def
  by (intro worlds_rules worlds_laws worlds_Get worlds_ExecuteAction)+

lemmas worlds_operations = worlds_Init worlds_engine_GetFlow worlds_ExecuteAction worlds_ExecuteSystemAction
  worlds_retries worlds_resumes worlds_marks

end

end
