(* ===== verification/Executors.thy ===== *)
theory Executors
  imports External_Queue Engine_Frame
begin

text \<open>
  The executors of a shard, \<open>src/shard/executor\<close>: each repeats its \<open>handle\<close> method, which
  polls a queue of the storage and passes every action on: to the engine, or to the queue the
  workers poll. A handler returns whether it did something; the loop around it, which sleeps
  after a turn without work, is the subject of theory \<open>Worker_Loop\<close>.

  The locale \<open>action_queues\<close> states what the two action queues promise; the lemmas in it show
  that an action is taken out of its queue only by the acknowledgement that follows its handling,
  so that a crash in between does not lose it.
\<close>

section \<open>Definitions\<close>

text \<open>\<open>ConvertToProto\<close> of \<open>src/util/proto_util.go\<close>; \<open>newValue\<close> is \<open>structpb.NewValue\<close>, whose
  failures drop the entry.\<close>

definition ConvertToProto :: "(any \<Rightarrow> any option) \<Rightarrow> anymap \<Rightarrow> anymap" where
  "ConvertToProto newValue data =
     fmmap the (fmfilter (\<lambda>k. case fmlookup data k of None \<Rightarrow> False | Some v \<Rightarrow> newValue v \<noteq> None)
       (fmmap newValue data))"

record 'w Shard =
  shEngine :: "'w FlowEngine"
  shQueue :: "'w ExternalQueue"
  shBatchSize :: int
  shNewValue :: "any \<Rightarrow> any option"

abbreviation shStorage :: "'w Shard \<Rightarrow> 'w Storage" where
  "shStorage sh \<equiv> engStorage (shEngine sh)"

subsection \<open>User actions\<close>

definition push_user_action :: "'w Shard \<Rightarrow> ActionExecutionRequest \<Rightarrow> ('w shard_state, unit) M" where
  "push_user_action sh action =
     (let F = shEngine sh; wn = aeWorkflowName action; fid = aeFlowId action in
      bindM (onWorld (st_GetFlowContext (engStorage F) wn fid)) (\<lambda>r. case r of
        Inl _ \<Rightarrow> ret ()
      | Inr flowCtx \<Rightarrow>
        bindM (onWorldR (GetFlow (engRuntime F) (engMetadata F) wn fid)) (\<lambda>g. case g of
          Inl _ \<Rightarrow> ret ()
        | Inr fl \<Rightarrow>
          (case fmlookup (flowActions fl) (aeActionId action) of
             None \<Rightarrow> liftR (Panic NilDeref)
           | Some currentAction \<Rightarrow>
               let act = \<lparr>paWorkflowName = wn, paFlowId = fid,
                     paData = ConvertToProto (shNewValue sh)
                       (ResolveInputParams (JsonPathLookup (engExternals F)) flowCtx (GetInputParams currentAction)),
                     paActionId = i32 (aeActionId action), paActionName = aeActionName action\<rparr>
               in bindM (onWorld (eq_Push (shQueue sh) act)) (\<lambda>_. ret ())))))"

definition userAction_handle :: "'w Shard \<Rightarrow> ('w shard_state, bool) M" where
  "userAction_handle sh =
     bindM (onWorldR (st_PollAction (shStorage sh) ''user'' (shBatchSize sh))) (\<lambda>r. case r of
       Inl _ \<Rightarrow> ret False
     | Inr actions \<Rightarrow>
         if length actions = 0 then ret False
         else bindM (forM actions (push_user_action sh)) (\<lambda>_.
              bindM (onWorld (st_Ack (shStorage sh) ''user'' actions)) (\<lambda>_. ret True)))"

subsection \<open>System actions\<close>

definition systemAction_handle :: "'w Shard \<Rightarrow> ('w shard_state, bool) M" where
  "systemAction_handle sh =
     bindM (onWorldR (st_PollAction (shStorage sh) ''system'' (shBatchSize sh))) (\<lambda>r. case r of
       Inl _ \<Rightarrow> ret False
     | Inr actions \<Rightarrow>
         if length actions = 0 then ret False
         else bindM (forM actions (\<lambda>action. ExecuteSystemAction (shEngine sh)
                (aeWorkflowName action) (aeFlowId action) (aeActionId action))) (\<lambda>_.
              bindM (onWorld (st_Ack (shStorage sh) ''system'' actions)) (\<lambda>_. ret True)))"

subsection \<open>Delays, retries and timeouts\<close>

definition delay_handle :: "'w Shard \<Rightarrow> ('w shard_state, bool) M" where
  "delay_handle sh =
     bindM (onWorldR (st_PollDelay (shStorage sh))) (\<lambda>r. case r of
       Inl _ \<Rightarrow> ret False
     | Inr actions \<Rightarrow>
         if length actions = 0 then ret False
         else bindM (forM actions (\<lambda>action. ExecuteDelay (shEngine sh)
                (aeWorkflowName action) (aeFlowId action) (aeActionId action))) (\<lambda>_. ret True))"

definition retry_handle :: "'w Shard \<Rightarrow> ('w shard_state, bool) M" where
  "retry_handle sh =
     bindM (onWorldR (st_PollRetry (shStorage sh))) (\<lambda>r. case r of
       Inl _ \<Rightarrow> ret False
     | Inr actions \<Rightarrow>
         if length actions = 0 then ret False
         else bindM (forM actions (\<lambda>action. ExecuteRetry (shEngine sh)
                (aeWorkflowName action) (aeFlowId action) (aeActionId action))) (\<lambda>_. ret True))"

definition timeout_handle :: "'w Shard \<Rightarrow> ('w shard_state, bool) M" where
  "timeout_handle sh =
     bindM (onWorldR (st_PollTimeout (shStorage sh))) (\<lambda>r. case r of
       Inl _ \<Rightarrow> ret False
     | Inr actions \<Rightarrow>
         if length actions = 0 then ret False
         else bindM (forM actions (\<lambda>action. RetryTimedoutAction (shEngine sh)
                (aeWorkflowName action) (aeFlowId action) (aeActionName action) (aeActionId action))) (\<lambda>_. ret True))"

section \<open>The contract of the action queues\<close>

definition request_message :: "ActionExecutionRequest \<Rightarrow> string" where
  "request_message act = message (aeWorkflowName act) (aeFlowId act) (aeActionName act) (aeActionId act)"

locale action_queues =
  fixes sh :: "'w Shard" and pending :: "'w \<Rightarrow> string \<Rightarrow> string set"
  assumes q_get: "pending w ty \<subseteq> pending (snd (st_GetFlowContext (shStorage sh) wn fid w)) ty"
    and q_save: "pending w ty \<subseteq> pending (snd (st_SaveFlowContext (shStorage sh) wn fid c w)) ty"
    and q_delete: "pending w ty \<subseteq> pending (snd (st_DeleteFlowContext (shStorage sh) wn fid w)) ty"
    and q_dispatch: "pending w ty \<subseteq> pending (snd (st_SaveFlowContextAndDispatchAction (shStorage sh) wn fid c reqs w)) ty"
    and q_retry: "pending w ty \<subseteq> pending (snd (st_Retry (shStorage sh) wn fid name a d w)) ty"
    and q_delay: "pending w ty \<subseteq> pending (snd (st_Delay (shStorage sh) wn fid name a d w)) ty"
    and q_poll: "pending w ty \<subseteq> pending (snd (st_PollAction (shStorage sh) ty' n w)) ty"
    and q_ack: "pending w ty - (if ty' = ty then request_message ` set reqs else {}) \<subseteq>
      pending (snd (st_Ack (shStorage sh) ty' reqs w)) ty"
    and q_workflow: "pending w ty \<subseteq> pending (snd (ms_GetWorkflowDefinition (engMetadata (shEngine sh)) wn w)) ty"
    and q_action: "pending w ty \<subseteq> pending (snd (ms_GetActionDefinition (engMetadata (shEngine sh)) name w)) ty"
    and q_push: "pending w ty \<subseteq> pending (snd (eq_Push (shQueue sh) act w)) ty"
begin

end

text \<open>So no operation of the engine removes a message.\<close>

sublocale action_queues \<subseteq> frame: engine_frame "shEngine sh" "\<lambda>w w'. pending w ty \<subseteq> pending w' ty" for ty
  by unfold_locales (auto intro: q_get [THEN subsetD] q_save [THEN subsetD] q_delete [THEN subsetD]
      q_dispatch [THEN subsetD] q_retry [THEN subsetD] q_delay [THEN subsetD] q_workflow [THEN subsetD]
      q_action [THEN subsetD])

context action_queues
begin

lemma grows_push_user: "keeps (frame.worlds ty) (push_user_action sh act)"
  unfolding push_user_action_def by (intro frame.worlds_rules frame.worlds_laws q_push)

section \<open>Actions are not lost\<close>

lemma handled_then_acked:
  assumes body: "\<And>act. keeps (frame.worlds ty) (f act)"
  shows "case bindM (onWorldR (st_PollAction (shStorage sh) ty n)) (\<lambda>r. case r of
       Inl _ \<Rightarrow> ret False
     | Inr actions \<Rightarrow>
         if length actions = 0 then ret False
         else bindM (forM actions f) (\<lambda>_.
              bindM (onWorld (st_Ack (shStorage sh) ty actions)) (\<lambda>_. ret True))) s of
      (Panic p, s') \<Rightarrow> pending (world s) ty \<subseteq> pending (world s') ty
    | (Val worked, s') \<Rightarrow> if worked then
        \<exists>actions. fst (st_PollAction (shStorage sh) ty n (world s)) = Val (Inr actions) \<and>
          pending (world s) ty - request_message ` set actions \<subseteq> pending (world s') ty
      else pending (world s) ty \<subseteq> pending (world s') ty"
proof -
  let ?s1 = "s\<lparr>world := snd (st_PollAction (shStorage sh) ty n (world s))\<rparr>"
  have p: "pending (world s) ty \<subseteq> pending (world ?s1) ty" using q_poll by simp
  show ?thesis
  proof (cases "\<exists>actions. fst (st_PollAction (shStorage sh) ty n (world s)) = Val (Inr actions) \<and> actions \<noteq> []")
    case False
    obtain r w1 where r: "st_PollAction (shStorage sh) ty n (world s) = (r, w1)" by fastforce
    show ?thesis
    proof (cases r)
      case (Val x)
      then show ?thesis using False p r by (cases x) (auto simp: run_bindM run_ret onWorldR_run)
    next
      case (Panic q)
      then show ?thesis using p r by (simp add: run_bindM onWorldR_run)
    qed
  next
    case True
    then obtain actions where a: "fst (st_PollAction (shStorage sh) ty n (world s)) = Val (Inr actions)" "actions \<noteq> []" by blast
    obtain x s2 where x: "forM actions f ?s1 = (x, s2)" by fastforce
    have "keeps (frame.worlds ty) (forM actions f)" by (intro keeps_forM [OF frame.worlds_trans frame.worlds_refl] body)
    then have "frame.worlds ty ?s1 (snd (forM actions f ?s1))" unfolding keeps_def by blast
    then have g: "pending (world ?s1) ty \<subseteq> pending (world s2) ty" using x by (simp add: frame.worlds_def)
    have k: "pending (world s2) ty - request_message ` set actions \<subseteq>
        pending (snd (st_Ack (shStorage sh) ty actions (world s2))) ty"
      using q_ack [of "world s2" ty ty actions] by simp
    show ?thesis
      using a x p g k by (cases x) (auto simp: run_bindM run_ret onWorldR_run onWorld_run)
  qed
qed

lemma user_actions_not_lost:
  "case userAction_handle sh s of
      (Panic p, s') \<Rightarrow> pending (world s) ''user'' \<subseteq> pending (world s') ''user''
    | (Val worked, s') \<Rightarrow> if worked then
        \<exists>actions. fst (st_PollAction (shStorage sh) ''user'' (shBatchSize sh) (world s)) = Val (Inr actions) \<and>
          pending (world s) ''user'' - request_message ` set actions \<subseteq> pending (world s') ''user''
      else pending (world s) ''user'' \<subseteq> pending (world s') ''user''"
  unfolding userAction_handle_def by (rule handled_then_acked [OF grows_push_user])

lemma system_actions_not_lost:
  "case systemAction_handle sh s of
      (Panic p, s') \<Rightarrow> pending (world s) ''system'' \<subseteq> pending (world s') ''system''
    | (Val worked, s') \<Rightarrow> if worked then
        \<exists>actions. fst (st_PollAction (shStorage sh) ''system'' (shBatchSize sh) (world s)) = Val (Inr actions) \<and>
          pending (world s) ''system'' - request_message ` set actions \<subseteq> pending (world s') ''system''
      else pending (world s) ''system'' \<subseteq> pending (world s') ''system''"
  unfolding systemAction_handle_def by (rule handled_then_acked [OF frame.worlds_ExecuteSystemAction])

end

section \<open>Actions that could not be handled\<close>

text \<open>A turn acknowledges every action it has polled, also one whose context could not be read or that the
  queue of the workers refused: the error is dropped, and the action with it.\<close>

lemma push_user_action_unreadable:
  assumes "isl (fst (st_GetFlowContext (shStorage sh) (aeWorkflowName a) (aeFlowId a) (world s)))"
  shows "\<exists>w. push_user_action sh a s = (Val (), s\<lparr>world := w\<rparr>)"
  using assms by (cases "fst (st_GetFlowContext (shStorage sh) (aeWorkflowName a) (aeFlowId a) (world s))")
    (auto simp: push_user_action_def Let_def run_bindM run_ret onWorld_run)

lemma unreadable_actions_acked:
  assumes "st_PollAction (shStorage sh) ''user'' (shBatchSize sh) (world s) = (Val (Inr actions), w1)" and "actions \<noteq> []"
    and "\<And>a w. a \<in> set actions \<Longrightarrow> isl (fst (st_GetFlowContext (shStorage sh) (aeWorkflowName a) (aeFlowId a) w))"
  shows "\<exists>w2. userAction_handle sh s = (Val True, s\<lparr>world := snd (st_Ack (shStorage sh) ''user'' actions w2)\<rparr>)"
proof -
  have "\<exists>w. forM as (push_user_action sh) s = (Val (), s\<lparr>world := w\<rparr>)" if "set as \<subseteq> set actions" for as s
    using that
  proof (induction as arbitrary: s)
    case Nil
    show ?case by (rule exI [where x = "world s"]) (simp add: run_ret)
  next
    case (Cons a as)
    obtain w where w: "push_user_action sh a s = (Val (), s\<lparr>world := w\<rparr>)"
      using push_user_action_unreadable assms(3) Cons.prems by (metis list.set_intros(1) subsetD)
    then show ?case using Cons.IH [of "s\<lparr>world := w\<rparr>"] Cons.prems by (auto simp: run_bindM)
  qed
  then obtain w2 where "forM actions (push_user_action sh) (s\<lparr>world := w1\<rparr>) = (Val (), s\<lparr>world := w1, world := w2\<rparr>)"
    by blast
  then show ?thesis using assms(1,2) by (auto simp: userAction_handle_def run_bindM run_ret onWorldR_run onWorld_run)
qed

end
