(* ===== verification/Hash_Ring.thy ===== *)
theory Hash_Ring
  imports Slices
begin

text \<open>
  The partitions of a cluster: \<open>src/cluster/ring.go\<close>, \<open>src/cluster/membership.go\<close> and the
  rebalancing of \<open>src/cluster/cluster.go\<close> and \<open>src/shard/shard.go\<close>. The consistent-hashing
  library and the random shuffle are parameters; the locale \<open>consistent_hash\<close> states what the
  ring relies on: the library keeps the set of members, gives every partition an owner among
  them, and the owners depend on the members only.

  The executors of a shard are their \<open>running\<close> flags; how a flag follows \<open>Start\<close> and
  \<open>Stop\<close> is the subject of \<open>Worker_Loop\<close>.
\<close>

section \<open>Definitions\<close>

record Node =
  nodeName :: string
  nodeAddr :: string

record 'h consistentLib =
  cl_New :: "int \<Rightarrow> 'h"
  cl_Add :: "Node \<Rightarrow> 'h \<Rightarrow> 'h"
  cl_Remove :: "string \<Rightarrow> 'h \<Rightarrow> 'h"
  cl_FindPartitionID :: "'h \<Rightarrow> string \<Rightarrow> int"
  cl_GetPartitionOwner :: "'h \<Rightarrow> int \<Rightarrow> Node option"

record 'h Ring =
  partitionCount :: int
  hring :: 'h
  nodes :: "(string, Node) fmap"
  localNode :: Node

text \<open>The local node is Go's zero value until it joins.\<close>

definition NewRing :: "'h consistentLib \<Rightarrow> int \<Rightarrow> 'h Ring" where
  "NewRing L n = \<lparr>partitionCount = n, hring = cl_New L n, nodes = fmempty,
     localNode = \<lparr>nodeName = '''', nodeAddr = ''''\<rparr>\<rparr>"

definition GetPartition :: "'h consistentLib \<Rightarrow> 'h Ring \<Rightarrow> string \<Rightarrow> int" where
  "GetPartition L r key = cl_FindPartitionID L (hring r) key"

text \<open>The loop of \<open>GetPartitions\<close> from \<open>i\<close> with \<open>k\<close> turns to go; a partition without an owner
  is a nil interface.\<close>

fun partitions_from :: "'h consistentLib \<Rightarrow> 'h Ring \<Rightarrow> nat \<Rightarrow> int \<Rightarrow> int list res" where
  "partitions_from L r 0 i = Val []"
| "partitions_from L r (Suc k) i =
     (case cl_GetPartitionOwner L (hring r) i of
        None \<Rightarrow> Panic NilDeref
      | Some owner \<Rightarrow> bind_res (partitions_from L r k (i + 1)) (\<lambda>ps.
          Val (if nodeName owner = nodeName (localNode r) then i # ps else ps)))"

definition GetPartitions :: "'h consistentLib \<Rightarrow> (int list \<Rightarrow> int list) \<Rightarrow> 'h Ring \<Rightarrow> int list res" where
  "GetPartitions L shuffle r =
     bind_res (partitions_from L r (nat (partitionCount r)) 0) (\<lambda>ps. Val (shuffle ps))"

definition GetServers :: "(string list \<Rightarrow> string list) \<Rightarrow> 'h Ring \<Rightarrow> (string \<times> string) list" where
  "GetServers ord r = map (\<lambda>k. case fmlookup (nodes r) k of
     None \<Rightarrow> ('''', '''') | Some nd \<Rightarrow> (nodeName nd, nodeAddr nd)) (range_keys ord (nodes r))"

subsection \<open>Starting and stopping executors\<close>

type_synonym executors = "(string, bool) fmap"

definition executor_names :: "string list" where
  "executor_names = [''user-action'', ''system-action'', ''delay'', ''retry'', ''timeout'']"

definition new_executors :: executors where
  "new_executors = fmap_of_list (map (\<lambda>n. (n, False)) executor_names)"

definition shard_Start :: "executors \<Rightarrow> executors" where
  "shard_Start ex = fmmap (\<lambda>_. True) ex"

definition shard_Stop :: "executors \<Rightarrow> executors" where
  "shard_Stop ex = fmmap (\<lambda>_. False) ex"

fun contains :: "int list \<Rightarrow> int \<Rightarrow> bool" where
  "contains [] e = False"
| "contains (a # s) e = (if a = e then True else contains s e)"

type_synonym shard_executors = "(int, executors) fmap"

definition Rebalance :: "int list \<Rightarrow> shard_executors \<Rightarrow> shard_executors" where
  "Rebalance partitions shards =
     fmmap_keys (\<lambda>i ex. if contains partitions i then shard_Start ex else shard_Stop ex) shards"

definition cluster_Start :: "shard_executors \<Rightarrow> shard_executors" where
  "cluster_Start shards = fmmap shard_Start shards"

definition cluster_Stop :: "shard_executors \<Rightarrow> shard_executors" where
  "cluster_Stop shards = fmmap shard_Stop shards"

subsection \<open>Joining and leaving\<close>

text \<open>A node's view of the cluster: its ring and the executors of its shards. A panic inside a
  mutation leaves the ring changed.\<close>

record 'h cluster_state =
  csRing :: "'h Ring"
  csShards :: shard_executors

definition new_cluster_state :: "'h consistentLib \<Rightarrow> int \<Rightarrow> 'h cluster_state" where
  "new_cluster_state L n = \<lparr>csRing = NewRing L n,
     csShards = fmap_of_list (map (\<lambda>i. (int i, new_executors)) [0..<nat n])\<rparr>"

definition rebalance_ring ::
  "'h consistentLib \<Rightarrow> (int list \<Rightarrow> int list) \<Rightarrow> 'h Ring \<Rightarrow> shard_executors \<Rightarrow> unit res \<times> 'h cluster_state" where
  "rebalance_ring L shuffle r shards =
     (case GetPartitions L shuffle r of
        Panic p \<Rightarrow> (Panic p, \<lparr>csRing = r, csShards = shards\<rparr>)
      | Val ps \<Rightarrow> (Val (), \<lparr>csRing = r, csShards = Rebalance ps shards\<rparr>))"

definition ring_Join ::
  "'h consistentLib \<Rightarrow> (int list \<Rightarrow> int list) \<Rightarrow> string \<Rightarrow> string \<Rightarrow> bool \<Rightarrow> 'h cluster_state \<Rightarrow>
   unit res \<times> 'h cluster_state" where
  "ring_Join L shuffle name addr isLocal c =
     (let r = csRing c in
      if fmlookup (nodes r) name \<noteq> None then (Val (), c)
      else let node = \<lparr>nodeName = name, nodeAddr = addr\<rparr>;
               r1 = (if isLocal then r\<lparr>localNode := node\<rparr> else r);
               r2 = r1\<lparr>nodes := fmupd name node (nodes r1), hring := cl_Add L node (hring r1)\<rparr>
           in rebalance_ring L shuffle r2 (csShards c))"

definition ring_Leave ::
  "'h consistentLib \<Rightarrow> (int list \<Rightarrow> int list) \<Rightarrow> string \<Rightarrow> 'h cluster_state \<Rightarrow> unit res \<times> 'h cluster_state" where
  "ring_Leave L shuffle name c =
     (let r = csRing c;
          r1 = r\<lparr>nodes := fmdrop name (nodes r), hring := cl_Remove L name (hring r)\<rparr>
      in rebalance_ring L shuffle r1 (csShards c))"

subsection \<open>Membership events\<close>

text \<open>A serf event with its members; a member is its name and the tag \<open>rpc_addr\<close>.\<close>

datatype serf_event =
    EventMemberJoin "(string \<times> string) list"
  | EventMemberLeave "(string \<times> string) list"
  | EventMemberFailed "(string \<times> string) list"
  | OtherEvent

text \<open>The handlers return whether the goroutine goes on: it ends when the local member leaves.\<close>

fun handle_joins where
  "handle_joins L shuffle me [] c = (Val True, c)"
| "handle_joins L shuffle me ((name, addr) # ms) c =
     (case ring_Join L shuffle name addr (me = name) c of
        (Panic p, c') \<Rightarrow> (Panic p, c')
      | (Val _, c') \<Rightarrow> handle_joins L shuffle me ms c')"

fun handle_leaves where
  "handle_leaves L shuffle me [] c = (Val True, c)"
| "handle_leaves L shuffle me ((name, addr) # ms) c =
     (if me = name then (Val False, c)
      else case ring_Leave L shuffle name c of
        (Panic p, c') \<Rightarrow> (Panic p, c')
      | (Val _, c') \<Rightarrow> handle_leaves L shuffle me ms c')"

fun handle_event ::
  "'h consistentLib \<Rightarrow> (int list \<Rightarrow> int list) \<Rightarrow> string \<Rightarrow> serf_event \<Rightarrow> 'h cluster_state \<Rightarrow>
   bool res \<times> 'h cluster_state" where
  "handle_event L shuffle me (EventMemberJoin ms) c = handle_joins L shuffle me ms c"
| "handle_event L shuffle me (EventMemberLeave ms) c = handle_leaves L shuffle me ms c"
| "handle_event L shuffle me (EventMemberFailed ms) c = handle_leaves L shuffle me ms c"
| "handle_event L shuffle me OtherEvent c = (Val True, c)"

fun eventHandler ::
  "'h consistentLib \<Rightarrow> (int list \<Rightarrow> int list) \<Rightarrow> string \<Rightarrow> serf_event list \<Rightarrow> 'h cluster_state \<Rightarrow>
   unit res \<times> 'h cluster_state" where
  "eventHandler L shuffle me [] c = (Val (), c)"
| "eventHandler L shuffle me (e # es) c =
     (case handle_event L shuffle me e c of
        (Panic p, c') \<Rightarrow> (Panic p, c')
      | (Val goes_on, c') \<Rightarrow> if goes_on then eventHandler L shuffle me es c' else (Val (), c'))"

section \<open>Partitions\<close>

lemma partitions_from_range:
  "partitions_from L r k i = Val ps \<Longrightarrow> distinct ps \<and> set ps \<subseteq> {i..<i + int k}"
proof (induction k arbitrary: i ps)
  case (Suc k)
  then obtain owner qs where o: "cl_GetPartitionOwner L (hring r) i = Some owner"
    and q: "partitions_from L r k (i + 1) = Val qs"
    and ps: "ps = (if nodeName owner = nodeName (localNode r) then i # qs else qs)"
    by (auto simp: bind_res_Val_iff split: option.splits)
  then show ?case using Suc.IH [OF q] by auto
qed simp

lemma GetPartitions_range:
  assumes "GetPartitions L shuffle r = Val ps" and "perm_fun shuffle"
  shows "distinct ps" and "set ps \<subseteq> {0..<partitionCount r}"
proof -
  obtain qs where q: "partitions_from L r (nat (partitionCount r)) 0 = Val qs" "ps = shuffle qs"
    using assms(1) by (auto simp: GetPartitions_def bind_res_Val_iff)
  have m: "mset ps = mset qs" using assms(2) q(2) by (simp add: perm_fun_def)
  note R = partitions_from_range [OF q(1)]
  show "distinct ps" using R mset_eq_imp_distinct_iff [OF m] by simp
  show "set ps \<subseteq> {0..<partitionCount r}" using R mset_eq_setD [OF m] by (auto split: if_splits)
qed

section \<open>Shards and executors\<close>

lemma contains_iff [simp]: "contains ps i \<longleftrightarrow> i \<in> set ps"
  by (induction ps) auto

text \<open>All executors of a shard run, or none does.\<close>

definition all_running :: "bool \<Rightarrow> executors \<Rightarrow> bool" where
  "all_running b ex \<longleftrightarrow> fmdom' ex = set executor_names \<and> (\<forall>v \<in> fmran' ex. v = b)"

lemma shard_Start_Stop:
  assumes "fmdom' ex = set executor_names"
  shows "all_running True (shard_Start ex)" "all_running False (shard_Stop ex)"
  using assms by (auto simp: all_running_def shard_Start_def shard_Stop_def fmran'_def split: if_splits elim!: fmran'E)

definition shards_ok :: "int \<Rightarrow> shard_executors \<Rightarrow> bool" where
  "shards_ok n shards \<longleftrightarrow> fmdom' shards = {0..<n} \<and> (\<forall>ex \<in> fmran' shards. fmdom' ex = set executor_names)"

definition serving_shards :: "shard_executors \<Rightarrow> int set" where
  "serving_shards shards = {i. \<exists>ex. fmlookup shards i = Some ex \<and> all_running True ex}"

lemma Rebalance_serving:
  assumes "shards_ok n shards"
  shows "shards_ok n (Rebalance ps shards)" "serving_shards (Rebalance ps shards) = {0..<n} \<inter> set ps"
proof -
  have d: "fmdom' ex = set executor_names" if "fmlookup shards i = Some ex" for i ex
    using assms that by (auto simp: shards_ok_def intro: fmran'I)
  have l: "fmlookup (Rebalance ps shards) i =
      map_option (\<lambda>ex. if i \<in> set ps then shard_Start ex else shard_Stop ex) (fmlookup shards i)" for i
    by (simp add: Rebalance_def)
  have dom: "i \<in> {0..<n} \<longleftrightarrow> fmlookup shards i \<noteq> None" for i
    using assms by (auto simp: shards_ok_def fmlookup_dom'_iff)
  have e: "fmdom' ex = set executor_names" if x: "fmlookup (Rebalance ps shards) i = Some ex" for i ex
  proof -
    obtain ex0 where "fmlookup shards i = Some ex0" using x l by (cases "fmlookup shards i") auto
    then show ?thesis using x l d by (auto simp: shard_Start_def shard_Stop_def split: if_splits)
  qed
  have "fmdom' (Rebalance ps shards) = fmdom' shards" by (auto simp: fmlookup_dom'_iff l)
  then show "shards_ok n (Rebalance ps shards)" using assms e by (auto simp: shards_ok_def elim!: fmran'E)
  have "\<not> all_running True (shard_Stop ex)" if "fmdom' ex = set executor_names" for ex
  proof -
    have "''delay'' \<in> fmdom' ex" using that by (simp add: executor_names_def)
    then obtain v where "fmlookup ex ''delay'' = Some v" by (auto simp: fmlookup_dom'_iff)
    then have "False \<in> fmran' (shard_Stop ex)" by (intro fmran'I [of _ "''delay''"]) (simp add: shard_Stop_def)
    then show ?thesis by (auto simp: all_running_def)
  qed
  then show "serving_shards (Rebalance ps shards) = {0..<n} \<inter> set ps"
    using d dom l shard_Start_Stop(1) by (auto simp: serving_shards_def split: if_splits)
qed

lemma new_executors_dom: "fmdom' new_executors = set executor_names"
  by (simp add: new_executors_def executor_names_def)

lemma new_shards_lookup:
  "fmlookup (csShards (new_cluster_state L n)) i = (if 0 \<le> i \<and> i < n then Some new_executors else None)"
proof -
  have "map_of (map (\<lambda>i. (int i, new_executors)) xs) i = (if i \<in> int ` set xs then Some new_executors else None)" for xs
    by (induction xs) auto
  moreover have "i \<in> int ` set [0..<nat n] \<longleftrightarrow> 0 \<le> i \<and> i < n"
    by (auto simp: image_iff intro!: bexI [where x = "nat i"])
  ultimately show ?thesis by (simp add: new_cluster_state_def fmlookup_of_list)
qed

lemma new_shards_ok: "shards_ok n (csShards (new_cluster_state L n))"
proof -
  have "fmdom' (csShards (new_cluster_state L n)) = {0..<n}" by (auto simp: fmlookup_dom'_iff new_shards_lookup split: if_splits)
  then show ?thesis by (auto simp: shards_ok_def new_shards_lookup new_executors_dom elim!: fmran'E split: if_splits)
qed

lemma new_shards_idle: "serving_shards (csShards (new_cluster_state L n)) = {}"
proof -
  have "\<not> all_running True new_executors" by code_simp
  then show ?thesis by (auto simp: serving_shards_def new_shards_lookup split: if_splits)
qed

section \<open>The contract of the hash ring\<close>

locale consistent_hash =
  fixes L :: "'h consistentLib" and n :: int and members :: "'h \<Rightarrow> string set"
    and shuffle :: "int list \<Rightarrow> int list"
  assumes members_new: "members (cl_New L n) = {}"
    and members_add: "members (cl_Add L nd h) = insert (nodeName nd) (members h)"
    and members_remove: "members (cl_Remove L name h) = members h - {name}"
    and owner_none: "members h = {} \<Longrightarrow> cl_GetPartitionOwner L h i = None"
    and owner_some: "members h \<noteq> {} \<Longrightarrow> 0 \<le> i \<Longrightarrow> i < n \<Longrightarrow>
      \<exists>nd. cl_GetPartitionOwner L h i = Some nd \<and> nodeName nd \<in> members h"
    and owner_members: "members h = members h' \<Longrightarrow>
      map_option nodeName (cl_GetPartitionOwner L h i) = map_option nodeName (cl_GetPartitionOwner L h' i)"
    and find_bounds: "0 \<le> cl_FindPartitionID L h key" "cl_FindPartitionID L h key < n"
    and find_members: "cl_FindPartitionID L h key = cl_FindPartitionID L h' key"
    and shuffle_perm: "mset (shuffle ps) = mset ps"
begin

definition owner :: "'h \<Rightarrow> int \<Rightarrow> string option" where
  "owner h i = map_option nodeName (cl_GetPartitionOwner L h i)"

definition owned :: "'h Ring \<Rightarrow> int set" where
  "owned r = {i \<in> {0..<n}. owner (hring r) i = Some (nodeName (localNode r))}"

definition ring_inv :: "'h Ring \<Rightarrow> bool" where
  "ring_inv r \<longleftrightarrow> partitionCount r = n \<and> members (hring r) = fmdom' (nodes r)"

lemma partitions_from_ok:
  assumes "members (hring r) \<noteq> {}" and "0 \<le> i" and "i + int k \<le> n"
  shows "\<exists>ps. partitions_from L r k i = Val ps \<and> distinct ps \<and>
    set ps = {j. i \<le> j \<and> j < i + int k \<and> owner (hring r) j = Some (nodeName (localNode r))}"
  using assms(2,3)
proof (induction k arbitrary: i)
  case (Suc k)
  obtain ps where ps: "partitions_from L r k (i + 1) = Val ps" "distinct ps"
    "set ps = {j. i + 1 \<le> j \<and> j < i + 1 + int k \<and> owner (hring r) j = Some (nodeName (localNode r))}"
    using Suc.IH [of "i + 1"] Suc.prems by auto
  obtain nd where nd: "cl_GetPartitionOwner L (hring r) i = Some nd"
    using owner_some [OF assms(1)] Suc.prems by fastforce
  have "{j. i \<le> j \<and> j < i + int (Suc k) \<and> owner (hring r) j = Some (nodeName (localNode r))} =
      (if nodeName nd = nodeName (localNode r) then insert i (set ps) else set ps)"
    using nd by (auto simp: ps(3) owner_def order_le_less)
  then show ?case using ps nd by auto
qed simp

lemma GetPartitions_ok:
  assumes "ring_inv r" and "nodes r \<noteq> fmempty"
  shows "\<exists>ps. GetPartitions L shuffle r = Val ps \<and> distinct ps \<and> set ps = owned r"
proof -
  have m: "members (hring r) \<noteq> {}"
    using assms by (metis ring_inv_def fmdom'_empty fmrestrict_set_dom fmrestrict_set_null)
  have "0 \<le> n" using find_bounds [of "hring r" "''''"] by linarith
  then obtain ps where ps: "partitions_from L r (nat n) 0 = Val ps" "distinct ps" "set ps = owned r"
    using partitions_from_ok [OF m, of 0 "nat n"] by (auto simp: owned_def)
  have "set (shuffle ps) = set ps" "distinct (shuffle ps)"
    using shuffle_perm [of ps] ps(2) by (metis mset_eq_setD, metis mset_eq_imp_distinct_iff)
  then show ?thesis using ps assms(1) by (simp add: GetPartitions_def ring_inv_def)
qed

lemma GetPartitions_panics:
  assumes "ring_inv r" and "nodes r = fmempty"
  shows "GetPartitions L shuffle r = Panic NilDeref"
proof -
  have "0 < nat n" using find_bounds [of "hring r" "''''"] by simp
  then obtain k where "nat n = Suc k" by (cases "nat n") auto
  then show ?thesis using assms owner_none [of "hring r"] by (simp add: GetPartitions_def ring_inv_def)
qed

section \<open>Executors follow the membership\<close>

definition node_ok :: "string \<Rightarrow> 'h cluster_state \<Rightarrow> bool" where
  "node_ok me c \<longleftrightarrow> ring_inv (csRing c) \<and> shards_ok n (csShards c) \<and>
     (me \<in> fmdom' (nodes (csRing c)) \<longrightarrow> nodeName (localNode (csRing c)) = me)"

definition balanced :: "'h cluster_state \<Rightarrow> bool" where
  "balanced c \<longleftrightarrow> serving_shards (csShards c) = owned (csRing c)"

lemma new_node_ok: "node_ok me (new_cluster_state L n)" "balanced (new_cluster_state L n)"
  using new_shards_ok [of n L] new_shards_idle [of L n]
  by (simp_all add: node_ok_def balanced_def ring_inv_def new_cluster_state_def NewRing_def members_new owned_def
      owner_def owner_none)

lemma rebalance_ok:
  assumes "ring_inv r" and "shards_ok n shards" and "rebalance_ring L shuffle r shards = (x, c')"
  shows "csRing c' = r \<and> shards_ok n (csShards c') \<and> (nodes r \<noteq> fmempty \<longrightarrow> x = Val ()) \<and> (x = Val () \<longrightarrow> balanced c')"
proof (cases "nodes r = fmempty")
  case True
  then show ?thesis using assms GetPartitions_panics [OF assms(1)] by (auto simp: rebalance_ring_def)
next
  case False
  then obtain ps where "GetPartitions L shuffle r = Val ps" "set ps = owned r"
    using GetPartitions_ok [OF assms(1)] by blast
  then show ?thesis
    using assms Rebalance_serving [OF assms(2), of ps] by (auto simp: rebalance_ring_def balanced_def owned_def)
qed

lemma ring_Join_ok:
  assumes "node_ok me c" "balanced c" and j: "ring_Join L shuffle name addr (me = name) c = (x, c')"
  shows "x = Val () \<and> node_ok me c' \<and> balanced c' \<and>
    fmdom' (nodes (csRing c')) = insert name (fmdom' (nodes (csRing c)))"
proof (cases "fmlookup (nodes (csRing c)) name")
  case (Some nd)
  then show ?thesis using assms by (auto simp: ring_Join_def Let_def fmlookup_dom'_iff)
next
  case None
  let ?nd = "\<lparr>nodeName = name, nodeAddr = addr\<rparr>"
  let ?r1 = "if me = name then (csRing c)\<lparr>localNode := ?nd\<rparr> else csRing c"
  let ?r2 = "?r1\<lparr>nodes := fmupd name ?nd (nodes ?r1), hring := cl_Add L ?nd (hring ?r1)\<rparr>"
  have j': "rebalance_ring L shuffle ?r2 (csShards c) = (x, c')" using j None by (simp add: ring_Join_def Let_def)
  have i: "ring_inv ?r2" using assms(1) by (auto simp: node_ok_def ring_inv_def members_add)
  have "shards_ok n (csShards c)" using assms(1) by (simp add: node_ok_def)
  note R = rebalance_ok [OF i this j']
  have "fmlookup (nodes ?r2) name = Some ?nd" by simp
  then have "nodes ?r2 \<noteq> fmempty" by (metis fmempty_lookup option.distinct(1))
  then show ?thesis using R i assms(1) by (auto simp: node_ok_def)
qed

lemma ring_Leave_ok:
  assumes "node_ok me c" "balanced c" "me \<noteq> name" and l: "ring_Leave L shuffle name c = (x, c')"
  shows "node_ok me c' \<and> fmdom' (nodes (csRing c')) = fmdom' (nodes (csRing c)) - {name} \<and>
    (x = Val () \<longrightarrow> balanced c') \<and> (me \<in> fmdom' (nodes (csRing c)) \<longrightarrow> x = Val ())"
proof -
  let ?r1 = "(csRing c)\<lparr>nodes := fmdrop name (nodes (csRing c)), hring := cl_Remove L name (hring (csRing c))\<rparr>"
  have i: "ring_inv ?r1" using assms(1) by (auto simp: node_ok_def ring_inv_def members_remove)
  have "shards_ok n (csShards c)" using assms(1) by (simp add: node_ok_def)
  note R = rebalance_ok [OF i this, of x c']
  have "rebalance_ring L shuffle ?r1 (csShards c) = (x, c')" using l by (simp add: ring_Leave_def Let_def)
  moreover have "nodes ?r1 \<noteq> fmempty" if "me \<in> fmdom' (nodes (csRing c))"
    using that assms(3) by (metis fmdom'_drop fmdom'_empty insert_absorb insert_iff insert_Diff_single
        insert_not_empty Ring.select_convs(3) Ring.simps(3) Ring.surjective Ring.update_convs(2,3))
  ultimately show ?thesis using R i assms(1) by (auto simp: node_ok_def)
qed

lemma handle_joins_ok:
  assumes "node_ok me c" "balanced c" "handle_joins L shuffle me ms c = (x, c')"
  shows "x = Val True \<and> node_ok me c' \<and> balanced c' \<and>
    fmdom' (nodes (csRing c')) = fst ` set ms \<union> fmdom' (nodes (csRing c))"
  using assms
proof (induction ms arbitrary: c)
  case (Cons m ms)
  obtain name addr where m: "m = (name, addr)" by fastforce
  obtain y c1 where j: "ring_Join L shuffle name addr (me = name) c = (y, c1)" by fastforce
  note J = ring_Join_ok [OF Cons.prems(1,2) j]
  then show ?case using Cons.IH [of c1] Cons.prems(3) j by (simp add: m)
qed simp

lemma handle_leaves_ok:
  assumes "node_ok me c" "balanced c" "handle_leaves L shuffle me ms c = (x, c')"
  shows "node_ok me c' \<and> (\<forall>b. x = Val b \<longrightarrow> balanced c') \<and>
    (me \<in> fmdom' (nodes (csRing c)) \<longrightarrow> me \<in> fmdom' (nodes (csRing c')) \<and> (\<exists>b. x = Val b))"
  using assms
proof (induction ms arbitrary: c)
  case (Cons m ms)
  obtain name addr where m: "m = (name, addr)" by fastforce
  show ?case
  proof (cases "me = name")
    case False
    obtain y c1 where l: "ring_Leave L shuffle name c = (y, c1)" by fastforce
    note R = ring_Leave_ok [OF Cons.prems(1,2) False l]
    show ?thesis
    proof (cases y)
      case (Val u)
      then have "handle_leaves L shuffle me ms c1 = (x, c')" using Cons.prems(3) m False l by simp
      then show ?thesis using Cons.IH [of c1] R Val False by auto
    next
      case (Panic p)
      then show ?thesis using Cons.prems(3) m False l R by auto
    qed
  qed (use Cons.prems m in auto)
qed auto

lemma handle_event_ok:
  assumes "node_ok me c" "balanced c" "handle_event L shuffle me e c = (x, c')"
  shows "node_ok me c' \<and> (\<forall>b. x = Val b \<longrightarrow> balanced c') \<and>
    (me \<in> fmdom' (nodes (csRing c)) \<longrightarrow> me \<in> fmdom' (nodes (csRing c')) \<and> (\<exists>b. x = Val b))"
proof (cases e)
  case (EventMemberJoin ms)
  then show ?thesis using handle_joins_ok [OF assms(1,2), of ms x c'] assms(3) by auto
next
  case (EventMemberLeave ms)
  then show ?thesis using handle_leaves_ok [OF assms(1,2), of ms x c'] assms(3) by simp
next
  case (EventMemberFailed ms)
  then show ?thesis using handle_leaves_ok [OF assms(1,2), of ms x c'] assms(3) by simp
qed (use assms in auto)

lemma eventHandler_ok:
  assumes "node_ok me c" "balanced c" "eventHandler L shuffle me es c = (x, c')"
  shows "node_ok me c' \<and> (x = Val () \<longrightarrow> balanced c') \<and> (me \<in> fmdom' (nodes (csRing c)) \<longrightarrow> x = Val ())"
  using assms
proof (induction es arbitrary: c)
  case (Cons e es)
  obtain y c1 where h: "handle_event L shuffle me e c = (y, c1)" by fastforce
  note H = handle_event_ok [OF Cons.prems(1,2) h]
  show ?case
  proof (cases y)
    case (Val b)
    then show ?thesis using Cons.IH [of c1] Cons.prems(3) h H by (cases b) auto
  next
    case (Panic p)
    then show ?thesis using Cons.prems(3) h H by auto
  qed
qed simp

text \<open>The executors of a shard run exactly on the nodes that own it, and no membership event makes a node
  panic once it has seen its own join.\<close>

lemma executors_balanced:
  assumes "eventHandler L shuffle me es (new_cluster_state L n) = (Val (), c)"
  shows "serving_shards (csShards c) = owned (csRing c)"
  using eventHandler_ok [OF new_node_ok assms] by (simp add: balanced_def)

lemma eventHandler_no_panic:
  assumes "me \<in> fst ` set ms"
  shows "fst (eventHandler L shuffle me (EventMemberJoin ms # es) (new_cluster_state L n)) = Val ()"
proof -
  obtain y c1 where j: "handle_joins L shuffle me ms (new_cluster_state L n) = (y, c1)" by fastforce
  note J = handle_joins_ok [OF new_node_ok j]
  obtain x c' where e: "eventHandler L shuffle me es c1 = (x, c')" by fastforce
  have "x = Val ()" using eventHandler_ok [OF _ _ e] J assms by blast
  then show ?thesis using J j e by simp
qed

lemma eventHandler_panics:
  assumes "name \<noteq> me"
  shows "fst (eventHandler L shuffle me [EventMemberJoin [(name, addr)], EventMemberLeave [(name, addr)]]
    (new_cluster_state L n)) = Panic NilDeref"
proof -
  obtain x c1 where j: "ring_Join L shuffle name addr (me = name) (new_cluster_state L n) = (x, c1)" by fastforce
  note J = ring_Join_ok [OF new_node_ok j]
  let ?r = "(csRing c1)\<lparr>nodes := fmdrop name (nodes (csRing c1)), hring := cl_Remove L name (hring (csRing c1))\<rparr>"
  have "fmdom' (nodes (csRing c1)) = {name}" using J by (simp add: new_cluster_state_def NewRing_def)
  then have e: "nodes ?r = fmempty" by (intro fmap_ext) (auto simp: fmlookup_dom'_iff)
  have "ring_inv ?r" using J by (auto simp: node_ok_def ring_inv_def members_remove)
  then have "GetPartitions L shuffle ?r = Panic NilDeref" by (rule GetPartitions_panics [OF _ e])
  then have "fst (ring_Leave L shuffle name c1) = Panic NilDeref" by (simp add: ring_Leave_def Let_def rebalance_ring_def)
  then show ?thesis using j J assms by (cases "ring_Leave L shuffle name c1") simp
qed

text \<open>Nodes that agree on the members divide the partitions among them.\<close>

lemma partition_served_once:
  assumes "\<And>m. m \<in> Ms \<Longrightarrow> eventHandler L shuffle m (es m) (new_cluster_state L n) = (Val (), c m)"
    and "\<And>m. m \<in> Ms \<Longrightarrow> fmdom' (nodes (csRing (c m))) = Ms" and "Ms \<noteq> {}" and "0 \<le> i" and "i < n"
  shows "\<exists>!m. m \<in> Ms \<and> i \<in> serving_shards (csShards (c m))"
proof -
  obtain m0 where m0: "m0 \<in> Ms" using assms(3) by blast
  have ok: "node_ok m (c m)" if "m \<in> Ms" for m using eventHandler_ok [OF new_node_ok assms(1)] that by simp
  have mem: "members (hring (csRing (c m))) = Ms" if "m \<in> Ms" for m
    using ok [OF that] assms(2) [OF that] by (simp add: node_ok_def ring_inv_def)
  obtain k where k: "owner (hring (csRing (c m0))) i = Some k" "k \<in> Ms"
    using owner_some [of "hring (csRing (c m0))" i] mem [OF m0] assms(3-5) by (auto simp: owner_def)
  have "owner (hring (csRing (c m))) i = Some k" if "m \<in> Ms" for m
    using owner_members [of "hring (csRing (c m))" "hring (csRing (c m0))" i] mem that m0 k(1) by (simp add: owner_def)
  then have "i \<in> serving_shards (csShards (c m)) \<longleftrightarrow> m = k" if "m \<in> Ms" for m
    using executors_balanced [OF assms(1) [OF that]] ok [OF that] assms(2) [OF that] that assms(4,5)
    by (auto simp: owned_def node_ok_def)
  then show ?thesis using k(2) by blast
qed

end


section \<open>A reference ring\<close>

text \<open>A library that assigns the partitions to the sorted members in turn and hashes a key to its
  length. It satisfies the contract, for four partitions, together with the shuffle in which zero is drawn all the time.\<close>

definition ref_hash :: "string fset consistentLib" where
  "ref_hash = \<lparr>cl_New = (\<lambda>_. {||}), cl_Add = (\<lambda>nd. finsert (nodeName nd)), cl_Remove = (\<lambda>name h. h |-| {|name|}),
     cl_FindPartitionID = (\<lambda>_ key. int (length key) mod 4),
     cl_GetPartitionOwner = (\<lambda>h i. let ms = sorted_list_of_fset h in
       if ms = [] then None else Some \<lparr>nodeName = ms ! (nat i mod length ms), nodeAddr = ''''\<rparr>)\<rparr>"

definition ref_shuffle :: "int list \<Rightarrow> int list" where
  "ref_shuffle = Shuffle (\<lambda>i. 0)"

lemma ref_shuffle_perm [simp]: "perm_fun ref_shuffle"
  unfolding ref_shuffle_def by (rule perm_fun_Shuffle) simp

interpretation ref_ring: consistent_hash ref_hash 4 fset ref_shuffle
proof unfold_locales
  fix h :: "string fset" and i :: int
  assume h: "fset h \<noteq> {}"
  let ?ms = "sorted_list_of_fset h"
  have s: "set ?ms = fset h" by simp
  then have "?ms \<noteq> []" using h by (metis set_empty)
  then have "?ms ! (nat i mod length ?ms) \<in> set ?ms" by (intro nth_mem) simp
  then show "\<exists>nd. cl_GetPartitionOwner ref_hash h i = Some nd \<and> nodeName nd \<in> fset h"
    using s \<open>?ms \<noteq> []\<close> by (simp add: ref_hash_def Let_def)
qed (use ref_shuffle_perm in \<open>auto simp: ref_hash_def Let_def fset_inject sorted_list_of_fset.rep_eq perm_fun_def\<close>)

end
