(* ===== verification/Cluster.thy ===== *)
theory Cluster
  imports Executors Hash_Ring
begin

text \<open>
  The cluster as one node sees it, \<open>src/cluster/cluster.go\<close>: a node has all shards, routes an
  operation on a run to the shard of the partition its id hashes to, and serves the workers from
  the queues of the partitions it owns. Each shard keeps its own state machines; the world (the
  Redis server) and the analytics collector are common to all shards of the node.

  The locale \<open>cluster_queues\<close> states what the worker queues of the shards promise together; the
  lemmas in it describe a poll over the owned partitions.
\<close>

section \<open>Definitions\<close>

record 'w node_state =
  nsWorld :: 'w
  nsMachines :: "int \<Rightarrow> (string, FlowStateMachine) fmap"
  nsCollector :: "analytics_event list option"

record ('w, 'h) Cluster =
  clLib :: "'h consistentLib"
  clShuffle :: "int list \<Rightarrow> int list"
  clRing :: "'h Ring"
  clShards :: "(int, 'w Shard) fmap"

definition shard_view :: "int \<Rightarrow> 'w node_state \<Rightarrow> 'w shard_state" where
  "shard_view i s = \<lparr>world = nsWorld s, stateMachines = nsMachines s i, collector = nsCollector s\<rparr>"

definition put_view :: "int \<Rightarrow> 'w shard_state \<Rightarrow> 'w node_state \<Rightarrow> 'w node_state" where
  "put_view i v s = \<lparr>nsWorld = world v, nsMachines = (nsMachines s)(i := stateMachines v), nsCollector = collector v\<rparr>"

text \<open>Calling a method of \<open>c.shards[i]\<close>, which is nil when there is no such shard.\<close>

definition on_shard ::
  "('w, 'h) Cluster \<Rightarrow> int \<Rightarrow> ('w Shard \<Rightarrow> ('w shard_state, 'a) M) \<Rightarrow> ('w node_state, 'a) M" where
  "on_shard c i f = (\<lambda>s. case fmlookup (clShards c) i of
     None \<Rightarrow> (Panic NilDeref, s)
   | Some sh \<Rightarrow> (case f sh (shard_view i s) of (r, v) \<Rightarrow> (r, put_view i v s)))"

definition flow_partition :: "('w, 'h) Cluster \<Rightarrow> string \<Rightarrow> int" where
  "flow_partition c fid = GetPartition (clLib c) (clRing c) fid"

subsection \<open>Operations on runs\<close>

definition cluster_ExecuteAction ::
  "('w, 'h) Cluster \<Rightarrow> string \<Rightarrow> string \<Rightarrow> string \<Rightarrow> int \<Rightarrow> anymap option \<Rightarrow> ('w node_state, unit) M" where
  "cluster_ExecuteAction c wn fid event actionId data =
     on_shard c (flow_partition c fid) (\<lambda>sh. ExecuteAction (shEngine sh) wn fid event actionId data)"

definition cluster_RetryAction ::
  "('w, 'h) Cluster \<Rightarrow> string \<Rightarrow> string \<Rightarrow> string \<Rightarrow> int \<Rightarrow> string \<Rightarrow> ('w node_state, unit) M" where
  "cluster_RetryAction c wn fid actionName actionId reason =
     on_shard c (flow_partition c fid) (\<lambda>sh. RetryFailedAction (shEngine sh) wn fid actionName actionId)"

text \<open>The id of a new run is a fresh UUID, here an argument. An error of the engine is replaced by
  an empty id and no error.\<close>

definition cluster_Init ::
  "('w, 'h) Cluster \<Rightarrow> string \<Rightarrow> string \<Rightarrow> anymap option \<Rightarrow> ('w node_state, string \<times> error option) M" where
  "cluster_Init c fid wn input =
     bindM (on_shard c (flow_partition c fid) (\<lambda>sh. Init (shEngine sh) wn fid input)) (\<lambda>err.
       if err \<noteq> None then ret ('''', None) else ret (fid, None))"

definition cluster_ExecuteResume ::
  "('w, 'h) Cluster \<Rightarrow> string \<Rightarrow> string \<Rightarrow> string \<Rightarrow> ('w node_state, unit) M" where
  "cluster_ExecuteResume c wn fid event =
     on_shard c (flow_partition c fid) (\<lambda>sh. ExecuteResume (shEngine sh) wn fid event)"

definition cluster_GetFlow ::
  "('w, 'h) Cluster \<Rightarrow> string \<Rightarrow> string \<Rightarrow> ('w node_state, error + FlowContext) M" where
  "cluster_GetFlow c wn fid =
     on_shard c (flow_partition c fid) (\<lambda>sh. engine_GetFlow (shEngine sh) wn fid)"

definition cluster_MarkPaused :: "('w, 'h) Cluster \<Rightarrow> string \<Rightarrow> string \<Rightarrow> ('w node_state, unit) M" where
  "cluster_MarkPaused c wn fid =
     on_shard c (flow_partition c fid) (\<lambda>sh. MarkPaused (shEngine sh) wn fid)"

definition cluster_ExecuteResumeAfterWait ::
  "('w, 'h) Cluster \<Rightarrow> string \<Rightarrow> string \<Rightarrow> string \<Rightarrow> ('w node_state, error option) M" where
  "cluster_ExecuteResumeAfterWait c wn fid event =
     on_shard c (flow_partition c fid) (\<lambda>sh. ExecuteResumeAfterWait (shEngine sh) wn fid event)"

definition cluster_Timeout ::
  "('w, 'h) Cluster \<Rightarrow> string \<Rightarrow> string \<Rightarrow> string \<Rightarrow> int \<Rightarrow> int \<Rightarrow> ('w node_state, error option) M" where
  "cluster_Timeout c wn fid actionName actionId delay =
     on_shard c (flow_partition c fid) (\<lambda>sh. onWorld (st_Timeout (shStorage sh) wn fid actionName actionId delay))"

subsection \<open>Polling\<close>

text \<open>The loop of \<open>Poll\<close> over the partitions, with the result so far.\<close>

fun poll_partitions ::
  "(int, 'w Shard) fmap \<Rightarrow> string \<Rightarrow> int \<Rightarrow> int list \<Rightarrow> apiAction list \<Rightarrow> 'w \<Rightarrow> apiAction list res \<times> 'w" where
  "poll_partitions shards queueName batchSize [] result w = (Val result, w)"
| "poll_partitions shards queueName batchSize (part # parts) result w =
     (if int (length result) < batchSize then
        (case fmlookup shards part of
           None \<Rightarrow> (Panic NilDeref, w)
         | Some sh \<Rightarrow>
             (case eq_Poll (shQueue sh) queueName (batchSize - int (length result)) w of
                (Inl _, w') \<Rightarrow> poll_partitions shards queueName batchSize parts result w'
              | (Inr actions, w') \<Rightarrow> poll_partitions shards queueName batchSize parts (result @ actions) w'))
      else (Val result, w))"

definition cluster_Poll :: "('w, 'h) Cluster \<Rightarrow> string \<Rightarrow> int \<Rightarrow> ('w node_state, apiAction list) M" where
  "cluster_Poll c queueName batchSize =
     bindM (liftR (GetPartitions (clLib c) (clShuffle c) (clRing c))) (\<lambda>parts s.
       case poll_partitions (clShards c) queueName batchSize parts [] (nsWorld s) of
         (r, w) \<Rightarrow> (r, s\<lparr>nsWorld := w\<rparr>))"

section \<open>The views of the shards\<close>

lemma shard_view_put [simp]:
  "shard_view i (put_view i v s) = v" "nsWorld (put_view i v s) = world v" "world (shard_view i s) = nsWorld s"
  "j \<noteq> i \<Longrightarrow> nsMachines (put_view i v s) j = nsMachines s j"
  by (simp_all add: shard_view_def put_view_def)

lemma on_shard_run:
  assumes "fmlookup (clShards c) i = Some sh"
  shows "fst (on_shard c i f s) = fst (f sh (shard_view i s))"
    and "shard_view i (snd (on_shard c i f s)) = snd (f sh (shard_view i s))"
  using assms by (simp_all add: on_shard_def split_beta)

section \<open>The contract of the queues\<close>

locale cluster_queues =
  fixes shards :: "(int, 'w Shard) fmap" and items :: "'w \<Rightarrow> int \<Rightarrow> string \<Rightarrow> apiAction list"
  assumes shard_queue: "fmlookup shards i = Some sh \<Longrightarrow> external_queue (shQueue sh) (\<lambda>w. items w i)"
    and other_shard: "fmlookup shards i = Some sh \<Longrightarrow> j \<noteq> i \<Longrightarrow> fmlookup shards j \<noteq> None \<Longrightarrow>
      eq_Poll (shQueue sh) name n w = (x, w') \<Longrightarrow> items w' j name = items w j name"
begin

definition held :: "'w \<Rightarrow> int list \<Rightarrow> string \<Rightarrow> apiAction multiset" where
  "held w parts name = sum_list (map (\<lambda>i. mset (items w i name)) parts)"

lemma held_Nil [simp]: "held w [] name = {#}"
  and held_Cons [simp]: "held w (i # parts) name = mset (items w i name) + held w parts name"
  by (simp_all add: held_def)

lemma held_other:
  assumes "fmlookup shards i = Some sh" and "eq_Poll (shQueue sh) name n w = (x, w')"
    and "i \<notin> set parts" and "set parts \<subseteq> fmdom' shards"
  shows "held w' parts name = held w parts name"
  using assms(3,4) other_shard [OF assms(1) _ _ assms(2)]
  by (induction parts) (auto simp: fmlookup_dom'_iff)

text \<open>A poll returns at most the batch, and only actions that were queued, each of them once; a queue is
  left behind only when the batch is full or its poll failed.\<close>

lemma poll_partitions_ok:
  assumes "poll_partitions shards name n parts acc w = (r, w')"
    and "distinct parts" and "set parts \<subseteq> fmdom' shards"
  shows "\<exists>acts. r = Val (acc @ acts) \<and> int (length (acc @ acts)) \<le> max n (int (length acc)) \<and>
    mset acts + held w' parts name \<subseteq># held w parts name \<and>
    (\<forall>j. j \<in> fmdom' shards \<longrightarrow> j \<notin> set parts \<longrightarrow> items w' j name = items w j name)"
  using assms
proof (induction parts arbitrary: acc w)
  case (Cons i parts)
  show ?case
  proof (cases "int (length acc) < n")
    case False
    then show ?thesis using Cons.prems(1) by auto
  next
    case True
    obtain sh where sh: "fmlookup shards i = Some sh" using Cons.prems(3) by (auto simp: fmlookup_dom'_iff)
    let ?n = "n - int (length acc)"
    obtain x w1 where x: "eq_Poll (shQueue sh) name ?n w = (x, w1)" by fastforce
    note Q = external_queue.poll_ok [OF shard_queue [OF sh]] external_queue.poll_length [OF shard_queue [OF sh]]
      external_queue.poll_err [OF shard_queue [OF sh]]
    have h: "held w1 parts name = held w parts name"
      using held_other [OF sh x] Cons.prems(2,3) by simp
    define got where "got = (case x of Inl _ \<Rightarrow> [] | Inr as \<Rightarrow> as)"
    have p: "poll_partitions shards name n parts (acc @ got) w1 = (r, w')"
      using Cons.prems(1) True sh x by (simp add: got_def split: sum.splits)
    have m: "mset got + mset (items w1 i name) \<subseteq># mset (items w i name)" "int (length (acc @ got)) \<le> n"
      using Q x True by (fastforce simp: got_def split: sum.splits)+
    obtain acts where a: "r = Val ((acc @ got) @ acts)"
      "int (length ((acc @ got) @ acts)) \<le> max n (int (length (acc @ got)))"
      "mset acts + held w' parts name \<subseteq># held w1 parts name"
      "\<forall>j. j \<in> fmdom' shards \<longrightarrow> j \<notin> set parts \<longrightarrow> items w' j name = items w1 j name"
      using Cons.IH [OF p] Cons.prems(2,3) by auto
    have o: "items w1 j name = items w j name" if "j \<in> fmdom' shards" "j \<noteq> i" for j
      using other_shard [OF sh _ _ x] that by (simp add: fmlookup_dom'_iff)
    have i': "items w' i name = items w1 i name" using a(4) Cons.prems(2) sh by (auto simp: fmlookup_dom'_iff)
    have "mset (got @ acts) + held w' (i # parts) name =
        (mset got + mset (items w1 i name)) + (mset acts + held w' parts name)"
      using i' by (simp add: ac_simps)
    also have "\<dots> \<subseteq># mset (items w i name) + held w parts name"
      using m(1) a(3) h by (intro subset_mset.add_mono) simp_all
    finally have "mset (got @ acts) + held w' (i # parts) name \<subseteq># held w (i # parts) name" by simp
    then show ?thesis using a m(2) o True by (intro exI [where x = "got @ acts"]) auto
  qed
qed simp

text \<open>In a condition in which polls succeed, the batch is filled from the partitions as far as possible
  and nothing is lost.\<close>

lemma poll_partitions_full:
  assumes "poll_partitions shards name n parts acc w = (r, w')"
    and "distinct parts" and "set parts \<subseteq> fmdom' shards" and "int (length acc) \<le> n" and "up w"
    and "\<And>i sh k w x w'. up w \<Longrightarrow> i \<in> set parts \<Longrightarrow> fmlookup shards i = Some sh \<Longrightarrow> 0 \<le> k \<Longrightarrow>
      eq_Poll (shQueue sh) name k w = (x, w') \<Longrightarrow> up w' \<and> \<not> isl x"
  shows "\<exists>acts. r = Val (acc @ acts) \<and> mset acts + held w' parts name = held w parts name \<and>
    length (acc @ acts) = min (nat n) (length acc + size (held w parts name))"
  using assms
proof (induction parts arbitrary: acc w)
  case (Cons i parts)
  show ?case
  proof (cases "int (length acc) < n")
    case False
    then show ?thesis using Cons.prems(1,4) by auto
  next
    case True
    obtain sh where sh: "fmlookup shards i = Some sh" using Cons.prems(3) by (auto simp: fmlookup_dom'_iff)
    let ?n = "n - int (length acc)"
    obtain x w1 where x: "eq_Poll (shQueue sh) name ?n w = (x, w1)" by fastforce
    then obtain got where g: "x = Inr got" and u: "up w1"
      using Cons.prems(6) [OF Cons.prems(5) _ sh, of ?n] True by (cases x) auto
    have m: "mset (items w i name) = mset got + mset (items w1 i name)"
      and l: "length got = min (nat ?n) (length (items w i name))"
      using external_queue.poll_ok [OF shard_queue [OF sh]] external_queue.poll_length [OF shard_queue [OF sh]] x g by auto
    have p: "poll_partitions shards name n parts (acc @ got) w1 = (r, w')"
      using Cons.prems(1) True sh x g by simp
    have h: "held w1 parts name = held w parts name"
      using held_other [OF sh x] Cons.prems(2,3) by simp
    have "int (length (acc @ got)) \<le> n" using l True by auto
    moreover have "up w' \<and> \<not> isl x"
      if "up w" "j \<in> set parts" "fmlookup shards j = Some sh" "0 \<le> k" "eq_Poll (shQueue sh) name k w = (x, w')"
      for j sh k w x w'
      by (rule Cons.prems(6) [OF that(1) _ that(3-5)]) (use that(2) in simp)
    ultimately have "\<exists>acts. r = Val ((acc @ got) @ acts) \<and> mset acts + held w' parts name = held w1 parts name \<and>
        length ((acc @ got) @ acts) = min (nat n) (length (acc @ got) + size (held w1 parts name))"
      using Cons.prems(2,3) by (intro Cons.IH [OF p _ _ _ u]) auto
    then obtain acts where a: "r = Val ((acc @ got) @ acts)"
      "mset acts + held w' parts name = held w1 parts name"
      "length ((acc @ got) @ acts) = min (nat n) (length (acc @ got) + size (held w1 parts name))"
      by blast
    have "items w' i name = items w1 i name"
      using poll_partitions_ok [OF p] Cons.prems(2,3) sh by (auto simp: fmlookup_dom'_iff)
    then have 1: "mset (got @ acts) + held w' (i # parts) name = held w (i # parts) name"
      using a(2) m h by (simp add: ac_simps)
    have "length (acc @ got @ acts) = min (nat n) (length acc + size (held w (i # parts) name))"
      using a(3) l h True by (auto simp: min_def split: if_splits)
    then show ?thesis using a(1) 1 by (intro exI [where x = "got @ acts"]) simp
  qed
qed simp

end

end
