(* ===== verification/Redis_Node.thy ===== *)
theory Redis_Node
  imports Executors Runs
begin

text \<open>
  A shard on Redis: the storages, the worker queue and the engine of one shard of a node, put
  together as \<open>NewCluster\<close> of \<open>src/cluster/cluster.go\<close> does. The theory discharges the
  contract of the action queues for the Redis sorted sets.
\<close>

section \<open>Pending messages\<close>

definition zdom :: "keyspace \<Rightarrow> string \<Rightarrow> string set" where
  "zdom ks k = (case zset_at ks k of None \<Rightarrow> {} | Some z \<Rightarrow> fmdom' z)"

fun removes :: "redis_cmd \<Rightarrow> string \<Rightarrow> bool" where
  "removes (ZREM k _) k' = (k = k')"
| "removes (ZREMRANGEBYSCORE k _ _) k' = (k = k')"
| "removes (SET k _) k' = (k = k')"
| "removes (DEL k) k' = (k = k')"
| "removes _ _ = False"

lemma fold_zadd_dom: "fmdom' z \<subseteq> fmdom' (fold (\<lambda>(s, m) z. fmupd m s z) ms z)"
proof (induction ms arbitrary: z)
  case (Cons x ms)
  obtain s m where x: "x = (s, m)" by fastforce
  have "fmdom' z \<subseteq> fmdom' (fmupd m s z)" by auto
  also have "\<dots> \<subseteq> fmdom' (fold (\<lambda>(s, m) z. fmupd m s z) ms (fmupd m s z))" by (rule Cons.IH)
  finally show ?case using x by simp
qed simp

lemma zdom_other:
  assumes "fmlookup ks' k = fmlookup ks k"
  shows "zdom ks' k = zdom ks k"
  using assms by (simp add: zdom_def zset_at_def)

lemma zdom_put:
  "zdom (put_hash k' h ks) k = (if k' = k then {} else zdom ks k)"
  "zdom (put_list k' l ks) k = (if k' = k then {} else zdom ks k)"
  "zdom (put_zset k' z ks) k = (if k' = k then fmdom' z else zdom ks k)"
  by (auto simp: zdom_def zset_at_def put_hash_def put_list_def put_zset_def)

lemma zdom_typed:
  "hash_at ks k = Some h \<Longrightarrow> zdom ks k = {}" "list_at ks k = Some l \<Longrightarrow> zdom ks k = {}"
  "zset_at ks k = Some z \<Longrightarrow> zdom ks k = fmdom' z"
  by (auto simp: zdom_def at_defs split: option.splits rvalue.splits)

lemma zdom_typed_cmd:
  "(\<And>x. c = Some x \<Longrightarrow> zdom ks k \<subseteq> zdom (snd (f x)) k) \<Longrightarrow> zdom ks k \<subseteq> zdom (snd (typed c ks f)) k"
  by (simp add: typed_def split: option.splits)

lemma zdom_put_mono:
  "hash_at ks k' = Some h \<Longrightarrow> zdom ks k \<subseteq> zdom (put_hash k' h' ks) k"
  "list_at ks k' = Some l \<Longrightarrow> zdom ks k \<subseteq> zdom (put_list k' l' ks) k"
  "zset_at ks k' = Some z \<Longrightarrow> k' \<noteq> k \<or> fmdom' z \<subseteq> fmdom' z' \<Longrightarrow> zdom ks k \<subseteq> zdom (put_zset k' z' ks) k"
  using zdom_typed [of ks k] by (auto simp: zdom_put)

lemma zdom_same: "snd x = ks \<Longrightarrow> zdom ks k \<subseteq> zdom (snd x) k"
  by simp

lemma zdom_reads:
  "zdom ks k \<subseteq> zdom (snd (apply_cmd (GET k') ks)) k"
  "zdom ks k \<subseteq> zdom (snd (apply_cmd (HGET k' f) ks)) k"
  "zdom ks k \<subseteq> zdom (snd (apply_cmd (ZRANGE k' i j) ks)) k"
  "zdom ks k \<subseteq> zdom (snd (apply_cmd (ZRANGEBYSCORE k' lo hi) ks)) k"
  by (rule zdom_same, simp add: typed_def split: option.splits rvalue.splits)+

lemma zdom_mono:
  assumes "\<not> removes c k"
  shows "zdom ks k \<subseteq> zdom (snd (apply_cmd c ks)) k"
proof (cases c)
  case (ZADD k' ms)
  show ?thesis unfolding ZADD
    by (simp, intro impI zdom_typed_cmd, simp, erule zdom_put_mono(3), simp add: fold_zadd_dom)
next
  case (HSET k' f v)
  show ?thesis unfolding HSET by (simp, rule zdom_typed_cmd, simp, erule zdom_put_mono(1))
next
  case (HDEL k' f)
  show ?thesis unfolding HDEL by (simp, rule zdom_typed_cmd, simp, erule zdom_put_mono(1))
next
  case (LPUSH k' v)
  show ?thesis unfolding LPUSH by (simp, rule zdom_typed_cmd, simp, erule zdom_put_mono(2))
next
  case (LPOP k' n)
  show ?thesis unfolding LPOP by (simp, intro impI, rule zdom_typed_cmd, simp, intro impI, erule zdom_put_mono(2))
next
  case (ZREM k' ms)
  then have "k' \<noteq> k" using assms by simp
  then show ?thesis unfolding ZREM
    by (cases "ms = []", simp_all) (intro zdom_typed_cmd, simp, intro zdom_put_mono(3), assumption, simp)
next
  case (ZREMRANGEBYSCORE k' lo hi)
  then have "k' \<noteq> k" using assms by simp
  then show ?thesis unfolding ZREMRANGEBYSCORE
    by (simp_all) (intro zdom_typed_cmd, simp, intro zdom_put_mono(3), assumption, simp)
next
  case (GET k')
  then show ?thesis using zdom_reads(1) by simp
next
  case (HGET k' f)
  then show ?thesis using zdom_reads(2) by simp
next
  case (ZRANGE k' x y)
  then show ?thesis using zdom_reads(3) by simp
next
  case (ZRANGEBYSCORE k' x y)
  then show ?thesis using zdom_reads(4) by simp
next
  case (SET k' v)
  show ?thesis unfolding SET by (rule equalityD1, rule sym, rule zdom_other) (use assms SET in simp)
next
  case (DEL k')
  show ?thesis unfolding DEL by (rule equalityD1, rule sym, rule zdom_other) (use assms DEL in simp)
qed

lemma zdom_exec: "\<forall>c \<in> set cs. \<not> removes c k \<Longrightarrow> zdom ks k \<subseteq> zdom (snd (exec_cmds cs ks)) k"
proof (induction cs arbitrary: ks)
  case (Cons c cs)
  have "zdom ks k \<subseteq> zdom (snd (apply_cmd c ks)) k" using Cons.prems by (intro zdom_mono) simp
  also have "\<dots> \<subseteq> zdom (snd (exec_cmds cs (snd (apply_cmd c ks)))) k" using Cons by simp
  finally show ?case by (simp add: Let_def split_beta)
qed simp

lemma zdom_ZREM: "zdom ks k - set ms \<subseteq> zdom (snd (apply_cmd (ZREM k ms) ks)) k"
  by (auto simp: typed_def zdom_put dest!: zdom_typed(3) split: option.splits)

context redis_server
begin

lemma zdom_do:
  assumes "\<And>ks. zdom ks k - X \<subseteq> zdom (snd (apply_cmd c ks)) k"
  shows "zdom (db w) k - X \<subseteq> zdom (db (snd (rc_do C c w))) k"
proof -
  obtain r w' where r: "rc_do C c w = (r, w')" by fastforce
  have "db w' = db w \<or> db w' = snd (apply_cmd c (db w))" using do_spec [OF r] by auto
  then show ?thesis using assms [of "db w"] r by auto
qed

lemma zdom_do_mono: "\<not> removes c k \<Longrightarrow> zdom (db w) k \<subseteq> zdom (db (snd (rc_do C c w))) k"
  using zdom_do [of k "{}" c w] zdom_mono by simp

lemma zdom_tx: "\<forall>c \<in> set cs. \<not> removes c k \<Longrightarrow> zdom (db w) k \<subseteq> zdom (db (snd (rc_tx C cs w))) k"
  using tx_ok [of cs w] tx_err [of cs w] zdom_exec [of cs k "db w"]
  by (cases "rc_tx C cs w"; cases "fst (rc_tx C cs w)") fastforce+

end

section \<open>A shard\<close>

definition redis_shard ::
  "'w redisShardStorage \<Rightarrow> 'w redisMetadataStorage \<Rightarrow> 'w redisQueue \<Rightarrow> runtime \<Rightarrow> externals \<Rightarrow>
   (any \<Rightarrow> any option) \<Rightarrow> int \<Rightarrow> 'w Shard" where
  "redis_shard r m q rt ex newValue batchSize =
     \<lparr>shEngine = redis_engine r m rt ex, shQueue = NewRedisQueue q, shBatchSize = batchSize,
      shNewValue = newValue\<rparr>"

text \<open>The messages in one of the two action queues.\<close>

definition pending :: "'w redisShardStorage \<Rightarrow> keyspace \<Rightarrow> string \<Rightarrow> string set" where
  "pending r ks ty = (if ty \<in> {''user'', ''system''} then zdom ks (queue_key r ty) else {})"

lemma queue_key_inject: "queue_key r a = queue_key r b \<longleftrightarrow> a = b"
  by (simp add: queue_key_def getNamespaceKey_def)

locale redis_node = redis_deployment r db img m + wq: redis_queue q db
  for r :: "'w redisShardStorage" and db :: "'w \<Rightarrow> keyspace" and img :: "FlowContext \<Rightarrow> FlowContext"
    and m :: "'w redisMetadataStorage" and q :: "'w redisQueue" +
  fixes rt :: runtime and ex :: externals and newValue :: "any \<Rightarrow> any option" and batchSize :: int
begin

lemma pending_mono:
  assumes "\<And>ty. ty \<in> {''user'', ''system''} \<Longrightarrow> zdom ks (queue_key r ty) \<subseteq> zdom ks' (queue_key r ty)"
  shows "pending r ks ty \<subseteq> pending r ks' ty"
  using assms by (simp add: pending_def)

lemma pending_do:
  assumes "\<And>ty. ty \<in> {''user'', ''system''} \<Longrightarrow> \<not> removes c (queue_key r ty)"
  shows "pending r (db w) ty \<subseteq> pending r (db (snd (rdo r c w))) ty"
    and "pending r (db w) ty \<subseteq> pending r (db (snd (mdo m c w))) ty"
    and "pending r (db w) ty \<subseteq> pending r (db (snd (qdo q c w))) ty"
  unfolding rdo_def mdo_def qdo_def
  by (intro pending_mono zdom_do_mono meta.zdom_do_mono wq.zdom_do_mono assms; assumption)+

lemma pending_add: "pending r (db w) ty \<subseteq> pending r (db (snd (addToSortedSet r key ms d w))) ty"
proof -
  obtain now w1 where now: "rc_now (redisClient (rsDao r)) w = (now, w1)" by fastforce
  have "snd (addToSortedSet r key ms d w) = snd (rdo r (ZADD key (map (\<lambda>m. (UnixMilli (now + d), m)) ms)) w1)"
    using now by (simp add: addToSortedSet_def split_beta Let_def)
  then show ?thesis
    using pending_do(1) [of "ZADD key (map (\<lambda>m. (UnixMilli (now + d), m)) ms)" w1] now_db [OF now] by simp
qed

lemma pending_dispatch:
  "pending r (db w) ty \<subseteq> pending r (db (snd (SaveFlowContextAndDispatchAction r wn fid c acts w))) ty"
proof -
  obtain mu ms w1 where b: "build_members r wn fid acts w = ((mu, ms), w1)" by (metis prod.exhaust)
  then have w1: "db w1 = db w" using build_members_db [of wn fid acts w] by simp
  let ?d = "case Encode (rsCodec r) c of Inl _ \<Rightarrow> '''' | Inr d \<Rightarrow> d"
  let ?cs = "[HSET (flow_key r wn) fid ?d] @
    (if mu \<noteq> [] then [ZADD (queue_key r ''user'') mu] else []) @
    (if ms \<noteq> [] then [ZADD (queue_key r ''system'') ms] else [])"
  have "snd (SaveFlowContextAndDispatchAction r wn fid c acts w) = snd (rc_tx (redisClient (rsDao r)) ?cs w1)"
    using b by (simp add: SaveFlowContextAndDispatchAction_def Let_def split: prod.splits option.splits)
  moreover have "zdom (db w) k \<subseteq> zdom (db (snd (rc_tx (redisClient (rsDao r)) ?cs w1))) k" for k
    using zdom_tx [of ?cs k w1] w1 by auto
  ultimately show ?thesis by (intro pending_mono) simp
qed

lemma pending_ack:
  "pending r (db w) ty - (if ty' = ty then request_message ` set reqs else {}) \<subseteq>
   pending r (db (snd (Ack r ty' reqs w))) ty"
proof -
  let ?c = "ZREM (queue_key r ty') (map request_message reqs)"
  have a: "snd (Ack r ty' reqs w) = snd (rc_do (redisClient (rsDao r)) ?c w)"
    by (simp add: Ack_def Let_def split_beta rdo_def request_message_def [abs_def])
  show ?thesis
  proof (cases "ty' = ty")
    case True
    have "zdom (db w) (queue_key r ty') - set (map request_message reqs) \<subseteq>
        zdom (db (snd (rc_do (redisClient (rsDao r)) ?c w))) (queue_key r ty')"
      by (rule zdom_do) (rule zdom_ZREM)
    then show ?thesis using a True by (simp add: pending_def)
  next
    case False
    then show ?thesis
      using zdom_do_mono [of ?c "queue_key r ty" w] a by (auto simp: pending_def queue_key_inject)
  qed
qed

end

sublocale redis_node \<subseteq> node: action_queues "redis_shard r m q rt ex newValue batchSize" "\<lambda>w. pending r (db w)"
proof unfold_locales
  fix w ty wn fid c reqs name a d ty' n act
  let ?sh = "redis_shard r m q rt ex newValue batchSize"
  note defs = redis_shard_def redis_engine_def NewRedisStorage_def NewRedisMetadataStorage_def NewRedisQueue_def
  show "pending r (db w) ty \<subseteq> pending r (db (snd (st_GetFlowContext (shStorage ?sh) wn fid w))) ty"
    by (cases "GetFlowContext r wn fid w") (simp add: defs get_contexts(2))
  show "pending r (db w) ty \<subseteq> pending r (db (snd (st_SaveFlowContext (shStorage ?sh) wn fid c w))) ty"
    using pending_do(1) [of "HSET (flow_key r wn) fid _" w ty]
    by (auto simp: defs SaveFlowContext_def split_beta split: sum.splits)
  show "pending r (db w) ty \<subseteq> pending r (db (snd (st_DeleteFlowContext (shStorage ?sh) wn fid w))) ty"
    using pending_do(1) [of "HDEL (flow_key r wn) fid" w ty] by (simp add: defs DeleteFlowContext_def split_beta)
  show "pending r (db w) ty \<subseteq> pending r (db (snd (st_SaveFlowContextAndDispatchAction (shStorage ?sh) wn fid c reqs w))) ty"
    using pending_dispatch by (simp add: defs)
  show "pending r (db w) ty \<subseteq> pending r (db (snd (st_Retry (shStorage ?sh) wn fid name a d w))) ty"
    and "pending r (db w) ty \<subseteq> pending r (db (snd (st_Delay (shStorage ?sh) wn fid name a d w))) ty"
    using pending_add by (simp_all add: defs Retry_def Delay_def)
  show "pending r (db w) ty \<subseteq> pending r (db (snd (st_PollAction (shStorage ?sh) ty' n w))) ty"
    using pending_do(1) [of "ZRANGE (queue_key r ty') 0 (i64 (n - 1))" w ty]
    by (auto simp: defs PollAction_def split: prod.splits sum.splits reply.splits if_splits)
  show "pending r (db w) ty - (if ty' = ty then request_message ` set reqs else {}) \<subseteq>
      pending r (db (snd (st_Ack (shStorage ?sh) ty' reqs w))) ty"
    using pending_ack by (simp add: defs)
  show "pending r (db w) ty \<subseteq> pending r (db (snd (ms_GetWorkflowDefinition (engMetadata (shEngine ?sh)) wn w))) ty"
    by (cases "GetWorkflowDefinition m wn w") (simp add: defs meta.get_workflow(1))
  show "pending r (db w) ty \<subseteq> pending r (db (snd (ms_GetActionDefinition (engMetadata (shEngine ?sh)) name w))) ty"
    by (cases "GetActionDefinition m name w") (simp add: defs meta.get_action(1))
  show "pending r (db w) ty \<subseteq> pending r (db (snd (eq_Push (shQueue ?sh) act w))) ty"
  proof (cases "Marshal (rqProto q) act")
    case (Inr b)
    then show ?thesis using pending_do(3) [of "LPUSH (ext_key q (paActionName act)) b" w ty]
      by (cases "qdo q (LPUSH (ext_key q (paActionName act)) b) w") (simp add: defs Push_def split: sum.splits)
  qed (simp add: defs Push_def)
qed

context redis_node
begin

lemma node_contract: "action_queues (redis_shard r m q rt ex newValue batchSize) (\<lambda>w. pending r (db w))"
  by (rule node.action_queues_axioms)

end

end
