(* ===== verification/Redis_Cluster.thy ===== *)
theory Redis_Cluster
  imports Cluster Redis_Node
begin

text \<open>
  A node of the cluster on Redis: the shards \<open>NewCluster\<close> of \<open>src/cluster/cluster.go\<close>
  builds share one Redis client and differ in the shard id, the last component of every key they
  write. The theory shows that the shards of a node do not interfere and lifts the refinement of
  the engine and the contract of the worker queues to the node.
\<close>

section \<open>The shards of a node\<close>

text \<open>What \<open>NewCluster\<close> takes from the configuration, for a node configured with Redis as storage and
  queue and with the JSON encoding, the only choices that are implemented: for any other, the source
  leaves the storage, the queue or the encoder nil. The field \<open>stateHandler\<close> of a shard holds the handlers
  of theory \<open>Container\<close>. The membership is set up in theory \<open>Agent_Setup\<close>.\<close>

record 'w nodeConfig =
  cfDao :: "'w baseDao"
  cfCodec :: "FlowContext EncoderDecoder"
  cfProto :: protoLib
  cfMetadata :: "'w redisMetadataStorage"
  cfRuntime :: runtime
  cfExternals :: externals
  cfNewValue :: "any \<Rightarrow> any option"
  cfPartitionCount :: int
  cfBatchSize :: int

definition shard_storage :: "'w nodeConfig \<Rightarrow> int \<Rightarrow> 'w redisShardStorage" where
  "shard_storage cf i = \<lparr>rsDao = cfDao cf, rsCodec = cfCodec cf, rsShardId = Itoa i\<rparr>"

definition shard_wqueue :: "'w nodeConfig \<Rightarrow> int \<Rightarrow> 'w redisQueue" where
  "shard_wqueue cf i = \<lparr>rqDao = cfDao cf, rqShardId = Itoa i, rqProto = cfProto cf\<rparr>"

definition new_shard :: "'w nodeConfig \<Rightarrow> int \<Rightarrow> 'w Shard" where
  "new_shard cf i = redis_shard (shard_storage cf i) (cfMetadata cf) (shard_wqueue cf i) (cfRuntime cf)
     (cfExternals cf) (cfNewValue cf) (cfBatchSize cf)"

definition new_shards :: "'w nodeConfig \<Rightarrow> (int, 'w Shard) fmap" where
  "new_shards cf = fmap_of_list (map (\<lambda>i. (int i, new_shard cf (int i))) [0..<nat (cfPartitionCount cf)])"

definition NewCluster ::
  "'h consistentLib \<Rightarrow> (int list \<Rightarrow> int list) \<Rightarrow> 'w nodeConfig \<Rightarrow> ('w, 'h) Cluster" where
  "NewCluster L shuffle cf =
     \<lparr>clLib = L, clShuffle = shuffle, clRing = NewRing L (cfPartitionCount cf), clShards = new_shards cf\<rparr>"

lemma new_shards_at:
  "fmlookup (new_shards cf) i = (if 0 \<le> i \<and> i < cfPartitionCount cf then Some (new_shard cf i) else None)"
proof -
  have "map_of (map (\<lambda>k. (int k, new_shard cf (int k))) xs) i =
      (if i \<in> int ` set xs then Some (new_shard cf i) else None)" for xs
    by (induction xs) auto
  moreover have "i \<in> int ` set [0..<nat (cfPartitionCount cf)] \<longleftrightarrow> 0 \<le> i \<and> i < cfPartitionCount cf"
    by (auto simp: image_iff intro!: bexI [where x = "nat i"])
  ultimately show ?thesis by (simp add: new_shards_def fmlookup_of_list)
qed

lemma new_shards_dom: "fmdom' (new_shards cf) = {0..<cfPartitionCount cf}"
  by (auto simp: fmlookup_dom'_iff new_shards_at split: if_splits)

section \<open>Keys of a shard\<close>

definition shard_key :: "int \<Rightarrow> string \<Rightarrow> bool" where
  "shard_key i k \<longleftrightarrow> (\<exists>p. k = p @ CHR '':'' # Itoa i)"

lemma Itoa_inject:
  assumes "- (2 ^ 63) \<le> i" "i < 2 ^ 63" "- (2 ^ 63) \<le> j" "j < 2 ^ 63"
  shows "Itoa i = Itoa j \<longleftrightarrow> i = j"
proof
  assume "Itoa i = Itoa j"
  then have "Atoi (Itoa i) = Atoi (Itoa j)" by (rule arg_cong)
  then show "i = j" unfolding Atoi_Itoa [OF assms(1,2)] Atoi_Itoa [OF assms(3,4)] by simp
qed simp

lemma colon_suffix:
  assumes "p @ CHR '':'' # s = q @ CHR '':'' # t" and "CHR '':'' \<notin> set s" and "CHR '':'' \<notin> set t"
  shows "s = t"
proof -
  have "rev s @ CHR '':'' # rev p = rev t @ CHR '':'' # rev q" using arg_cong [OF assms(1), of rev] by simp
  then have "takeWhile (\<lambda>c. c \<noteq> CHR '':'') (rev s @ CHR '':'' # rev p) =
      takeWhile (\<lambda>c. c \<noteq> CHR '':'') (rev t @ CHR '':'' # rev q)" by simp
  moreover have "takeWhile (\<lambda>c. c \<noteq> CHR '':'') (rev u @ CHR '':'' # v) = rev u" if "CHR '':'' \<notin> set u" for u v
    using that by (subst takeWhile_append2) auto
  ultimately have "rev s = rev t" using assms(2,3) by simp
  then show ?thesis by simp
qed

lemma shard_key_unique:
  assumes "shard_key i k" "shard_key j k" "0 \<le> i" "i < 2 ^ 63" "0 \<le> j" "j < 2 ^ 63"
  shows "i = j"
proof -
  have "Itoa i = Itoa j" using assms(1,2) colon_suffix by (fastforce simp: shard_key_def)
  moreover have "- (2 ^ 63) \<le> i" "- (2 ^ 63) \<le> j" using assms(3,5) by simp_all
  ultimately show ?thesis using Itoa_inject assms(4,6) by blast
qed

lemma shard_keys:
  "shard_key i (flow_key (shard_storage cf i) wn)" "shard_key i (queue_key (shard_storage cf i) name)"
  "shard_key i (ext_key (shard_wqueue cf i) name)"
  by (auto simp: shard_key_def flow_key_def queue_key_def ext_key_def getNamespaceKey_def shard_storage_def
      shard_wqueue_def)

text \<open>Two worlds that differ at most in the keys of a shard.\<close>

definition same_elsewhere :: "('w \<Rightarrow> keyspace) \<Rightarrow> int \<Rightarrow> 'w \<Rightarrow> 'w \<Rightarrow> bool" where
  "same_elsewhere db i w w' \<longleftrightarrow> (\<forall>k. \<not> shard_key i k \<longrightarrow> fmlookup (db w') k = fmlookup (db w) k)"

section \<open>The deployment\<close>

locale redis_cluster = redis_server "redisClient (cfDao cf)" db + flow_codec "cfCodec cf" img
    + meta: redis_metadata "cfMetadata cf" db
  for cf :: "'w nodeConfig" and db :: "'w \<Rightarrow> keyspace" and img :: "FlowContext \<Rightarrow> FlowContext" +
  assumes proto_lib: "Marshal (cfProto cf) a = Inr s \<Longrightarrow> Unmarshal (cfProto cf) s = a"
    and partition_count: "cfPartitionCount cf < 2 ^ 63"
begin

abbreviation shard_contexts :: "int \<Rightarrow> 'w \<Rightarrow> contexts" where
  "shard_contexts i w \<equiv> redis_contexts (shard_storage cf i) (db w)"

abbreviation valid_shard :: "int \<Rightarrow> bool" where
  "valid_shard i \<equiv> 0 \<le> i \<and> i < cfPartitionCount cf"

lemma shard_deployment: "redis_deployment (shard_storage cf i) db img (cfMetadata cf)"
  by (intro redis_deployment.intro redis_store.intro)
    (simp_all add: shard_storage_def redis_server_axioms flow_codec_axioms meta.redis_metadata_axioms)

lemma shard_wq: "redis_queue (shard_wqueue cf i) db"
  by (intro redis_queue.intro redis_queue_axioms.intro)
    (simp_all add: shard_wqueue_def redis_server_axioms proto_lib)

section \<open>Shards do not interfere\<close>

lemma elsewhere_do: "shard_key i (cmd_key c) \<Longrightarrow> same_elsewhere db i w (snd (rc_do (redisClient (cfDao cf)) c w))"
  unfolding same_elsewhere_def by (metis do_other)

lemma elsewhere_add: "same_elsewhere db i w (snd (addToSortedSet (shard_storage cf i) (queue_key (shard_storage cf i) name) ms d w))"
proof -
  let ?r = "shard_storage cf i"
  obtain now w1 where now: "rc_now (redisClient (cfDao cf)) w = (now, w1)" by fastforce
  let ?c = "ZADD (queue_key ?r name) (map (\<lambda>m. (UnixMilli (now + d), m)) ms)"
  have "snd (addToSortedSet ?r (queue_key ?r name) ms d w) = snd (rc_do (redisClient (cfDao cf)) ?c w1)"
    using now by (simp add: addToSortedSet_def split_beta Let_def rdo_def shard_storage_def)
  moreover have "db w1 = db w" using now_frame [of w] now by simp
  ultimately show ?thesis using elsewhere_do [of i ?c w1] shard_keys(2) [of i cf name] by (simp add: same_elsewhere_def)
qed

lemma elsewhere_dispatch:
  "same_elsewhere db i w (snd (SaveFlowContextAndDispatchAction (shard_storage cf i) wn fid c acts w))"
proof -
  let ?r = "shard_storage cf i"
  obtain mu ms w1 where b: "build_members ?r wn fid acts w = ((mu, ms), w1)" by (metis prod.exhaust)
  then have w1: "db w1 = db w"
    using redis_store.build_members_db [OF redis_deployment.axioms(1) [OF shard_deployment], of i wn fid acts w] by simp
  let ?d = "case Encode (rsCodec ?r) c of Inl _ \<Rightarrow> '''' | Inr d \<Rightarrow> d"
  let ?cs = "[HSET (flow_key ?r wn) fid ?d] @
    (if mu \<noteq> [] then [ZADD (queue_key ?r ''user'') mu] else []) @
    (if ms \<noteq> [] then [ZADD (queue_key ?r ''system'') ms] else [])"
  have s: "snd (SaveFlowContextAndDispatchAction ?r wn fid c acts w) = snd (rc_tx (redisClient (rsDao ?r)) ?cs w1)"
    using b by (simp add: SaveFlowContextAndDispatchAction_def Let_def split: prod.splits option.splits)
  have "cmd_key x \<noteq> k" if "x \<in> set ?cs" "\<not> shard_key i k" for x k
    using that shard_keys(1,2) [of i cf] by (auto split: if_splits)
  then have "fmlookup (db (snd (rc_tx (redisClient (cfDao cf)) ?cs w1))) k = fmlookup (db w1) k" if "\<not> shard_key i k" for k
    using that by (intro tx_other) blast
  moreover have "rsDao ?r = cfDao cf" by (simp add: shard_storage_def)
  ultimately show ?thesis unfolding s same_elsewhere_def using w1 by simp
qed

lemma shard_frame: "engine_frame (shEngine (new_shard cf i)) (same_elsewhere db i)"
proof unfold_locales
  let ?r = "shard_storage cf i"
  note defs = new_shard_def redis_shard_def redis_engine_def NewRedisStorage_def NewRedisMetadataStorage_def
  have dao: "rsDao ?r = cfDao cf" by (simp add: shard_storage_def)
  note dep = shard_deployment [of i]
  fix w w1 w2 w3 wn fid c reqs name a d
  show refl: "same_elsewhere db i w w" by (simp add: same_elsewhere_def)
  show "same_elsewhere db i w1 w3" if "same_elsewhere db i w1 w2" "same_elsewhere db i w2 w3"
    using that by (simp add: same_elsewhere_def)
  show "same_elsewhere db i w (snd (st_GetFlowContext (engStorage (shEngine (new_shard cf i))) wn fid w))"
    using redis_store.get_contexts(2) [OF redis_deployment.axioms(1) [OF dep]]
    by (cases "GetFlowContext ?r wn fid w") (simp add: defs same_elsewhere_def)
  show "same_elsewhere db i w (snd (st_SaveFlowContext (engStorage (shEngine (new_shard cf i))) wn fid c w))"
  proof (cases "Encode (rsCodec ?r) c")
    case (Inr b)
    then show ?thesis using elsewhere_do [of i "HSET (flow_key ?r wn) fid b" w] shard_keys(1) [of i cf]
      by (simp add: defs SaveFlowContext_def rdo_def dao split_beta)
  qed (use refl in \<open>simp add: defs SaveFlowContext_def\<close>)
  show "same_elsewhere db i w (snd (st_DeleteFlowContext (engStorage (shEngine (new_shard cf i))) wn fid w))"
    using elsewhere_do [of i "HDEL (flow_key ?r wn) fid" w] shard_keys(1) [of i cf]
    by (simp add: defs DeleteFlowContext_def rdo_def dao split_beta)
  show "same_elsewhere db i w (snd (st_SaveFlowContextAndDispatchAction (engStorage (shEngine (new_shard cf i))) wn fid c reqs w))"
    using elsewhere_dispatch by (simp add: defs)
  show "same_elsewhere db i w (snd (st_Retry (engStorage (shEngine (new_shard cf i))) wn fid name a d w))"
    and "same_elsewhere db i w (snd (st_Delay (engStorage (shEngine (new_shard cf i))) wn fid name a d w))"
    using elsewhere_add by (simp_all add: defs Retry_def Delay_def)
  show "same_elsewhere db i w (snd (ms_GetWorkflowDefinition (engMetadata (shEngine (new_shard cf i))) wn w))"
    by (cases "GetWorkflowDefinition (cfMetadata cf) wn w") (simp add: defs meta.get_workflow(1) same_elsewhere_def)
  show "same_elsewhere db i w (snd (ms_GetActionDefinition (engMetadata (shEngine (new_shard cf i))) name w))"
    by (cases "GetActionDefinition (cfMetadata cf) name w") (simp add: defs meta.get_action(1) same_elsewhere_def)
qed

lemma elsewhere_contexts:
  assumes "same_elsewhere db i w w'" "valid_shard i" "valid_shard j" "j \<noteq> i"
  shows "shard_contexts j w' = shard_contexts j w"
proof -
  have "\<not> shard_key i (flow_key (shard_storage cf j) wn)" for wn
    using shard_key_unique [of i "flow_key (shard_storage cf j) wn" j] shard_keys(1) [of j cf wn] assms(2-4) partition_count
    by auto
  then have "fmlookup (db w') (flow_key (shard_storage cf j) wn) = fmlookup (db w) (flow_key (shard_storage cf j) wn)" for wn
    using assms(1) by (simp add: same_elsewhere_def)
  then show ?thesis by (simp add: redis_contexts_def hfield_def hash_at_def fun_eq_iff)
qed

lemma elsewhere_queue:
  assumes "same_elsewhere db i w w'" "valid_shard i" "valid_shard j" "j \<noteq> i"
  shows "redis_items (shard_wqueue cf j) (db w') name = redis_items (shard_wqueue cf j) (db w) name"
proof -
  have "\<not> shard_key i (ext_key (shard_wqueue cf j) name)"
    using shard_key_unique [of i "ext_key (shard_wqueue cf j) name" j] shard_keys(3) [of j cf name] assms(2-4) partition_count
    by auto
  then have "fmlookup (db w') (ext_key (shard_wqueue cf j) name) = fmlookup (db w) (ext_key (shard_wqueue cf j) name)"
    using assms(1) by (simp add: same_elsewhere_def)
  then show ?thesis by (simp add: redis_items_def list_at_def)
qed

lemma elsewhere_poll:
  "same_elsewhere db i w (snd (Poll (shard_wqueue cf i) name n w))"
proof -
  have "snd (Poll (shard_wqueue cf i) name n w) =
      snd (rc_do (redisClient (cfDao cf)) (LPOP (ext_key (shard_wqueue cf i) name) n) w)"
    by (simp add: Poll_def qdo_def shard_wqueue_def split: prod.splits sum.splits reply.splits)
  then show ?thesis
    using elsewhere_do [of i "LPOP (ext_key (shard_wqueue cf i) name) n" w] shard_keys(3) [of i cf name] by simp
qed

lemma shard_op_elsewhere: "same_elsewhere db i (world s) (world (snd (run_op (shEngine (new_shard cf i)) wn fid op s)))"
proof -
  let ?F = "shEngine (new_shard cf i)"
  note fr = shard_frame [of i]
  have b: "keeps (engine_frame.worlds (same_elsewhere db i)) (bindM m (\<lambda>_. ret ()))"
    if "keeps (engine_frame.worlds (same_elsewhere db i)) m" for m
    using that by (intro keeps_bind keeps_ret engine_frame.worlds_trans [OF fr] engine_frame.worlds_refl [OF fr])
  have "keeps (engine_frame.worlds (same_elsewhere db i)) (run_op ?F wn fid op)"
    by (cases op) (simp_all add: b engine_frame.worlds_operations [OF fr])
  then show ?thesis by (simp add: keeps_def engine_frame.worlds_def [OF fr])
qed

end

sublocale redis_cluster \<subseteq> wqueues: cluster_queues "new_shards cf" "\<lambda>w i. redis_items (shard_wqueue cf i) (db w)"
proof (rule cluster_queues.intro)
  fix i sh
  assume i: "fmlookup (new_shards cf) i = Some sh"
  then have sh: "shQueue sh = NewRedisQueue (shard_wqueue cf i)" and v: "valid_shard i"
    by (auto simp: new_shards_at new_shard_def redis_shard_def split: if_splits)
  then show "external_queue (shQueue sh) (\<lambda>w. redis_items (shard_wqueue cf i) (db w))"
    using redis_queue.queue_contract [OF shard_wq, of i] by simp
  fix j name n w x w'
  assume j: "j \<noteq> i" "fmlookup (new_shards cf) j \<noteq> None" and p: "eq_Poll (shQueue sh) name n w = (x, w')"
  have "w' = snd (Poll (shard_wqueue cf i) name n w)" using p sh by (simp add: NewRedisQueue_def)
  then show "redis_items (shard_wqueue cf j) (db w') name = redis_items (shard_wqueue cf j) (db w) name"
    using elsewhere_queue [OF elsewhere_poll v _ j(1)] j(2) by (auto simp: new_shards_at split: if_splits)
qed

section \<open>Operations of the node\<close>

text \<open>The operations on a run, by the way they reach it: through the methods of the cluster, or from an
  executor of the shard.\<close>

fun cluster_op :: "('w, 'h) Cluster \<Rightarrow> string \<Rightarrow> string \<Rightarrow> engine_op \<Rightarrow> ('w node_state, unit) M" where
  "cluster_op c wn fid (OpInit input) = bindM (cluster_Init c fid wn input) (\<lambda>_. ret ())"
| "cluster_op c wn fid (OpExecute event a data) = cluster_ExecuteAction c wn fid event a data"
| "cluster_op c wn fid (OpRetryFailed name a) = cluster_RetryAction c wn fid name a ''failed''"
| "cluster_op c wn fid (OpResume event) = cluster_ExecuteResume c wn fid event"
| "cluster_op c wn fid (OpConsume event) =
     bindM (cluster_ExecuteResumeAfterWait c wn fid event) (\<lambda>_. ret ())"
| "cluster_op c wn fid OpPause = cluster_MarkPaused c wn fid"
| "cluster_op c wn fid op = on_shard c (flow_partition c fid) (\<lambda>sh. run_op (shEngine sh) wn fid op)"

lemma on_shard_bind: "snd (bindM (on_shard c i f) (\<lambda>x. ret (g x)) s) = snd (on_shard c i (\<lambda>sh. bindM (f sh) (\<lambda>x. ret (h x))) s)"
  by (auto simp: bindM_def ret_def on_shard_def split: option.splits prod.splits res.splits)

lemma cluster_op_shard:
  "snd (cluster_op c wn fid op s) = snd (on_shard c (flow_partition c fid) (\<lambda>sh. run_op (shEngine sh) wn fid op) s)"
proof (cases op)
  case (OpInit input)
  have "bindM (cluster_Init c fid wn input) (\<lambda>_. ret ()) =
      bindM (on_shard c (flow_partition c fid) (\<lambda>sh. Init (shEngine sh) wn fid input)) (\<lambda>_. ret ())"
    by (simp add: cluster_Init_def bindM_assoc if_distrib [of "\<lambda>m. bindM m _"] cong: if_cong)
  then show ?thesis using OpInit on_shard_bind by simp
next
  case (OpConsume event)
  then show ?thesis using on_shard_bind by (simp add: cluster_ExecuteResumeAfterWait_def)
qed (simp_all add: cluster_ExecuteAction_def cluster_RetryAction_def cluster_ExecuteResume_def cluster_MarkPaused_def)

context redis_cluster
begin

lemma shard_engine: "shEngine (new_shard cf i) = redis_engine (shard_storage cf i) (cfMetadata cf) (cfRuntime cf) (cfExternals cf)"
  by (simp add: new_shard_def redis_shard_def)

text \<open>An operation on a run takes only steps of the specification, in the shard of the run, and changes
  no context and no cached machine of another shard.\<close>

lemma cluster_op_refines:
  assumes "clShards c = new_shards cf" and "valid_shard (flow_partition c fid)"
    and "fair (cfRuntime cf)" and "build_flow (cfRuntime cf) wfl fid = Val fl"
    and "coherent (\<lambda>w. redis_defs (cfMetadata cf) (db w)) wn fid wfl fl (shard_view (flow_partition c fid) s)"
    and s': "s' = snd (cluster_op c wn fid op s)"
  shows "refines_run (shard_contexts (flow_partition c fid)) fl wn fid (labels_of op)
      (shard_view (flow_partition c fid) s) (shard_view (flow_partition c fid) s')"
    and "coherent (\<lambda>w. redis_defs (cfMetadata cf) (db w)) wn fid wfl fl (shard_view (flow_partition c fid) s')"
    and "valid_shard j \<Longrightarrow> j \<noteq> flow_partition c fid \<Longrightarrow>
      shard_contexts j (nsWorld s') = shard_contexts j (nsWorld s) \<and> nsMachines s' j = nsMachines s j"
proof -
  let ?i = "flow_partition c fid"
  have sh: "fmlookup (clShards c) ?i = Some (new_shard cf ?i)" using assms(1,2) by (simp add: new_shards_at)
  have run: "s' = snd (on_shard c ?i (\<lambda>sh. run_op (shEngine sh) wn fid op) s)" using s' cluster_op_shard by metis
  have v: "shard_view ?i s' = snd (run_op (shEngine (new_shard cf ?i)) wn fid op (shard_view ?i s))"
    using on_shard_run(2) [OF sh] run by metis
  note R = redis_op_refines [OF shard_deployment assms(3-5), where op = op and ex = "cfExternals cf"]
  show "refines_run (shard_contexts ?i) fl wn fid (labels_of op) (shard_view ?i s) (shard_view ?i s')"
    and "coherent (\<lambda>w. redis_defs (cfMetadata cf) (db w)) wn fid wfl fl (shard_view ?i s')"
    using R by (simp_all add: v shard_engine)
  assume j: "valid_shard j" "j \<noteq> ?i"
  have "same_elsewhere db ?i (nsWorld s) (nsWorld s')"
    using shard_op_elsewhere [of ?i "shard_view ?i s" wn fid op] v by (metis shard_view_put(3))
  then have "shard_contexts j (nsWorld s') = shard_contexts j (nsWorld s)"
    by (rule elsewhere_contexts) (use assms(2) j in simp_all)
  moreover have "nsMachines s' j = nsMachines s j"
    using run j(2) sh by (simp add: on_shard_def split_beta)
  ultimately show "shard_contexts j (nsWorld s') = shard_contexts j (nsWorld s) \<and> nsMachines s' j = nsMachines s j"
    by blast
qed

end

context redis_cluster
begin

lemma wqueues_contract: "cluster_queues (new_shards cf) (\<lambda>w i. redis_items (shard_wqueue cf i) (db w))"
  by (rule wqueues.cluster_queues_axioms)

end

end
