(* ===== verification/Reference_Node.thy ===== *)
theory Reference_Node
  imports Reference_Redis Redis_Cluster
begin

text \<open>
  A node of the reference deployment: four shards on the in-memory Redis server, an encoding of
  worker actions that accepts actions without data, and a ring with two members. It shows that the
  contracts of the worker queues, the action queues and the shards of a node can be met together.
\<close>

section \<open>Worker actions\<close>

definition ref_marshal :: "apiAction \<Rightarrow> error + string" where
  "ref_marshal a = (if paData a = fmempty
     then Inr (enc_str (paWorkflowName a) @ enc_str (paFlowId a) @ enc_int (paActionId a) @ enc_str (paActionName a))
     else Inl (ExternalError ''data''))"

definition ref_unmarshal :: "string \<Rightarrow> apiAction" where
  "ref_unmarshal s =
     (let (wn, s1) = dec_str s; (fid, s2) = dec_str s1; (i, s3) = dec_int s2; (name, s4) = dec_str s3
      in \<lparr>paWorkflowName = wn, paFlowId = fid, paData = fmempty, paActionId = i, paActionName = name\<rparr>)"

definition ref_proto :: protoLib where
  "ref_proto = \<lparr>Marshal = ref_marshal, Unmarshal = ref_unmarshal\<rparr>"

lemma ref_unmarshal_marshal: "ref_marshal a = Inr s \<Longrightarrow> ref_unmarshal s = a"
proof -
  assume s: "ref_marshal a = Inr s"
  then have d: "paData a = fmempty" by (auto simp: ref_marshal_def split: if_splits)
  have s: "s = enc_str (paWorkflowName a) @ enc_str (paFlowId a) @ enc_int (paActionId a) @ enc_str (paActionName a) @ []"
    using s d by (simp add: ref_marshal_def)
  show ?thesis unfolding s ref_unmarshal_def by (simp only: dec_str_enc dec_int_enc Let_def prod.case) (simp add: d)
qed

definition ref_wqueue :: "ref_world redisQueue" where
  "ref_wqueue = \<lparr>rqDao = ref_dao, rqShardId = ''0'', rqProto = ref_proto\<rparr>"

interpretation ref_wq: redis_queue ref_wqueue refKeys
  using ref.redis_server_axioms
  by (intro redis_queue.intro redis_queue_axioms.intro)
    (simp_all add: ref_wqueue_def ref_dao_def ref_proto_def ref_unmarshal_marshal)

section \<open>A shard\<close>

interpretation ref_node: redis_node ref_storage refKeys ref_image ref_metadata ref_wqueue ref_rt ref_ext Some 10
  by (intro redis_node.intro ref_dep.redis_deployment_axioms ref_wq.redis_queue_axioms)

definition ref_shard :: "ref_world Shard" where
  "ref_shard = redis_shard ref_storage ref_metadata ref_wqueue ref_rt ref_ext Some 10"

section \<open>A node\<close>

definition ref_config :: "ref_world nodeConfig" where
  "ref_config = \<lparr>cfDao = ref_dao, cfCodec = ref_codec, cfProto = ref_proto, cfMetadata = ref_metadata,
     cfRuntime = ref_rt, cfExternals = ref_ext, cfNewValue = Some, cfPartitionCount = 4, cfBatchSize = 10\<rparr>"

interpretation ref_cl: redis_cluster ref_config refKeys ref_image
proof (intro redis_cluster.intro redis_metadata.intro redis_cluster_axioms.intro)
  show "redis_server (redisClient (cfDao ref_config)) refKeys"
    and "redis_server (redisClient (rmDao (cfMetadata ref_config))) refKeys"
    using ref.redis_server_axioms by (simp_all add: ref_config_def ref_dao_def ref_metadata_def)
  show "flow_codec (cfCodec ref_config) ref_image" using ref.flow_codec_axioms by (simp add: ref_config_def)
  show "Unmarshal (cfProto ref_config) s = a" if "Marshal (cfProto ref_config) a = Inr s" for a s
    using that ref_unmarshal_marshal by (simp add: ref_config_def ref_proto_def)
qed (simp add: ref_config_def)

text \<open>The ring of the node \<open>n1\<close> after it and \<open>n2\<close> have joined: \<open>n1\<close> owns the partitions 0 and 2.\<close>

definition ref_joined :: "string fset cluster_state" where
  "ref_joined = snd (eventHandler ref_hash ref_shuffle ''n1''
     [EventMemberJoin [(''n1'', ''a1''), (''n2'', ''a2'')]] (new_cluster_state ref_hash 4))"

definition ref_cluster :: "(ref_world, string fset) Cluster" where
  "ref_cluster = (NewCluster ref_hash ref_shuffle ref_config)\<lparr>clRing := csRing ref_joined\<rparr>"

definition ref_nstate :: "ref_world node_state" where
  "ref_nstate = \<lparr>nsWorld = ref_world0, nsMachines = (\<lambda>_. fmempty), nsCollector = Some []\<rparr>"

lemma ref_cluster_shards: "clShards ref_cluster = new_shards ref_config"
  by (simp add: ref_cluster_def NewCluster_def)

lemma ref_cluster_partition: "0 \<le> flow_partition ref_cluster fid" "flow_partition ref_cluster fid < cfPartitionCount ref_config"
  by (simp_all add: flow_partition_def GetPartition_def ref_cluster_def NewCluster_def ref_hash_def ref_config_def)

lemma ref_partitions: "GetPartitions (clLib ref_cluster) (clShuffle ref_cluster) (clRing ref_cluster) = Val [2, 0]"
  by code_simp

lemma ref_nstate_coherent:
  "coherent (\<lambda>w. redis_defs (cfMetadata ref_config) (refKeys w)) ''demo'' ''f1'' demo demo_flow (shard_view i ref_nstate)"
  using ref_state0_coherent by (simp add: coherent_def shard_view_def ref_nstate_def ref_state0_def ref_config_def)

end
