(* ===== verification/Services.thy ===== *)
theory Services
  imports Cluster
begin

text \<open>
  The services between the network and the cluster: \<open>src/service\<close>, and the methods of the gRPC
  server in \<open>src/rpc/api.go\<close>. A protobuf value is kept as the value \<open>AsInterface\<close> gives for
  it, by the parameter \<open>asInterface\<close>. \<open>Cluster.Poll\<close> never returns an error, so the branches
  for one in its callers cannot be taken and are not in the model.
\<close>

section \<open>Stateful helpers\<close>

definition onNode :: "('w \<Rightarrow> 'a \<times> 'w) \<Rightarrow> ('w node_state, 'a) M" where
  "onNode f = (\<lambda>s. case f (nsWorld s) of (a, w) \<Rightarrow> (Val a, s\<lparr>nsWorld := w\<rparr>))"

definition node_record :: "analytics_event \<Rightarrow> ('w node_state, unit) M" where
  "node_record ev = (\<lambda>s. case nsCollector s of
     None \<Rightarrow> (Panic NilDeref, s)
   | Some evs \<Rightarrow> (Val (), s\<lparr>nsCollector := Some (evs @ [ev])\<rparr>))"

lemma onNode_run: "onNode f s = (Val (fst (f (nsWorld s))), s\<lparr>nsWorld := snd (f (nsWorld s))\<rparr>)"
  by (simp add: onNode_def split_beta)

section \<open>The service of the workers\<close>

definition ConvertFromProto :: "(any \<Rightarrow> any) \<Rightarrow> anymap \<Rightarrow> anymap" where
  "ConvertFromProto asInterface data = fmmap asInterface data"

datatype result_status = SUCCESS | FAIL | OtherStatus int

record ActionResult =
  arWorkflowName :: string
  arActionName :: string
  arFlowId :: string
  arActionId :: int
  arData :: anymap
  arStatus :: result_status

text \<open>The body of the loop of \<open>Poll\<close>: the error of \<open>GetActionDefinition\<close> is dropped, and the
  definition is nil with it.\<close>

definition arm_timeout ::
  "('w, 'h) Cluster \<Rightarrow> 'w MetadataStorage \<Rightarrow> apiAction \<Rightarrow> ('w node_state, unit) M" where
  "arm_timeout c ms action =
     bindM (onNode (ms_GetActionDefinition ms (paActionName action))) (\<lambda>r. case r of
       Inl _ \<Rightarrow> liftR (Panic NilDeref)
     | Inr actionDef \<Rightarrow>
         if RetryCount actionDef > 1 then
           bindM (cluster_Timeout c (paWorkflowName action) (paFlowId action) (paActionName action)
             (paActionId action) (seconds (dfTimeoutSeconds actionDef))) (\<lambda>_. ret ())
         else ret ())"

definition service_Poll ::
  "('w, 'h) Cluster \<Rightarrow> 'w MetadataStorage \<Rightarrow> string \<Rightarrow> int \<Rightarrow> ('w node_state, apiAction list) M" where
  "service_Poll c ms actionName batchSize =
     bindM (cluster_Poll c actionName batchSize) (\<lambda>actions.
     bindM (forM actions (arm_timeout c ms)) (\<lambda>_. ret actions))"

definition HandleActionResult ::
  "('w, 'h) Cluster \<Rightarrow> (any \<Rightarrow> any) \<Rightarrow> ActionResult \<Rightarrow> ('w node_state, error option) M" where
  "HandleActionResult c asInterface res =
     (let wn = arWorkflowName res; fid = arFlowId res; data = ConvertFromProto asInterface (arData res) in
      case arStatus res of
        SUCCESS \<Rightarrow>
          bindM (node_record (ActionSuccess wn fid (arActionName res) (arActionId res) (Some data))) (\<lambda>_.
          bindM (cluster_ExecuteAction c wn fid ''default'' (arActionId res) (Some data)) (\<lambda>_. ret None))
      | FAIL \<Rightarrow>
          bindM (node_record (ActionFailure wn fid (arActionName res) (arActionId res) ''worker failed'')) (\<lambda>_.
          bindM (cluster_RetryAction c wn fid (arActionName res) (arActionId res) ''failed'') (\<lambda>_. ret None))
      | OtherStatus _ \<Rightarrow> ret None)"

definition service_Push ::
  "('w, 'h) Cluster \<Rightarrow> (any \<Rightarrow> any) \<Rightarrow> ActionResult \<Rightarrow> ('w node_state, error option) M" where
  "service_Push c asInterface res = HandleActionResult c asInterface res"

section \<open>The service of the clients\<close>

definition StartFlow ::
  "('w, 'h) Cluster \<Rightarrow> string \<Rightarrow> string \<Rightarrow> anymap option \<Rightarrow> ('w node_state, string \<times> error option) M" where
  "StartFlow c newId name input =
     bindM (cluster_Init c newId name input) (\<lambda>(fid, err).
       if err \<noteq> None then ret ('''', err) else ret (fid, None))"

definition service_GetFlow :: "('w, 'h) Cluster \<Rightarrow> string \<Rightarrow> string \<Rightarrow> ('w node_state, error + FlowContext) M" where
  "service_GetFlow c name fid = cluster_GetFlow c name fid"

definition ResumeFlow :: "('w, 'h) Cluster \<Rightarrow> string \<Rightarrow> string \<Rightarrow> ('w node_state, error option) M" where
  "ResumeFlow c name fid = bindM (cluster_ExecuteResume c name fid ''default'') (\<lambda>_. ret None)"

definition PauseFlow :: "('w, 'h) Cluster \<Rightarrow> string \<Rightarrow> string \<Rightarrow> ('w node_state, error option) M" where
  "PauseFlow c name fid = bindM (cluster_MarkPaused c name fid) (\<lambda>_. ret None)"

definition ConsumeEvent :: "('w, 'h) Cluster \<Rightarrow> string \<Rightarrow> string \<Rightarrow> string \<Rightarrow> ('w node_state, error option) M" where
  "ConsumeEvent c name fid event = cluster_ExecuteResumeAfterWait c name fid event"

section \<open>The gRPC methods\<close>

text \<open>The message \<open>api.ActionDefinition\<close>; its numbers are 32-bit integers, which fit into an
  \<open>int\<close>. A response is its status flag and the error of the call.\<close>

record apiActionDefinition =
  pdName :: string
  pdRetryCount :: int
  pdRetryAfterSeconds :: int
  pdRetryPolicy :: string
  pdTimeoutSeconds :: int

definition rpc_SaveActionDefinition ::
  "'w MetadataStorage \<Rightarrow> apiActionDefinition \<Rightarrow> ('w node_state, bool \<times> error option) M" where
  "rpc_SaveActionDefinition ms req =
     (let action = \<lparr>dfName = pdName req, RetryCount = pdRetryCount req, RetryAfterSeconds = pdRetryAfterSeconds req,
            dfRetryPolicy = pdRetryPolicy req, dfTimeoutSeconds = pdTimeoutSeconds req\<rparr> in
      bindM (onNode (ms_SaveActionDefinition ms action)) (\<lambda>err.
        if err \<noteq> None then ret (False, err) else ret (True, None)))"

definition rpc_Poll ::
  "('w, 'h) Cluster \<Rightarrow> 'w MetadataStorage \<Rightarrow> string \<Rightarrow> int \<Rightarrow> ('w node_state, apiAction list) M" where
  "rpc_Poll c ms actionType batchSize = service_Poll c ms actionType batchSize"

definition rpc_Push ::
  "('w, 'h) Cluster \<Rightarrow> (any \<Rightarrow> any) \<Rightarrow> ActionResult \<Rightarrow> ('w node_state, bool \<times> error option) M" where
  "rpc_Push c asInterface req =
     bindM (service_Push c asInterface req) (\<lambda>err. if err \<noteq> None then ret (False, err) else ret (True, None))"

definition rpc_GetServers :: "('w, 'h) Cluster \<Rightarrow> (string list \<Rightarrow> string list) \<Rightarrow> (string \<times> string) list" where
  "rpc_GetServers c ord = GetServers ord (clRing c)"

section \<open>What a reported result does\<close>

text \<open>A result changes the shard of its run by one operation of the engine, after it has been recorded.\<close>

definition with_event :: "analytics_event \<Rightarrow> 'w node_state \<Rightarrow> 'w node_state" where
  "with_event ev s = s\<lparr>nsCollector := map_option (\<lambda>evs. evs @ [ev]) (nsCollector s)\<rparr>"

lemma HandleActionResult_effect:
  assumes "nsCollector s \<noteq> None"
  shows "arStatus res = SUCCESS \<Longrightarrow> snd (HandleActionResult c asI res s) =
      snd (cluster_ExecuteAction c (arWorkflowName res) (arFlowId res) ''default'' (arActionId res)
        (Some (ConvertFromProto asI (arData res)))
        (with_event (ActionSuccess (arWorkflowName res) (arFlowId res) (arActionName res) (arActionId res)
          (Some (ConvertFromProto asI (arData res)))) s))"
    and "arStatus res = FAIL \<Longrightarrow> snd (HandleActionResult c asI res s) =
      snd (cluster_RetryAction c (arWorkflowName res) (arFlowId res) (arActionName res) (arActionId res) ''failed''
        (with_event (ActionFailure (arWorkflowName res) (arFlowId res) (arActionName res) (arActionId res) ''worker failed'') s))"
  using assms by (auto simp: HandleActionResult_def Let_def bindM_def ret_def node_record_def with_event_def
      split: option.splits prod.splits res.splits)

lemma with_event_simps [simp]:
  "nsWorld (with_event ev s) = nsWorld s" "nsMachines (with_event ev s) = nsMachines s"
  "stateMachines (shard_view i (with_event ev s)) = stateMachines (shard_view i s)"
  "world (shard_view i (with_event ev s)) = world (shard_view i s)"
  by (simp_all add: with_event_def shard_view_def)

end
