(* ===== verification/Rest_Api.thy ===== *)
theory Rest_Api
  imports Services
begin

text \<open>
  The HTTP handlers, \<open>src/rest\<close>. A handler takes what it reads of the request and returns the
  response: the decoded body is the value \<open>encoding/json\<close> leaves in the struct, with the error of
  \<open>Decode\<close>, and a path variable is \<open>None\<close> when the router did not set it. The response writer
  follows \<open>net/http\<close>: only the first \<open>WriteHeader\<close> counts, and a \<open>Write\<close> before it sends
  status 200. A payload stands for its rendering by \<open>encoding/json\<close>.
\<close>

section \<open>Responses\<close>

record FlowExecution =
  feId :: string
  feRunningActions :: "int list"
  feData :: anymap
  feState :: string
  feEvent :: string
  feExecutedActions :: "int list"

datatype payload =
    JError string
  | JInvalid error
  | JCreated
  | JFlowId string
  | JWorkflow Workflow
  | JAction ActionDefinition
  | JExecution FlowExecution

record ResponseWriter =
  rwStatus :: "int option"
  rwBody :: "payload list"

definition new_writer :: ResponseWriter where
  "new_writer = \<lparr>rwStatus = None, rwBody = []\<rparr>"

definition WriteHeader :: "int \<Rightarrow> ResponseWriter \<Rightarrow> ResponseWriter" where
  "WriteHeader code w = (case rwStatus w of None \<Rightarrow> w\<lparr>rwStatus := Some code\<rparr> | Some _ \<Rightarrow> w)"

definition Write :: "payload \<Rightarrow> ResponseWriter \<Rightarrow> ResponseWriter" where
  "Write p w = (WriteHeader 200 w)\<lparr>rwBody := rwBody w @ [p]\<rparr>"

definition respondWithJSON :: "int \<Rightarrow> payload \<Rightarrow> ResponseWriter \<Rightarrow> ResponseWriter" where
  "respondWithJSON code payload w = Write payload (WriteHeader code w)"

definition respondOK :: "payload \<Rightarrow> ResponseWriter \<Rightarrow> ResponseWriter" where
  "respondOK msg w = Write msg (WriteHeader 200 w)"

definition respondOKWithoutBody :: "ResponseWriter \<Rightarrow> ResponseWriter" where
  "respondOKWithoutBody w = WriteHeader 200 w"

definition respondWithError :: "int \<Rightarrow> payload \<Rightarrow> ResponseWriter \<Rightarrow> ResponseWriter" where
  "respondWithError code msg w = respondWithJSON code msg w"

text \<open>The two checks at the start of a handler: both go on after they have sent status 400.\<close>

definition decode_check :: "error option \<Rightarrow> ResponseWriter \<Rightarrow> ResponseWriter" where
  "decode_check err w = (if err \<noteq> None then WriteHeader 400 w else w)"

definition path_var :: "string option \<Rightarrow> ResponseWriter \<Rightarrow> string \<times> ResponseWriter" where
  "path_var v w = (case v of None \<Rightarrow> ('''', WriteHeader 400 w) | Some x \<Rightarrow> (x, w))"

section \<open>Definitions of workflows and actions\<close>

definition HandleCreateFlow ::
  "runtime \<Rightarrow> externals \<Rightarrow> 'w MetadataStorage \<Rightarrow> Workflow \<Rightarrow> error option \<Rightarrow> ('w node_state, ResponseWriter) M" where
  "HandleCreateFlow rt ex ms fl decodeErr =
     (let w = decode_check decodeErr new_writer in
      bindM (onNode (ValidateFlow rt ex ms fl)) (\<lambda>e. case e of
        Some err \<Rightarrow> ret (respondWithError 400 (JInvalid err) w)
      | None \<Rightarrow>
          bindM (onNode (ms_SaveWorkflowDefinition ms fl)) (\<lambda>e2.
            if e2 \<noteq> None then ret (respondWithError 400 (JError ''error creating workflow'') w)
            else ret (respondOK JCreated w))))"

definition HandleGetFlow ::
  "'w MetadataStorage \<Rightarrow> string option \<Rightarrow> ('w node_state, ResponseWriter) M" where
  "HandleGetFlow ms name =
     (let (flowName, w) = path_var name new_writer in
      bindM (onNode (ms_GetWorkflowDefinition ms flowName)) (\<lambda>r. case r of
        Inl _ \<Rightarrow> ret (respondWithError 400 (JError ''wokflow does not exist'') w)
      | Inr wfl \<Rightarrow> ret (respondWithJSON 200 (JWorkflow wfl) w)))"

definition HandleCreateActionDefinition ::
  "'w MetadataStorage \<Rightarrow> ActionDefinition \<Rightarrow> error option \<Rightarrow> ('w node_state, ResponseWriter) M" where
  "HandleCreateActionDefinition ms actionDef decodeErr =
     (let w = decode_check decodeErr new_writer in
      bindM (onNode (ms_SaveActionDefinition ms actionDef)) (\<lambda>e.
        if e \<noteq> None then ret (respondWithError 400 (JError ''error creating action definition'') w)
        else ret (respondOK JCreated w)))"

definition HandleGetActionDefinition ::
  "'w MetadataStorage \<Rightarrow> string option \<Rightarrow> ('w node_state, ResponseWriter) M" where
  "HandleGetActionDefinition ms name =
     (let (actionName, w) = path_var name new_writer in
      bindM (onNode (ms_GetActionDefinition ms actionName)) (\<lambda>r. case r of
        Inl _ \<Rightarrow> ret (respondWithError 400 (JError ''action definition not found'') w)
      | Inr d \<Rightarrow> ret (respondWithJSON 200 (JAction d) w)))"

section \<open>Running workflows\<close>

record WorkflowRunRequest =
  rrName :: string
  rrInput :: "anymap option"

record WorkflowEvent =
  weName :: string
  weFlowId :: string
  weEvent :: string

definition HandleRunFlow ::
  "('w, 'h) Cluster \<Rightarrow> string \<Rightarrow> WorkflowRunRequest \<Rightarrow> error option \<Rightarrow> ('w node_state, ResponseWriter) M" where
  "HandleRunFlow c newId runReq decodeErr =
     (let w = decode_check decodeErr new_writer in
      bindM (StartFlow c newId (rrName runReq) (rrInput runReq)) (\<lambda>(flowId, err).
        if err \<noteq> None then ret (respondWithError 400 (JError ''error running workflow'') w)
        else ret (respondOK (JFlowId flowId) w)))"

definition HandlePauseFlow ::
  "('w, 'h) Cluster \<Rightarrow> string option \<Rightarrow> string option \<Rightarrow> ('w node_state, ResponseWriter) M" where
  "HandlePauseFlow c name fid =
     (let (flowName, w1) = path_var name new_writer; (flowId, w) = path_var fid w1 in
      bindM (PauseFlow c flowName flowId) (\<lambda>err.
        if err \<noteq> None then ret (respondWithError 400 (JError ''error consuming event workflow'') w)
        else ret (respondOKWithoutBody w)))"

definition HandleResumeFlow ::
  "('w, 'h) Cluster \<Rightarrow> string option \<Rightarrow> string option \<Rightarrow> ('w node_state, ResponseWriter) M" where
  "HandleResumeFlow c name fid =
     (let (flowName, w1) = path_var name new_writer; (flowId, w) = path_var fid w1 in
      bindM (ResumeFlow c flowName flowId) (\<lambda>err.
        if err \<noteq> None then ret (respondWithError 400 (JError ''error consuming event workflow'') w)
        else ret (respondOKWithoutBody w)))"

fun state_name :: "FlowState \<Rightarrow> string" where
  "state_name RUNNING = ''RUNNING''"
| "state_name COMPLETED = ''COMPLETED''"
| "state_name FAILED = ''FAILED''"
| "state_name WAITING_DELAY = ''DELAY WAITING''"
| "state_name WAITING_EVENT = ''EVENT WAITING''"
| "state_name PAUSED = ''PAUSED''"
| "state_name (OtherFlowState _) = ''UNDEFINED''"

definition flow_execution :: "runtime \<Rightarrow> FlowContext \<Rightarrow> FlowExecution" where
  "flow_execution rt flowContext =
     \<lparr>feId = ctxId flowContext, feRunningActions = range_keys (ordI rt) (CurrentActionIds flowContext),
      feData = Data flowContext, feState = state_name (State flowContext), feEvent = Event flowContext,
      feExecutedActions = range_keys (ordI rt) (ExecutedActions flowContext)\<rparr>"

definition HandleGetFlowExecution ::
  "runtime \<Rightarrow> ('w, 'h) Cluster \<Rightarrow> string option \<Rightarrow> string option \<Rightarrow> ('w node_state, ResponseWriter) M" where
  "HandleGetFlowExecution rt c name fid =
     (let (flowName, w1) = path_var name new_writer; (flowId, w) = path_var fid w1 in
      bindM (service_GetFlow c flowName flowId) (\<lambda>r. case r of
        Inl _ \<Rightarrow> ret (respondWithError 400 (JError ''flow execution not found'') w)
      | Inr flowContext \<Rightarrow> ret (respondWithJSON 200 (JExecution (flow_execution rt flowContext)) w)))"

definition HandleEvent ::
  "('w, 'h) Cluster \<Rightarrow> WorkflowEvent \<Rightarrow> error option \<Rightarrow> ('w node_state, ResponseWriter) M" where
  "HandleEvent c req decodeErr =
     (let w = decode_check decodeErr new_writer in
      bindM (ConsumeEvent c (weName req) (weFlowId req) (weEvent req)) (\<lambda>err.
        if err \<noteq> None then ret (respondWithError 400 (JError ''error consuming event workflow'') w)
        else ret (respondOKWithoutBody w)))"

section \<open>Status codes\<close>

lemmas writer_defs = WriteHeader_def Write_def respondWithJSON_def respondOK_def respondOKWithoutBody_def
  respondWithError_def decode_check_def path_var_def new_writer_def

text \<open>The status of a response that goes through the first check.\<close>

lemma checked_status:
  "rwStatus (respondWithError 400 p (decode_check e new_writer)) = Some 400"
  "rwStatus (respondOK p (decode_check e new_writer)) = (if e = None then Some 200 else Some 400)"
  "rwStatus (respondOKWithoutBody (decode_check e new_writer)) = (if e = None then Some 200 else Some 400)"
  by (simp_all add: writer_defs)

lemma checked_body:
  "rwBody (respondWithError 400 p (decode_check e new_writer)) = [p]"
  "rwBody (respondOK p (decode_check e new_writer)) = [p]"
  "rwBody (respondOKWithoutBody (decode_check e new_writer)) = []"
  by (simp_all add: writer_defs)

lemma HandleEvent_cases:
  assumes "HandleEvent c req e s = (Val rsp, s')"
  obtains res where "ConsumeEvent c (weName req) (weFlowId req) (weEvent req) s = (Val res, s')"
    and "rwStatus rsp = (if res = None \<and> e = None then Some 200 else Some 400)"
  using assms that by (auto simp: HandleEvent_def Let_def bindM_def ret_def checked_status
      split: prod.splits res.splits if_splits)

lemma HandleCreateFlow_cases:
  assumes "HandleCreateFlow rt ex ms fl e s = (Val rsp, s')"
  shows "rwStatus rsp = Some 200 \<longleftrightarrow> e = None \<and>
    (\<exists>w1 w2. ValidateFlow rt ex ms fl (nsWorld s) = (None, w1) \<and> ms_SaveWorkflowDefinition ms fl w1 = (None, w2) \<and>
      s' = s\<lparr>nsWorld := w2\<rparr>)"
  using assms by (auto simp: HandleCreateFlow_def Let_def bindM_def ret_def onNode_def checked_status
      split: prod.splits option.splits if_splits)

lemma HandleCreateActionDefinition_run:
  "HandleCreateActionDefinition ms d e s =
    (Val (if fst (ms_SaveActionDefinition ms d (nsWorld s)) = None then respondOK JCreated (decode_check e new_writer)
       else respondWithError 400 (JError ''error creating action definition'') (decode_check e new_writer)),
     s\<lparr>nsWorld := snd (ms_SaveActionDefinition ms d (nsWorld s))\<rparr>)"
  by (simp add: HandleCreateActionDefinition_def Let_def bindM_def ret_def onNode_run)

lemma state_name_inject:
  "state_name st = state_name st' \<longleftrightarrow> st = st' \<or> (\<exists>x y. st = OtherFlowState x \<and> st' = OtherFlowState y)"
  by (cases st; cases st') auto

text \<open>The engine's error on starting a run is lost on the way: the request is answered with status 200 and
  an empty id.\<close>

lemma failed_start_is_answered:
  assumes "fmlookup (clShards c) (flow_partition c newId) = Some sh"
    and "fst (Init (shEngine sh) (rrName req) newId (rrInput req) (shard_view (flow_partition c newId) s)) = Val (Some e)"
  shows "\<exists>rsp s'. HandleRunFlow c newId req None s = (Val rsp, s') \<and> rwStatus rsp = Some 200 \<and> rwBody rsp = [JFlowId '''']"
  using assms by (auto simp: HandleRunFlow_def StartFlow_def cluster_Init_def on_shard_def bindM_def ret_def Let_def
      writer_defs split: prod.splits)

end
