(* ===== verification/Redis_Services.thy ===== *)
theory Redis_Services
  imports Rest_Api Redis_Cluster
begin

text \<open>
  The services on a Redis node: the facts about the engine and the queues, stated for what a worker
  or a client calls.
\<close>

context redis_cluster
begin

section \<open>Late results\<close>

lemma late_cluster_op:
  assumes "clShards c = new_shards cf" and "valid_shard (flow_partition c fid)"
    and "fair (cfRuntime cf)" and "build_flow (cfRuntime cf) wfl fid = Val fl"
    and "coherent (\<lambda>w. redis_defs (cfMetadata cf) (db w)) wn fid wfl fl (shard_view (flow_partition c fid) s)"
    and "op_action op = Some a"
    and "\<And>ctx. shard_contexts (flow_partition c fid) (nsWorld s) (wn, fid) = Some ctx \<Longrightarrow>
      terminal_state (State ctx) \<or> a \<in> fmdom' (ExecutedActions ctx)"
    and "valid_shard j"
  shows "shard_contexts j (nsWorld (snd (cluster_op c wn fid op s))) = shard_contexts j (nsWorld s)"
proof (cases "j = flow_partition c fid")
  case True
  let ?i = "flow_partition c fid"
  have sh: "fmlookup (clShards c) ?i = Some (new_shard cf ?i)" using assms(1,2) by (simp add: new_shards_at)
  have v: "shard_view ?i (snd (cluster_op c wn fid op s)) =
      snd (run_op (shEngine (new_shard cf ?i)) wn fid op (shard_view ?i s))"
    using on_shard_run(2) [OF sh] cluster_op_shard by metis
  have "nsWorld (snd (cluster_op c wn fid op s)) =
      world (snd (run_op (shEngine (new_shard cf ?i)) wn fid op (shard_view ?i s)))"
    using v by (metis shard_view_put(3))
  moreover have "shard_contexts ?i (world (snd (run_op (shEngine (new_shard cf ?i)) wn fid op (shard_view ?i s)))) =
      shard_contexts ?i (world (shard_view ?i s))"
    unfolding shard_engine
    by (rule redis_late_result_ignored [OF shard_deployment assms(3-6)]) (use assms(7) in simp)
  ultimately show ?thesis using True by simp
next
  case False
  then show ?thesis using cluster_op_refines(3) [OF assms(1-5) refl assms(8)] by blast
qed

lemma late_action_result:
  assumes "clShards c = new_shards cf" and "valid_shard (flow_partition c (arFlowId res))"
    and "fair (cfRuntime cf)" and "build_flow (cfRuntime cf) wfl (arFlowId res) = Val fl"
    and "coherent (\<lambda>w. redis_defs (cfMetadata cf) (db w)) (arWorkflowName res) (arFlowId res) wfl fl
      (shard_view (flow_partition c (arFlowId res)) s)"
    and "\<And>ctx. shard_contexts (flow_partition c (arFlowId res)) (nsWorld s) (arWorkflowName res, arFlowId res) = Some ctx \<Longrightarrow>
      terminal_state (State ctx) \<or> arActionId res \<in> fmdom' (ExecutedActions ctx)"
    and "valid_shard j"
  shows "shard_contexts j (nsWorld (snd (HandleActionResult c asI res s))) = shard_contexts j (nsWorld s)"
proof -
  let ?wn = "arWorkflowName res" and ?fid = "arFlowId res"
  have late: "shard_contexts j (nsWorld (snd (cluster_op c ?wn ?fid op (with_event ev s)))) = shard_contexts j (nsWorld s)"
    if "op_action op = Some (arActionId res)" for op ev
    using late_cluster_op [OF assms(1-4) _ that _ assms(7), of ?wn "with_event ev s"] assms(5,6)
    by (simp add: coherent_def)
  show ?thesis
  proof (cases "nsCollector s")
    case None
    then show ?thesis
      by (auto simp: HandleActionResult_def Let_def bindM_def ret_def node_record_def split: result_status.splits)
  next
    case (Some evs)
    note E = HandleActionResult_effect [of s res c asI]
    show ?thesis
    proof (cases "arStatus res")
      case SUCCESS
      then show ?thesis using E(1) Some late [of "OpExecute ''default'' (arActionId res) _"] by simp
    next
      case FAIL
      then show ?thesis using E(2) Some late [of "OpRetryFailed (arActionName res) (arActionId res)"] by simp
    next
      case (OtherStatus n)
      then show ?thesis by (simp add: HandleActionResult_def Let_def ret_def)
    qed
  qed
qed

section \<open>Events\<close>

lemma consumed_event:
  assumes "clShards c = new_shards cf" and "valid_shard (flow_partition c fid)"
    and "fair (cfRuntime cf)" and "build_flow (cfRuntime cf) wfl fid = Val fl"
    and "coherent (\<lambda>w. redis_defs (cfMetadata cf) (db w)) wn fid wfl fl (shard_view (flow_partition c fid) s)"
    and "ConsumeEvent c wn fid event s = (Val res, s')"
  shows "res = None \<Longrightarrow> \<exists>ctx. shard_contexts (flow_partition c fid) (nsWorld s) (wn, fid) = Some ctx \<and>
      Event ctx = event \<and> \<not> terminal_state (State ctx)"
    and "res \<noteq> None \<Longrightarrow> shard_contexts (flow_partition c fid) (nsWorld s') = shard_contexts (flow_partition c fid) (nsWorld s)"
proof -
  let ?i = "flow_partition c fid"
  have sh: "fmlookup (clShards c) ?i = Some (new_shard cf ?i)" using assms(1,2) by (simp add: new_shards_at)
  let ?F = "redis_engine (shard_storage cf ?i) (cfMetadata cf) (cfRuntime cf) (cfExternals cf)"
  have e: "ConsumeEvent c wn fid event s = on_shard c ?i (\<lambda>sh. ExecuteResumeAfterWait (shEngine sh) wn fid event) s"
    by (simp add: ConsumeEvent_def cluster_ExecuteResumeAfterWait_def)
  have "fst (ExecuteResumeAfterWait ?F wn fid event (shard_view ?i s)) = Val res"
    using on_shard_run(1) [OF sh, of "\<lambda>sh. ExecuteResumeAfterWait (shEngine sh) wn fid event" s] assms(6) e
    by (simp add: shard_engine)
  moreover have "snd (ExecuteResumeAfterWait ?F wn fid event (shard_view ?i s)) = shard_view ?i s'"
    using on_shard_run(2) [OF sh, of "\<lambda>sh. ExecuteResumeAfterWait (shEngine sh) wn fid event" s] assms(6) e
    by (simp add: shard_engine)
  ultimately have r: "ExecuteResumeAfterWait ?F wn fid event (shard_view ?i s) = (Val res, shard_view ?i s')"
    by (simp add: prod_eq_iff)
  note R = redis_consume_event [OF shard_deployment assms(3-5) r]
  show "res = None \<Longrightarrow> \<exists>ctx. shard_contexts ?i (nsWorld s) (wn, fid) = Some ctx \<and>
      Event ctx = event \<and> \<not> terminal_state (State ctx)"
    and "res \<noteq> None \<Longrightarrow> shard_contexts ?i (nsWorld s') = shard_contexts ?i (nsWorld s)"
    using R by auto
qed

section \<open>Polling\<close>

lemma cluster_poll_run:
  assumes "clShards c = new_shards cf" and "cluster_Poll c name n s = (Val acts, s')"
  shows "\<exists>parts. GetPartitions (clLib c) (clShuffle c) (clRing c) = Val parts \<and>
    poll_partitions (new_shards cf) name n parts [] (nsWorld s) = (Val acts, nsWorld s')"
  using assms by (auto simp: cluster_Poll_def bindM_def liftR_def split: res.splits prod.splits)

end

end
