(* ===== verification/Worker_Loop.thy ===== *)
theory Worker_Loop
  imports Prelude
begin

text \<open>
  The goroutine behind every executor: \<open>src/util/worker.go\<close> with the guards that the
  executors of \<open>src/shard/executor\<close> put around it. \<open>Start\<close> and \<open>Stop\<close> of an executor are
  called one after the other (the ring calls them under its mutex); they interleave with the
  goroutine, which clears the flag \<open>running\<close> some time after it has taken the stop signal.
  The step relation has one rule per atomic action of either side.
\<close>

section \<open>The transition system\<close>

text \<open>Where the caller is: outside the two methods, in \<open>Start\<close> after the \<open>go\<close> statement, or in
  \<open>Stop\<close> behind its guard, on the way to the unbuffered channel or blocked on it.\<close>

datatype caller = Outside | Starting | Sending

text \<open>Where a goroutine is: at its \<open>select\<close>, in the handler (or sleeping after it), or behind the
  receive of the stop signal. A goroutine that has returned is removed.\<close>

datatype goroutine = AtSelect | InHandler | Received

record Worker =
  running :: bool
  goroutines :: "goroutine list"
  caller :: caller

datatype worker_label = StartCall | StopCall | Silent

definition NewWorker :: Worker where
  "NewWorker = \<lparr>running = False, goroutines = [], caller = Outside\<rparr>"

inductive worker_step :: "Worker \<Rightarrow> worker_label \<Rightarrow> Worker \<Rightarrow> bool" where
  start_ignored: "caller w = Outside \<Longrightarrow> running w \<Longrightarrow> worker_step w StartCall w"
| start_spawns: "caller w = Outside \<Longrightarrow> \<not> running w \<Longrightarrow>
    worker_step w StartCall (w\<lparr>goroutines := AtSelect # goroutines w, caller := Starting\<rparr>)"
| start_returns: "caller w = Starting \<Longrightarrow> worker_step w Silent (w\<lparr>running := True, caller := Outside\<rparr>)"
| stop_ignored: "caller w = Outside \<Longrightarrow> \<not> running w \<Longrightarrow> worker_step w StopCall w"
| stop_sends: "caller w = Outside \<Longrightarrow> running w \<Longrightarrow> worker_step w StopCall (w\<lparr>caller := Sending\<rparr>)"
| signal_received: "caller w = Sending \<Longrightarrow> goroutines w = xs @ AtSelect # ys \<Longrightarrow>
    worker_step w Silent (w\<lparr>goroutines := xs @ Received # ys, caller := Outside\<rparr>)"
| handler_called: "goroutines w = xs @ AtSelect # ys \<Longrightarrow>
    worker_step w Silent (w\<lparr>goroutines := xs @ InHandler # ys\<rparr>)"
| handler_returned: "goroutines w = xs @ InHandler # ys \<Longrightarrow>
    worker_step w Silent (w\<lparr>goroutines := xs @ AtSelect # ys\<rparr>)"
| goroutine_returned: "goroutines w = xs @ Received # ys \<Longrightarrow>
    worker_step w Silent (w\<lparr>goroutines := xs @ ys, running := False\<rparr>)"

inductive_simps worker_step_start: "worker_step w StartCall w'"
inductive_simps worker_step_stop: "worker_step w StopCall w'"
inductive_cases worker_step_silent: "worker_step w Silent w'"

inductive worker_steps :: "Worker \<Rightarrow> worker_label list \<Rightarrow> Worker \<Rightarrow> bool" where
  idle: "worker_steps w [] w"
| more: "worker_step w l w' \<Longrightarrow> worker_steps w' ls w'' \<Longrightarrow> worker_steps w (l # ls) w''"

definition worker_reachable :: "Worker \<Rightarrow> bool" where
  "worker_reachable w \<longleftrightarrow> (\<exists>ls. worker_steps NewWorker ls w)"

section \<open>The invariant\<close>

text \<open>The reachable shapes: no goroutine and the flag clear, a goroutine being started, a goroutine
  that serves, or one that has been told to stop.\<close>

definition serving :: "Worker \<Rightarrow> bool" where
  "serving w \<longleftrightarrow> goroutines w = [AtSelect] \<or> goroutines w = [InHandler]"

definition worker_inv :: "Worker \<Rightarrow> bool" where
  "worker_inv w \<longleftrightarrow>
     (goroutines w = [] \<and> \<not> running w \<and> caller w \<noteq> Starting) \<or>
     (serving w \<and> (running w \<longleftrightarrow> caller w \<noteq> Starting)) \<or>
     (goroutines w = [Received] \<and> running w \<and> caller w \<noteq> Starting)"

lemma single_split:
  "[g] = xs @ g' # ys \<longleftrightarrow> xs = [] \<and> ys = [] \<and> g' = g"
  "xs @ g' # ys = [g] \<longleftrightarrow> xs = [] \<and> ys = [] \<and> g' = g"
  by (cases xs; auto)+

lemma worker_inv_NewWorker: "worker_inv NewWorker"
  by (simp add: worker_inv_def NewWorker_def)

lemma worker_inv_step: "worker_step w l w' \<Longrightarrow> worker_inv w \<Longrightarrow> worker_inv w'"
  by (induction rule: worker_step.induct) (auto simp: worker_inv_def serving_def single_split)

lemma worker_inv_steps: "worker_steps w ls w' \<Longrightarrow> worker_inv w \<Longrightarrow> worker_inv w'"
  by (induction rule: worker_steps.induct) (auto intro: worker_inv_step)

lemma worker_reachable_inv: "worker_reachable w \<Longrightarrow> worker_inv w"
  using worker_inv_steps worker_inv_NewWorker by (auto simp: worker_reachable_def)

section \<open>What the worker guarantees\<close>

text \<open>When no stop is in progress, \<open>Start\<close> leads to a serving goroutine; and a stop that has been
  taken leads to none.\<close>

definition settled :: "Worker \<Rightarrow> bool" where
  "settled w \<longleftrightarrow> worker_inv w \<and> caller w = Outside \<and> Received \<notin> set (goroutines w)"

lemma settled_running: "settled w \<Longrightarrow> running w \<longleftrightarrow> serving w"
  by (auto simp: settled_def worker_inv_def serving_def)

lemma settled_start:
  assumes "settled w" and "worker_step w StartCall w1"
  shows "(running w \<and> w1 = w) \<or> (caller w1 = Starting \<and> serving w1 \<and>
    (\<forall>w2. worker_step w1 Silent w2 \<longrightarrow> serving w2 \<and> (caller w2 = Outside \<longrightarrow> settled w2 \<and> running w2)))"
proof (cases "running w")
  case True
  then show ?thesis using assms(2) by (simp add: worker_step_start)
next
  case False
  then have g: "goroutines w = []" using assms(1) by (auto simp: settled_def worker_inv_def serving_def)
  have w1: "w1 = w\<lparr>goroutines := [AtSelect], caller := Starting\<rparr>"
    using assms(2) False g by (simp add: worker_step_start)
  have "serving w2 \<and> (caller w2 = Outside \<longrightarrow> settled w2 \<and> running w2)" if s: "worker_step w1 Silent w2" for w2
    using s by (cases rule: worker_step_silent)
      (auto simp: w1 serving_def settled_def worker_inv_def single_split)
  then show ?thesis using w1 by (simp add: serving_def)
qed

text \<open>A stop of a serving worker can always proceed: the goroutine comes back to its select, takes the
  signal and returns.\<close>

lemma worker_steps_trans: "worker_steps w ls w' \<Longrightarrow> worker_steps w' ms w'' \<Longrightarrow> worker_steps w (ls @ ms) w''"
  by (induction rule: worker_steps.induct) (auto intro: worker_steps.more)

lemma back_to_select:
  assumes "serving w"
  shows "\<exists>ls. set ls \<subseteq> {Silent} \<and> worker_steps w ls (w\<lparr>goroutines := [AtSelect]\<rparr>)"
proof (cases "goroutines w = [AtSelect]")
  case True
  then have "w\<lparr>goroutines := [AtSelect]\<rparr> = w" by simp
  then show ?thesis using worker_steps.idle [of w] by (metis empty_set empty_subsetI)
next
  case False
  then have "goroutines w = [] @ InHandler # []" using assms by (simp add: serving_def)
  then have "worker_step w Silent (w\<lparr>goroutines := [] @ AtSelect # []\<rparr>)" by (rule handler_returned)
  then have "worker_steps w [Silent] (w\<lparr>goroutines := [AtSelect]\<rparr>)" by (auto intro: worker_steps.intros)
  then show ?thesis by (intro exI [where x = "[Silent]"]) simp
qed

lemma received_signal:
  assumes "caller w = Sending" "goroutines w = [AtSelect]"
  shows "worker_steps w [Silent, Silent] (w\<lparr>goroutines := [], running := False, caller := Outside\<rparr>)"
proof (rule worker_steps.more)
  show "worker_step w Silent (w\<lparr>goroutines := [] @ Received # [], caller := Outside\<rparr>)"
    by (rule signal_received) (use assms in simp_all)
  let ?w = "w\<lparr>goroutines := [] @ Received # [], caller := Outside\<rparr>"
  have "worker_step ?w Silent (?w\<lparr>goroutines := [] @ [], running := False\<rparr>)"
    by (rule goroutine_returned) simp
  moreover have "?w\<lparr>goroutines := [] @ [], running := False\<rparr> = w\<lparr>goroutines := [], running := False, caller := Outside\<rparr>"
    by simp
  ultimately show "worker_steps ?w [Silent] (w\<lparr>goroutines := [], running := False, caller := Outside\<rparr>)"
    by (metis worker_steps.intros)
qed

lemma stop_completes:
  assumes "settled w" and "running w" and "worker_step w StopCall w1"
  shows "\<exists>ls w2. set ls \<subseteq> {Silent} \<and> worker_steps w1 ls w2 \<and> settled w2 \<and> \<not> running w2 \<and> goroutines w2 = []"
proof -
  have c: "caller w = Outside" using assms(1) by (simp add: settled_def)
  have w1: "w1 = w\<lparr>caller := Sending\<rparr>" using assms(2,3) by (simp add: worker_step_stop)
  have "serving w1" using settled_running [OF assms(1)] assms(2) w1 by (simp add: serving_def)
  then obtain ls where ls: "set ls \<subseteq> {Silent}" "worker_steps w1 ls (w1\<lparr>goroutines := [AtSelect]\<rparr>)"
    using back_to_select by blast
  let ?w2 = "w1\<lparr>goroutines := [], running := False, caller := Outside\<rparr>"
  have "worker_steps (w1\<lparr>goroutines := [AtSelect]\<rparr>) [Silent, Silent] ?w2"
    using received_signal [of "w1\<lparr>goroutines := [AtSelect]\<rparr>"] w1 by simp
  then have "worker_steps w1 (ls @ [Silent, Silent]) ?w2" by (rule worker_steps_trans [OF ls(2)])
  moreover have "settled ?w2" by (simp add: settled_def worker_inv_def)
  ultimately show ?thesis using ls(1) by (intro exI [where x = "ls @ [Silent, Silent]"] exI [where x = ?w2]) auto
qed

section \<open>Races\<close>

text \<open>A worker that has been told to stop but has not cleared its flag.\<close>

definition stopping :: Worker where
  "stopping = \<lparr>running = True, goroutines = [Received], caller = Outside\<rparr>"

lemma stopping_reachable: "worker_steps NewWorker [StartCall, Silent, StopCall, Silent] stopping"
proof -
  let ?a = "\<lparr>running = False, goroutines = [AtSelect], caller = Starting\<rparr>"
  let ?b = "\<lparr>running = True, goroutines = [AtSelect], caller = Outside\<rparr>"
  let ?c = "\<lparr>running = True, goroutines = [AtSelect], caller = Sending\<rparr>"
  have "worker_step NewWorker StartCall ?a" by (simp add: worker_step_start NewWorker_def)
  moreover have "worker_step ?a Silent ?b" using start_returns [of ?a] by simp
  moreover have "worker_step ?b StopCall ?c" by (simp add: worker_step_stop)
  moreover have "worker_step ?c Silent stopping"
    using signal_received [of ?c "[]" "[]"] by (simp add: stopping_def)
  ultimately show ?thesis by (blast intro: worker_steps.intros)
qed

text \<open>A caller that is blocked while no goroutine is left stays blocked.\<close>

definition deadlocked :: "Worker \<Rightarrow> bool" where
  "deadlocked w \<longleftrightarrow> caller w = Sending \<and> goroutines w = []"

lemma deadlocked_step: "worker_step w l w' \<Longrightarrow> deadlocked w \<Longrightarrow> False"
  by (induction rule: worker_step.induct) (auto simp: deadlocked_def)

lemma stopping_start_lost:
  "worker_steps stopping [StartCall, Silent] (stopping\<lparr>running := False, goroutines := []\<rparr>)"
proof -
  have "worker_step stopping StartCall stopping" by (rule start_ignored) (simp_all add: stopping_def)
  moreover have "worker_step stopping Silent (stopping\<lparr>running := False, goroutines := []\<rparr>)"
    using goroutine_returned [of stopping "[]" "[]"] by (simp add: stopping_def)
  ultimately show ?thesis by (blast intro: worker_steps.intros)
qed

lemma stopping_stop_blocks:
  "worker_steps stopping [StopCall, Silent] \<lparr>running = False, goroutines = [], caller = Sending\<rparr>"
proof -
  let ?w = "stopping\<lparr>caller := Sending\<rparr>"
  have "worker_step stopping StopCall ?w" by (rule stop_sends) (simp_all add: stopping_def)
  moreover have "worker_step ?w Silent \<lparr>running = False, goroutines = [], caller = Sending\<rparr>"
    using goroutine_returned [of ?w "[]" "[]"] by (simp add: stopping_def)
  ultimately show ?thesis by (blast intro: worker_steps.intros)
qed

end
