(* ===== verification/Configuration.thy ===== *)
theory Configuration
  imports Model Go_Strings
begin

text \<open>
  The configuration of a node: \<open>src/config/Config.go\<close>, the flags and \<open>setupConfig\<close> of
  \<open>src/main.go\<close>, and \<open>InitDataCollector\<close> of \<open>src/analytics/analytics.go\<close>. The values that
  viper merges from the configuration file and the flags are parameters, as are the name of the
  host and whether the file of the analytics can be opened. \<open>SplitHostPort\<close> is the function
  of Go's \<open>net\<close> package; the lemmas show when the address a node announces to the workers can be
  split again.
\<close>

section \<open>Addresses\<close>

fun first_index :: "char \<Rightarrow> string \<Rightarrow> nat option" where
  "first_index c [] = None"
| "first_index c (x # xs) = (if x = c then Some 0 else map_option Suc (first_index c xs))"

definition last_index :: "char \<Rightarrow> string \<Rightarrow> nat option" where
  "last_index c s = map_option (\<lambda>i. length s - 1 - i) (first_index c (rev s))"

definition split_checked :: "string \<Rightarrow> string \<Rightarrow> string \<Rightarrow> string \<Rightarrow> error + string \<times> string" where
  "split_checked host a b port =
     (if CHR ''['' \<in> set a then Inl (ExternalError ''unexpected '[' in address'')
      else if CHR '']'' \<in> set b then Inl (ExternalError ''unexpected ']' in address'')
      else Inr (host, port))"

definition SplitHostPort :: "string \<Rightarrow> error + string \<times> string" where
  "SplitHostPort s =
     (case last_index (CHR '':'') s of
        None \<Rightarrow> Inl (ExternalError ''missing port in address'')
      | Some i \<Rightarrow>
          if hd s = CHR ''['' then
            (case first_index (CHR '']'') s of
               None \<Rightarrow> Inl (ExternalError ''missing ']' in address'')
             | Some e \<Rightarrow>
                 if e + 1 = length s then Inl (ExternalError ''missing port in address'')
                 else if e + 1 = i then split_checked (take (e - 1) (drop 1 s)) (drop 1 s) (drop (e + 1) s) (drop (i + 1) s)
                 else if s ! (e + 1) = CHR '':'' then Inl (ExternalError ''too many colons in address'')
                 else Inl (ExternalError ''missing port in address''))
          else if CHR '':'' \<in> set (take i s) then Inl (ExternalError ''too many colons in address'')
          else split_checked (take i s) s s (drop (i + 1) s))"

section \<open>The configuration\<close>

record ClusterConfig =
  NodeName :: string
  BindAddr :: string
  Tags :: "(string, string) fmap"
  StartJoinAddrs :: "string list option"
  PartitionCount :: int

record DataCollectorConfig =
  FileName :: string
  CollectorType :: string

record Config =
  RedisAddrs :: "string list"
  RedisNamespace :: string
  RedisPassword :: string
  HttpPort :: int
  GrpcPort :: int
  StorageType :: string
  QueueType :: string
  EncoderDecoderType :: string
  cfgCluster :: ClusterConfig
  BatchSize :: int
  AnalyticsConfig :: DataCollectorConfig

definition LOG_FILE_DATA_COLLECTOR :: string where
  "LOG_FILE_DATA_COLLECTOR = ''LOG_FILE_DATA_COLLECTOR''"

definition RPCAddr :: "Config \<Rightarrow> error + string" where
  "RPCAddr c =
     (case SplitHostPort (BindAddr (cfgCluster c)) of
        Inl e \<Rightarrow> Inl e
      | Inr (host, _) \<Rightarrow> Inr (host @ CHR '':'' # Itoa (GrpcPort c)))"

text \<open>The collector that \<open>InitDataCollector\<close> sets up has recorded nothing yet; for any other type
  the package variable keeps its value.\<close>

definition InitDataCollector ::
  "(string \<Rightarrow> error option) \<Rightarrow> DataCollectorConfig \<Rightarrow> 'e list option \<Rightarrow> error option \<times> 'e list option" where
  "InitDataCollector openFile conf worklfowCollector =
     (if CollectorType conf = LOG_FILE_DATA_COLLECTOR then
        case openFile (FileName conf) of
          Some err \<Rightarrow> (Some err, worklfowCollector)
        | None \<Rightarrow> (None, Some [])
      else (None, worklfowCollector))"

section \<open>The command line\<close>

datatype flag = StringFlag string | IntFlag int | SliceFlag "string list option"

definition setupFlags :: "string \<Rightarrow> (string \<times> flag) list" where
  "setupFlags hostname =
    [(''config-file'', StringFlag ''''), (''redis-address'', StringFlag ''localhost:6379''),
     (''redis-password'', StringFlag ''''), (''namespace'', StringFlag ''orchy''), (''http-port'', IntFlag 8080),
     (''grpc-port'', IntFlag 8099), (''storage-impl'', StringFlag ''redis''), (''queue-impl'', StringFlag ''redis''),
     (''data-serializer'', StringFlag ''JSON''), (''partitions'', IntFlag 7), (''batch-size'', IntFlag 100),
     (''bind-address'', StringFlag ''127.0.0.1:8400''), (''cluster-address'', SliceFlag None),
     (''node-name'', StringFlag hostname), (''analytics-output'', StringFlag ''LOG_FILE'')]"

record viperLib =
  GetString :: "string \<Rightarrow> string"
  GetInt :: "string \<Rightarrow> int"
  GetStringSlice :: "string \<Rightarrow> string list option"

text \<open>What reading the configuration file can give; a file that is not found is no error.\<close>

datatype read_result = ReadOk | ConfigFileNotFound | ReadError error

definition setupConfig :: "viperLib \<Rightarrow> read_result \<Rightarrow> error + Config" where
  "setupConfig viper rd =
     (case rd of ReadError err \<Rightarrow> Inl err
      | _ \<Rightarrow>
        let out = GetString viper ''analytics-output'';
            c = \<lparr>RedisAddrs = Split (CHR '','') (GetString viper ''redis-address''),
              RedisNamespace = GetString viper ''namespace'', RedisPassword = GetString viper ''redis-password'',
              HttpPort = GetInt viper ''http-port'', GrpcPort = GetInt viper ''grpc-port'',
              StorageType = GetString viper ''storage-impl'', QueueType = GetString viper ''queue-impl'',
              EncoderDecoderType = GetString viper ''data-serializer'',
              cfgCluster = \<lparr>NodeName = GetString viper ''node-name'', BindAddr = GetString viper ''bind-address'',
                Tags = fmempty, StartJoinAddrs = GetStringSlice viper ''cluster-address'',
                PartitionCount = GetInt viper ''partitions''\<rparr>,
              BatchSize = GetInt viper ''batch-size'',
              AnalyticsConfig = (if out = ''LOG_FILE''
                then \<lparr>FileName = ''analytics.log'', CollectorType = LOG_FILE_DATA_COLLECTOR\<rparr>
                else \<lparr>FileName = '''', CollectorType = ''''\<rparr>)\<rparr>
        in case RPCAddr c of
             Inl err \<Rightarrow> Inl err
           | Inr rpcAddr \<Rightarrow> Inr (c\<lparr>cfgCluster := (cfgCluster c)\<lparr>Tags := fmap_of_list [(''rpc_addr'', rpcAddr)]\<rparr>\<rparr>))"

text \<open>Viper without a configuration file and without arguments gives the defaults of the flags, and
  the zero value for a name it does not know.\<close>

definition default_viper :: "string \<Rightarrow> viperLib" where
  "default_viper hostname =
     \<lparr>GetString = (\<lambda>k. case map_of (setupFlags hostname) k of Some (StringFlag s) \<Rightarrow> s | _ \<Rightarrow> ''''),
      GetInt = (\<lambda>k. case map_of (setupFlags hostname) k of Some (IntFlag i) \<Rightarrow> i | _ \<Rightarrow> 0),
      GetStringSlice = (\<lambda>k. case map_of (setupFlags hostname) k of Some (SliceFlag xs) \<Rightarrow> xs | _ \<Rightarrow> None)\<rparr>"

section \<open>Splitting addresses\<close>

lemma first_index_append: "c \<notin> set xs \<Longrightarrow> first_index c (xs @ c # ys) = Some (length xs)"
  by (induction xs) auto

lemma first_index_None: "first_index c xs = None \<longleftrightarrow> c \<notin> set xs"
  by (induction xs) auto

lemma last_index_append: "c \<notin> set ys \<Longrightarrow> last_index c (xs @ c # ys) = Some (length xs)"
  using first_index_append [of c "rev ys" "rev xs"] by (simp add: last_index_def)

lemma last_index_None: "last_index c xs = None \<longleftrightarrow> c \<notin> set xs"
  by (simp add: last_index_def first_index_None)

lemma Itoa_chars:
  "c \<in> set (Itoa i) \<Longrightarrow> c = CHR ''-'' \<or> digit_val c \<noteq> None"
  by (auto simp: Itoa_def dest: set_nat_digits split: if_splits)

lemma Itoa_plain [simp]:
  "CHR '':'' \<notin> set (Itoa i)" "CHR ''['' \<notin> set (Itoa i)" "CHR '']'' \<notin> set (Itoa i)"
  by (auto dest!: Itoa_chars simp: digit_val_def)

text \<open>A host without colons and brackets can be split off again; a host with a colon, which is what
  is left of an IPv6 address, cannot.\<close>

lemma SplitHostPort_plain:
  assumes "CHR '':'' \<notin> set host" and "CHR ''['' \<notin> set host" and "CHR '']'' \<notin> set host"
  shows "SplitHostPort (host @ CHR '':'' # Itoa p) = Inr (host, Itoa p)"
proof -
  have "hd (host @ CHR '':'' # Itoa p) \<noteq> CHR ''[''" using assms(2) by (cases host) auto
  then show ?thesis
    using assms by (simp add: SplitHostPort_def last_index_append split_checked_def)
qed

lemma SplitHostPort_colons:
  assumes "CHR '':'' \<in> set host" and "CHR ''['' \<notin> set host"
  shows "SplitHostPort (host @ CHR '':'' # Itoa p) = Inl (ExternalError ''too many colons in address'')"
proof -
  have "hd (host @ CHR '':'' # Itoa p) \<noteq> CHR ''[''" using assms by (cases host) auto
  then show ?thesis using assms(1) by (simp add: SplitHostPort_def last_index_append)
qed

lemma SplitHostPort_host:
  assumes "SplitHostPort s = Inr (host, port)"
  shows "CHR ''['' \<notin> set host" and "CHR '']'' \<notin> set host"
proof -
  have b: "CHR '']'' \<notin> set (take (e - 1) (drop 1 s))" if "first_index (CHR '']'') s = Some e" "hd s = CHR ''[''" for e
    using that
  proof (induction s arbitrary: e)
    case (Cons x xs)
    then obtain e' where e: "first_index (CHR '']'') xs = Some e'" "e = Suc e'" by (auto split: if_splits)
    have "CHR '']'' \<notin> set (take e' xs)" using e(1)
      by (induction xs arbitrary: e') (auto split: if_splits)
    then show ?case using e(2) by simp
  qed simp
  have d: "set (take (e - 1) (drop 1 s)) \<subseteq> set (drop 1 s)" for e by (meson set_take_subset)
  show "CHR ''['' \<notin> set host" "CHR '']'' \<notin> set host"
    using assms b d
    by (auto simp: SplitHostPort_def split_checked_def split: option.splits if_splits dest: in_set_takeD)
qed

text \<open>The address a node announces to the workers splits into the host of its bind address and the
  gRPC port, unless the host is an IPv6 address: then its brackets are gone and no client can split it.\<close>

lemma RPCAddr_splits:
  assumes "SplitHostPort (BindAddr (cfgCluster c)) = Inr (host, port)" and "RPCAddr c = Inr a"
  shows "SplitHostPort a = (if CHR '':'' \<in> set host then Inl (ExternalError ''too many colons in address'')
    else Inr (host, Itoa (GrpcPort c)))"
  using assms SplitHostPort_host [OF assms(1)] by (auto simp: RPCAddr_def SplitHostPort_plain SplitHostPort_colons)

section \<open>What is configured\<close>

lemma setupConfig_tags:
  assumes "setupConfig viper rd = Inr c"
  shows "\<exists>a. RPCAddr c = Inr a \<and> Tags (cfgCluster c) = fmap_of_list [(''rpc_addr'', a)]"
  using assms by (auto simp: setupConfig_def Let_def RPCAddr_def split: read_result.splits sum.splits prod.splits)

lemma setupConfig_collector:
  assumes "setupConfig viper rd = Inr c"
  shows "CollectorType (AnalyticsConfig c) = LOG_FILE_DATA_COLLECTOR \<longleftrightarrow> GetString viper ''analytics-output'' = ''LOG_FILE''"
  using assms by (auto simp: setupConfig_def Let_def LOG_FILE_DATA_COLLECTOR_def split: read_result.splits sum.splits if_splits)

lemma default_flags:
  "GetString (default_viper h) ''redis-address'' = ''localhost:6379''"
  "GetString (default_viper h) ''storage-impl'' = ''redis''" "GetString (default_viper h) ''queue-impl'' = ''redis''"
  "GetString (default_viper h) ''bind-address'' = ''127.0.0.1:8400''" "GetString (default_viper h) ''node-name'' = h"
  "GetString (default_viper h) ''analytics-output'' = ''LOG_FILE''"
  "GetInt (default_viper h) ''partitions'' = 7" "GetInt (default_viper h) ''grpc-port'' = 8099"
  by (simp_all add: default_viper_def setupFlags_def)

lemma default_config:
  "\<exists>c. setupConfig (default_viper hostname) ConfigFileNotFound = Inr c \<and> StorageType c = ''redis'' \<and>
     QueueType c = ''redis'' \<and> PartitionCount (cfgCluster c) = 7 \<and> NodeName (cfgCluster c) = hostname \<and>
     CollectorType (AnalyticsConfig c) = LOG_FILE_DATA_COLLECTOR \<and>
     Tags (cfgCluster c) = fmap_of_list [(''rpc_addr'', ''127.0.0.1:8099'')]"
proof -
  have p: "Itoa 8400 = ''8400''" "Itoa 8099 = ''8099''"
  proof -
    have "digit_char 8 = CHR ''8''" "digit_char 4 = CHR ''4''" "digit_char 0 = CHR ''0''" "digit_char 9 = CHR ''9''"
      by code_simp+
    then show "Itoa 8400 = ''8400''" "Itoa 8099 = ''8099''" by (simp_all add: Itoa_def nat_digits.simps)
  qed
  have "SplitHostPort (''127.0.0.1'' @ CHR '':'' # Itoa 8400) = Inr (''127.0.0.1'', Itoa 8400)"
    by (rule SplitHostPort_plain) simp_all
  then have "SplitHostPort ''127.0.0.1:8400'' = Inr (''127.0.0.1'', Itoa 8400)" by (simp add: p)
  then have a: "RPCAddr c = Inr ''127.0.0.1:8099''" if "BindAddr (cfgCluster c) = ''127.0.0.1:8400''" "GrpcPort c = 8099" for c
    by (simp add: RPCAddr_def that p)
  show ?thesis by (simp add: setupConfig_def default_flags a Let_def)
qed

end
