(* ===== verification/Agent_Setup.thy ===== *)
theory Agent_Setup
  imports Configuration Services Redis_Cluster
begin

text \<open>
  The life of a node: \<open>src/agent/agent.go\<close>, with the set-up of the membership in
  \<open>src/cluster/membership.go\<close> and the servers of \<open>src/rest/server.go\<close> and \<open>src/rpc/server.go\<close>. \<open>New\<close> runs the set-up functions in order and stops at the
  first error; \<open>Shutdown\<close> runs once. What the libraries answer (opening the file of the analytics, the
  membership library, the registration of the gRPC views) and what the model of a cluster takes as
  parameters is in \<open>agentEnv\<close>.

  The lemmas connect a started node to the cluster the other theories are about, and describe
  what a shutdown leaves behind.
\<close>

section \<open>Setting up the membership\<close>

record serfLib =
  sf_ResolveTCPAddr :: "string \<Rightarrow> error option"
  sf_Create :: "ClusterConfig \<Rightarrow> error option"
  sf_Join :: "string list \<Rightarrow> error option"

text \<open>The error, and whether the goroutine that handles the events was started.\<close>

definition setupSerf :: "serfLib \<Rightarrow> ClusterConfig \<Rightarrow> error option \<times> bool" where
  "setupSerf sf conf =
     (case sf_ResolveTCPAddr sf (BindAddr conf) of Some e \<Rightarrow> (Some e, False)
      | None \<Rightarrow> case sf_Create sf conf of Some e \<Rightarrow> (Some e, False)
      | None \<Rightarrow> case StartJoinAddrs conf of None \<Rightarrow> (None, True)
      | Some addrs \<Rightarrow> case sf_Join sf addrs of Some e \<Rightarrow> (Some e, True) | None \<Rightarrow> (None, True))"

definition NewMemberShip :: "serfLib \<Rightarrow> ClusterConfig \<Rightarrow> error option" where
  "NewMemberShip sf conf = (case fst (setupSerf sf conf) of Some e \<Rightarrow> Some e | None \<Rightarrow> None)"

section \<open>Setting up a node\<close>

record 'w agentEnv =
  evOpenFile :: "string \<Rightarrow> error option"
  evSerf :: serfLib
  evRegisterViews :: "error option"
  evBaseDao :: "string list \<Rightarrow> string \<Rightarrow> string \<Rightarrow> int \<Rightarrow> 'w baseDao"
  evFlowCodec :: "FlowContext EncoderDecoder"
  evWorkflowCodec :: "Workflow EncoderDecoder"
  evActionCodec :: "ActionDefinition EncoderDecoder"
  evProto :: protoLib
  evRuntime :: runtime
  evExternals :: externals
  evNewValue :: "any \<Rightarrow> any option"

text \<open>The servers of \<open>src/rest/server.go\<close> and \<open>src/rpc/server.go\<close> as the set-up makes them: what they are
  configured with. \<open>NewServer\<close> registers the routes of theory \<open>Rest_Server\<close> and cannot fail; \<open>NewGrpcServer\<close>
  fails when the views of the metrics library cannot be registered. Each service is the cluster it
  works on.\<close>

record ('w, 'h) Server =
  srvAddr :: string
  srvIdleTimeout :: int
  srvPort :: int
  srvMetadata :: "'w redisMetadataStorage option"
  srvExecutor :: "('w, 'h) Cluster option"

definition NewServer ::
  "int \<Rightarrow> 'w redisMetadataStorage option \<Rightarrow> ('w, 'h) Cluster option \<Rightarrow> error + ('w, 'h) Server" where
  "NewServer httpPort metadataService executorService =
     Inr \<lparr>srvAddr = CHR '':'' # Itoa httpPort, srvIdleTimeout = seconds 2, srvPort = httpPort,
          srvMetadata = metadataService, srvExecutor = executorService\<rparr>"

record ('w, 'h) GrpcConfig =
  gcActionService :: "('w, 'h) Cluster option"
  gcActionDefinitionService :: "'w redisMetadataStorage option"
  gcGetServerer :: "('w, 'h) Cluster option"

definition NewGrpcServer :: "error option \<Rightarrow> ('w, 'h) GrpcConfig \<Rightarrow> error + ('w, 'h) GrpcConfig" where
  "NewGrpcServer registered config = (case registered of Some err \<Rightarrow> Inl err | None \<Rightarrow> Inr config)"

text \<open>
  The fields of the agent that the set-up fills, and the package variable of the analytics. \<open>None\<close> is nil for
  the metadata storage and the servers. For the cluster it also stands for one whose shards have
  a nil storage, queue or encoder, which is what the source builds for every configuration other than
  Redis and JSON: no operation on a run of such a cluster can be called without a panic.
\<close>

record ('w, 'h) Agent =
  agConfig :: Config
  agCollector :: "analytics_event list option"
  agMetadata :: "'w redisMetadataStorage option"
  agCluster :: "('w, 'h) Cluster option"
  agWorkflowService :: "('w, 'h) Cluster option"
  agActionService :: "('w, 'h) Cluster option"
  agHttpServer :: "('w, 'h) Server option"
  agGrpcServer :: "('w, 'h) GrpcConfig option"

definition new_agent :: "Config \<Rightarrow> ('w, 'h) Agent" where
  "new_agent conf = \<lparr>agConfig = conf, agCollector = None, agMetadata = None, agCluster = None,
     agWorkflowService = None, agActionService = None, agHttpServer = None, agGrpcServer = None\<rparr>"

definition setupAnalytics :: "'w agentEnv \<Rightarrow> ('w, 'h) Agent \<Rightarrow> (error option \<times> ('w, 'h) Agent) res" where
  "setupAnalytics ev a =
     (case InitDataCollector (evOpenFile ev) (AnalyticsConfig (agConfig a)) (agCollector a) of
        (e, c) \<Rightarrow> Val (e, a\<lparr>agCollector := c\<rparr>))"

definition base_dao :: "'w agentEnv \<Rightarrow> Config \<Rightarrow> int \<Rightarrow> 'w baseDao" where
  "base_dao ev conf poolSize = evBaseDao ev (RedisAddrs conf) (RedisNamespace conf) (RedisPassword conf) poolSize"

definition setupMetadataService :: "'w agentEnv \<Rightarrow> ('w, 'h) Agent \<Rightarrow> (error option \<times> ('w, 'h) Agent) res" where
  "setupMetadataService ev a =
     (if StorageType (agConfig a) = ''redis''
      then Val (None, a\<lparr>agMetadata := Some \<lparr>rmDao = base_dao ev (agConfig a) 4,
             workflowEncoderDecoder = evWorkflowCodec ev, actionEncoderDecoder = evActionCodec ev\<rparr>\<rparr>)
      else Val (None, a))"

definition node_config :: "'w agentEnv \<Rightarrow> Config \<Rightarrow> 'w redisMetadataStorage \<Rightarrow> 'w nodeConfig" where
  "node_config ev conf m =
     \<lparr>cfDao = base_dao ev conf 100, cfCodec = evFlowCodec ev, cfProto = evProto ev, cfMetadata = m,
      cfRuntime = evRuntime ev, cfExternals = evExternals ev, cfNewValue = evNewValue ev,
      cfPartitionCount = PartitionCount (cfgCluster conf), cfBatchSize = BatchSize conf\<rparr>"

definition setupCluster ::
  "'w agentEnv \<Rightarrow> 'h consistentLib \<Rightarrow> (int list \<Rightarrow> int list) \<Rightarrow> ('w, 'h) Agent \<Rightarrow> (error option \<times> ('w, 'h) Agent) res" where
  "setupCluster ev L shuffle a =
     (if NewMemberShip (evSerf ev) (cfgCluster (agConfig a)) \<noteq> None then Panic PanicCall
      else Val (None, a\<lparr>agCluster :=
        (case agMetadata a of None \<Rightarrow> None
         | Some m \<Rightarrow> if QueueType (agConfig a) = ''redis'' \<and> EncoderDecoderType (agConfig a) \<noteq> ''PROTO''
             then Some (NewCluster L shuffle (node_config ev (agConfig a) m)) else None)\<rparr>))"

definition setupWorkflowExecutionService :: "('w, 'h) Agent \<Rightarrow> (error option \<times> ('w, 'h) Agent) res" where
  "setupWorkflowExecutionService a = Val (None, a\<lparr>agWorkflowService := agCluster a\<rparr>)"

definition setupActionExecutorService :: "('w, 'h) Agent \<Rightarrow> (error option \<times> ('w, 'h) Agent) res" where
  "setupActionExecutorService a = Val (None, a\<lparr>agActionService := agCluster a\<rparr>)"

definition setupHttpServer :: "('w, 'h) Agent \<Rightarrow> (error option \<times> ('w, 'h) Agent) res" where
  "setupHttpServer a =
     (case NewServer (HttpPort (agConfig a)) (agMetadata a) (agWorkflowService a) of
        Inl err \<Rightarrow> Val (Some err, a\<lparr>agHttpServer := None\<rparr>)
      | Inr srv \<Rightarrow> Val (None, a\<lparr>agHttpServer := Some srv\<rparr>))"

definition setupGrpcServer :: "'w agentEnv \<Rightarrow> ('w, 'h) Agent \<Rightarrow> (error option \<times> ('w, 'h) Agent) res" where
  "setupGrpcServer ev a =
     (case NewGrpcServer (evRegisterViews ev)
         \<lparr>gcActionService = agActionService a, gcActionDefinitionService = agMetadata a, gcGetServerer = agCluster a\<rparr> of
        Inl err \<Rightarrow> Val (Some err, a\<lparr>agGrpcServer := None\<rparr>)
      | Inr srv \<Rightarrow> Val (None, a\<lparr>agGrpcServer := Some srv\<rparr>))"

fun run_setup :: "('a \<Rightarrow> (error option \<times> 'a) res) list \<Rightarrow> 'a \<Rightarrow> (error + 'a) res" where
  "run_setup [] a = Val (Inr a)"
| "run_setup (fn # fns) a =
     (case fn a of
        Panic p \<Rightarrow> Panic p
      | Val (Some err, a') \<Rightarrow> Val (Inl err)
      | Val (None, a') \<Rightarrow> run_setup fns a')"

definition Agent_New ::
  "'w agentEnv \<Rightarrow> 'h consistentLib \<Rightarrow> (int list \<Rightarrow> int list) \<Rightarrow> Config \<Rightarrow> (error + ('w, 'h) Agent) res" where
  "Agent_New ev L shuffle conf =
     run_setup [setupAnalytics ev, setupMetadataService ev, setupCluster ev L shuffle, setupWorkflowExecutionService,
       setupActionExecutorService, setupHttpServer, setupGrpcServer ev] (new_agent conf)"

section \<open>Shutting down\<close>

text \<open>The running node: the flag \<open>shutdown\<close>, whose setting also closes the channel \<open>shutdowns\<close>, the
  ring with the executors, and whether the two servers serve.\<close>

record 'h server_state =
  svShutdown :: bool
  svCluster :: "'h cluster_state"
  svHttp :: bool
  svGrpc :: bool

text \<open>\<open>Stop\<close> of the HTTP server reports an error of the library and returns nil all the same, so all
  three functions of the list are run. The call returns when every goroutine of an executor has
  ended, see theory \<open>Worker_Loop\<close>.\<close>

definition Shutdown :: "'h server_state \<Rightarrow> 'h server_state" where
  "Shutdown s =
     (if svShutdown s then s
      else s\<lparr>svShutdown := True, svCluster := (svCluster s)\<lparr>csShards := cluster_Stop (csShards (svCluster s))\<rparr>,
             svHttp := False, svGrpc := False\<rparr>)"

section \<open>A node that has been set up\<close>

lemmas setup_defs = Agent_New_def setupAnalytics_def setupMetadataService_def setupCluster_def
  setupWorkflowExecutionService_def setupActionExecutorService_def setupHttpServer_def setupGrpcServer_def NewServer_def
  NewGrpcServer_def new_agent_def

text \<open>With the default kinds of storage, queue and encoding a node that comes up has the cluster of theory
  \<open>Redis_Cluster\<close>, and its services and both servers work on it; it fails to come up by a panic only when the
  membership cannot be set up.\<close>

lemma Agent_New_redis:
  assumes "Agent_New ev L shuffle conf = Val (Inr a)" and "StorageType conf = ''redis''" and "QueueType conf = ''redis''"
    and "EncoderDecoderType conf \<noteq> ''PROTO''"
  obtains m where "agMetadata a = Some m" and "agCluster a = Some (NewCluster L shuffle (node_config ev conf m))"
    and "agWorkflowService a = agCluster a" and "agActionService a = agCluster a"
    and "map_option srvExecutor (agHttpServer a) = Some (agCluster a)" and "map_option srvMetadata (agHttpServer a) = Some (Some m)"
    and "map_option gcActionService (agGrpcServer a) = Some (agCluster a)"
    and "map_option gcActionDefinitionService (agGrpcServer a) = Some (Some m)"
  using assms that by (auto simp: setup_defs split: prod.splits option.splits if_splits)

lemma Agent_New_panics:
  "Agent_New ev L shuffle conf = Panic p \<Longrightarrow> NewMemberShip (evSerf ev) (cfgCluster conf) \<noteq> None"
  by (auto simp: setup_defs split: prod.splits option.splits if_splits)

lemma Agent_New_collector:
  assumes "Agent_New ev L shuffle conf = Val (Inr a)"
  shows "agCollector a = (if CollectorType (AnalyticsConfig conf) = LOG_FILE_DATA_COLLECTOR then Some [] else None)"
  using assms by (auto simp: setup_defs InitDataCollector_def split: prod.splits option.splits if_splits)

text \<open>Without a collector, which is what every value of \<open>analytics-output\<close> but \<open>LOG_FILE\<close> gives, a
  worker that reports a result makes the node panic.\<close>

lemma result_without_collector:
  assumes "nsCollector s = None" and "arStatus res \<in> {SUCCESS, FAIL}"
  shows "HandleActionResult c asI res s = (Panic NilDeref, s)"
  using assms by (auto simp: HandleActionResult_def Let_def bindM_def node_record_def)

lemma result_panics_without_log_file:
  assumes "setupConfig viper rd = Inr conf" and "GetString viper ''analytics-output'' \<noteq> ''LOG_FILE''"
    and "Agent_New ev L shuffle conf = Val (Inr a)" and "nsCollector s = agCollector a" and "arStatus res \<in> {SUCCESS, FAIL}"
  shows "HandleActionResult c asI res s = (Panic NilDeref, s)"
  using result_without_collector [OF _ assms(5)] Agent_New_collector [OF assms(3)] setupConfig_collector [OF assms(1)]
    assms(2,4) by simp

section \<open>A node that has been shut down\<close>

lemma Shutdown_idempotent: "Shutdown (Shutdown s) = Shutdown s"
  by (simp add: Shutdown_def)

lemma cluster_Stop_serving:
  assumes "shards_ok n shards"
  shows "shards_ok n (cluster_Stop shards)" and "serving_shards (cluster_Stop shards) = {}"
proof -
  have "cluster_Stop shards = Rebalance [] shards"
    by (intro fmap_ext) (simp add: cluster_Stop_def Rebalance_def)
  then show "shards_ok n (cluster_Stop shards)" "serving_shards (cluster_Stop shards) = {}"
    using Rebalance_serving [OF assms, of "[]"] by simp_all
qed

text \<open>The membership is not left: the goroutine that handles its events goes on.\<close>

context consistent_hash
begin

lemma Shutdown_stops:
  assumes "node_ok me (svCluster s)" and "\<not> svShutdown s"
  shows "node_ok me (svCluster (Shutdown s))" and "serving_shards (csShards (svCluster (Shutdown s))) = {}"
  using assms cluster_Stop_serving [of n "csShards (svCluster s)"] by (auto simp: node_ok_def Shutdown_def)

lemma leave_after_Shutdown:
  assumes "node_ok me (svCluster s)" and "\<not> svShutdown s" and "me \<in> fmdom' (nodes (csRing (svCluster s)))"
    and "name \<noteq> me" and "ring_Leave L shuffle name (svCluster (Shutdown s)) = (x, c')"
  shows "x = Val () \<and> serving_shards (csShards c') = owned (csRing c') \<and> me \<in> fmdom' (nodes (csRing c')) \<and>
    fmdom' (nodes (csRing c')) = fmdom' (nodes (csRing (svCluster s))) - {name}"
proof -
  let ?r = "csRing (svCluster s)"
  let ?r1 = "?r\<lparr>nodes := fmdrop name (nodes ?r), hring := cl_Remove L name (hring ?r)\<rparr>"
  have r: "csRing (svCluster (Shutdown s)) = ?r" using assms(2) by (simp add: Shutdown_def)
  have i: "ring_inv ?r1" using assms(1) by (auto simp: node_ok_def ring_inv_def members_remove)
  have "me \<in> fmdom' (nodes ?r1)" using assms(3,4) by simp
  then have "nodes ?r1 \<noteq> fmempty" by (metis fmdom'_empty empty_iff)
  moreover have "shards_ok n (csShards (svCluster (Shutdown s)))"
    using Shutdown_stops(1) [OF assms(1,2)] by (simp add: node_ok_def)
  moreover have "rebalance_ring L shuffle ?r1 (csShards (svCluster (Shutdown s))) = (x, c')"
    using assms(5) by (simp add: ring_Leave_def Let_def r)
  ultimately show ?thesis using rebalance_ok [OF i, of "csShards (svCluster (Shutdown s))" x c'] assms(3,4)
    by (auto simp: balanced_def)
qed

end

end
