(* ===== verification/Resumptions.thy ===== *)
theory Resumptions
  imports Effects
begin

text \<open>
  Goroutines that share a state. A program is what a goroutine has still to do: it has returned, it has
  panicked, or it takes a turn, which changes the shared state and leaves the rest of the program.
  \<open>runP\<close> runs a program without an interruption and gives the stateful code of theory \<open>Effects\<close>;
  \<open>interleave\<close> lets several programs take turns in the order of a schedule, and a schedule that is sorted runs them
  one after the other (\<open>serial\<close>). A program is a finite
  tree along every path, so it takes only finitely many turns.

  The locale \<open>shared\<close> has the rules of rely-guarantee reasoning: an invariant that every turn keeps, and
  facts about the state that no turn of another program invalidates.
\<close>

section \<open>Definitions\<close>

datatype ('s, 'a) prog = Returns 'a | Panics go_panic | Turn "'s \<Rightarrow> ('s, 'a) prog \<times> 's"

primrec bindP :: "('s, 'a) prog \<Rightarrow> ('a \<Rightarrow> ('s, 'b) prog) \<Rightarrow> ('s, 'b) prog" where
  "bindP (Returns a) f = f a"
| "bindP (Panics p) f = Panics p"
| "bindP (Turn t) f = Turn (\<lambda>s. map_prod (\<lambda>q. bindP q f) id (t s))"

text \<open>One turn that runs stateful code.\<close>

definition atomic :: "('s, 'a) M \<Rightarrow> ('s, 'a) prog" where
  "atomic m = Turn (\<lambda>s. case m s of (Val a, s') \<Rightarrow> (Returns a, s') | (Panic p, s') \<Rightarrow> (Panics p, s'))"

primrec forP :: "'x list \<Rightarrow> ('x \<Rightarrow> ('s, unit) prog) \<Rightarrow> ('s, unit) prog" where
  "forP [] f = Returns ()"
| "forP (x # xs) f = bindP (f x) (\<lambda>_. forP xs f)"

primrec runP :: "('s, 'a) prog \<Rightarrow> ('s, 'a) M" where
  "runP (Returns a) = ret a"
| "runP (Panics p) = liftR (Panic p)"
| "runP (Turn t) = (\<lambda>s. case map_prod runP id (t s) of (m, s') \<Rightarrow> m s')"

text \<open>A turn of a program that has ended does nothing.\<close>

fun turn :: "('s, 'a) prog \<Rightarrow> 's \<Rightarrow> ('s, 'a) prog \<times> 's" where
  "turn (Turn t) s = t s"
| "turn p s = (p, s)"

fun interleave :: "nat list \<Rightarrow> ('s, 'a) prog list \<Rightarrow> 's \<Rightarrow> ('s, 'a) prog list \<times> 's" where
  "interleave [] ps s = (ps, s)"
| "interleave (i # is) ps s = (case turn (ps ! i) s of (p, s') \<Rightarrow> interleave is (ps[i := p]) s')"

section \<open>Without an interruption\<close>

lemma prog_induct [case_names Returns Panics Turn, induct type: prog]:
  assumes "\<And>a. P (Returns a)" and "\<And>x. P (Panics x)" and "\<And>t. (\<And>s. P (fst (t s))) \<Longrightarrow> P (Turn t)"
  shows "P p"
proof (induction p rule: prog.induct)
  case (Turn t)
  have "P (fst (t s))" for s by (rule Turn [of "t s"]) (auto simp: prod_set_defs)
  then show ?case by (rule assms(3))
qed (rule assms)+

lemma runP_bind [simp]: "runP (bindP p f) = bindM (runP p) (\<lambda>a. runP (f a))"
proof (induction p)
  case (Turn t)
  show ?case
  proof
    fix s
    obtain q s' where t: "t s = (q, s')" by fastforce
    have "runP (bindP q f) = bindM (runP q) (\<lambda>a. runP (f a))" using Turn.IH [of s] t by simp
    then show "runP (bindP (Turn t) f) s = bindM (runP (Turn t)) (\<lambda>a. runP (f a)) s"
      by (simp add: t run_bindM)
  qed
qed (auto simp: fun_eq_iff run_bindM run_liftR)

lemma runP_atomic [simp]: "runP (atomic m) = m"
  by (auto simp: atomic_def fun_eq_iff run_ret run_liftR split: prod.splits res.splits)

lemma runP_for [simp]: "runP (forP xs f) = forM xs (\<lambda>x. runP (f x))"
  by (induction xs) simp_all

text \<open>A program takes finitely many turns, at the end of which it has done what \<open>runP\<close> does.\<close>

definition outcomeP :: "'a res \<Rightarrow> ('s, 'a) prog" where
  "outcomeP r = (case r of Val a \<Rightarrow> Returns a | Panic p \<Rightarrow> Panics p)"

lemma interleave_ended [simp]:
  "interleave (replicate n 0) [Returns a] s = ([Returns a], s)" "interleave (replicate n 0) [Panics x] s = ([Panics x], s)"
  by (induction n) simp_all

lemma alone:
  fixes p :: "('s, 'a) prog"
  shows "\<exists>n. interleave (replicate n 0) [p] s = (case runP p s of (r, s') \<Rightarrow> ([outcomeP r], s'))"
proof (induction p arbitrary: s)
  case (Turn t)
  obtain q s' where t: "t s = (q, s')" by fastforce
  obtain n where "interleave (replicate n 0) [q] s' = (case runP q s' of (r, s') \<Rightarrow> ([outcomeP r], s'))"
    using Turn.IH [of s s'] t by auto
  then have "interleave (replicate (Suc n) 0) [Turn t] s = (case runP (Turn t) s of (r, s') \<Rightarrow> ([outcomeP r], s'))"
    by (simp add: t)
  then show ?case by (rule exI)
qed (auto simp: outcomeP_def run_ret run_liftR intro!: exI [of _ 0])

text \<open>Programs that take their turns one after the other: a schedule that is sorted lets the first program end before
  the second takes a turn, and so on.\<close>

fun run_all :: "('s, 'a) prog list \<Rightarrow> 's \<Rightarrow> ('s, 'a) prog list \<times> 's" where
  "run_all [] s = ([], s)"
| "run_all (p # ps) s = (case runP p s of (r, s') \<Rightarrow> case run_all ps s' of (qs, s'') \<Rightarrow> (outcomeP r # qs, s''))"

lemma interleave_append:
  "interleave (xs @ ys) ps s = (case interleave xs ps s of (ps', s') \<Rightarrow> interleave ys ps' s')"
  by (induction xs arbitrary: ps s) (simp_all split: prod.splits)

lemma interleave_first:
  "interleave (replicate n 0) [p] s = ([q], s') \<Longrightarrow> interleave (replicate n 0) (p # ps) s = (q # ps, s')"
  by (induction n arbitrary: p s) (auto split: prod.splits)

lemma interleave_rest:
  "interleave (map Suc sched) (p # ps) s = (case interleave sched ps s of (ps', s') \<Rightarrow> (p # ps', s'))"
  by (induction sched arbitrary: ps s) (simp_all split: prod.splits)

lemma serial: "\<exists>sched. sorted sched \<and> set sched \<subseteq> {..<length ps} \<and> interleave sched ps s = run_all ps s"
proof (induction ps arbitrary: s)
  case (Cons p ps)
  obtain r s1 where r: "runP p s = (r, s1)" by fastforce
  then obtain n where n: "interleave (replicate n 0) [p] s = ([outcomeP r], s1)" using alone [of p s] by auto
  obtain sched where S: "sorted sched" "set sched \<subseteq> {..<length ps}" "interleave sched ps s1 = run_all ps s1"
    using Cons.IH by blast
  have "interleave (replicate n 0 @ map Suc sched) (p # ps) s = run_all (p # ps) s"
    using interleave_first [OF n] S(3) r by (simp add: interleave_append interleave_rest split: prod.splits)
  moreover have "sorted (replicate n 0 @ map Suc sched)" "set (replicate n 0 @ map Suc sched) \<subseteq> {..<length (p # ps)}"
    using S(1,2) by (auto simp: sorted_append sorted_map)
  ultimately show ?case by blast
qed (auto intro: exI [of _ "[]"])

lemma run_all_ended: "run_all ps s = (qs, s') \<Longrightarrow> q \<in> set qs \<Longrightarrow> (\<exists>a. q = Returns a) \<or> (\<exists>x. q = Panics x)"
  by (induction ps arbitrary: s qs) (auto simp: outcomeP_def split: prod.splits res.splits)

section \<open>Turns of several programs\<close>

text \<open>The state may grow between two turns of a program; \<open>safe E s p Q\<close> holds when from every later state that
  satisfies the invariant every turn of \<open>p\<close> keeps the invariant and grows the state, the panics of \<open>p\<close> are in \<open>E\<close>, and
  \<open>p\<close> returns values that satisfy \<open>Q\<close>.\<close>

locale shared =
  fixes inv :: "'s \<Rightarrow> bool" and grows :: "'s \<Rightarrow> 's \<Rightarrow> bool"
  assumes grows_refl: "grows s s" and grows_trans: "grows s s' \<Longrightarrow> grows s' s'' \<Longrightarrow> grows s s''"
begin

inductive safe :: "(go_panic \<Rightarrow> bool) \<Rightarrow> 's \<Rightarrow> ('s, 'a) prog \<Rightarrow> ('a \<Rightarrow> 's \<Rightarrow> bool) \<Rightarrow> bool" for E where
  safe_Returns: "Q a s \<Longrightarrow> safe E s (Returns a) Q"
| safe_Panics: "E x \<Longrightarrow> safe E s (Panics x) Q"
| safe_Turn: "(\<And>s'. grows s s' \<Longrightarrow> inv s' \<Longrightarrow>
    inv (snd (t s')) \<and> grows s' (snd (t s')) \<and> safe E (snd (t s')) (fst (t s')) Q) \<Longrightarrow> safe E s (Turn t) Q"

inductive_simps safe_simps: "safe E s (Returns a) Q" "safe E s (Panics x) Q" "safe E s (Turn t) Q"

lemma safe_bind:
  assumes "safe E s p Q" and "\<And>a s'. grows s s' \<Longrightarrow> Q a s' \<Longrightarrow> safe E s' (f a) R"
  shows "safe E s (bindP p f) R"
  using assms
proof (induction p arbitrary: s)
  case (Turn t)
  show ?case
  proof (simp only: bindP.simps safe_simps, intro allI impI)
    fix s' assume s': "grows s s'" "inv s'"
    then have t: "inv (snd (t s'))" "grows s' (snd (t s'))" "safe E (snd (t s')) (fst (t s')) Q"
      using Turn.prems(1) by (simp_all add: safe_simps)
    have "safe E (snd (t s')) (bindP (fst (t s')) f) R"
      using Turn.IH [OF t(3)] Turn.prems(2) grows_trans [OF s'(1) grows_trans [OF t(2)]] by blast
    with t show "inv (snd (map_prod (\<lambda>q. bindP q f) id (t s'))) \<and> grows s' (snd (map_prod (\<lambda>q. bindP q f) id (t s'))) \<and>
        safe E (snd (map_prod (\<lambda>q. bindP q f) id (t s'))) (fst (map_prod (\<lambda>q. bindP q f) id (t s'))) R"
      by simp
  qed
qed (auto simp: safe_simps grows_refl)

lemma safe_atomic:
  assumes "\<And>s'. grows s s' \<Longrightarrow> inv s' \<Longrightarrow> inv (snd (m s')) \<and> grows s' (snd (m s')) \<and>
    (case fst (m s') of Val a \<Rightarrow> Q a (snd (m s')) | Panic x \<Rightarrow> E x)"
  shows "safe E s (atomic m) Q"
  using assms by (fastforce simp: atomic_def safe_simps split: prod.splits res.splits)

lemma safe_grows:
  assumes "safe E s p Q" and "grows s s'" and "\<And>a s s'. Q a s \<Longrightarrow> grows s s' \<Longrightarrow> Q a s'"
  shows "safe E s' p Q"
  using assms by (cases p) (auto simp: safe_simps intro: grows_trans)

lemma safe_for:
  assumes "\<And>x s'. x \<in> set xs \<Longrightarrow> grows s s' \<Longrightarrow> safe E s' (f x) (\<lambda>_ _. True)"
  shows "safe E s (forP xs f) (\<lambda>_ _. True)"
  using assms
proof (induction xs arbitrary: s)
  case (Cons x xs)
  show ?case unfolding forP.simps
    by (rule safe_bind [OF Cons.prems]) (use Cons grows_refl grows_trans in \<open>auto\<close>)
qed (simp add: safe_simps)

lemma safe_turn:
  assumes "safe E s p Q" and "inv s" and "turn p s = (p', s')"
  shows "inv s' \<and> grows s s' \<and> safe E s' p' Q"
  using assms by (cases p) (auto simp: safe_simps grows_refl dest: spec [of _ s])

text \<open>Whatever the schedule, safe programs keep the invariant and stay safe.\<close>

lemma safe_interleave:
  assumes "interleave sched ps s = (ps', s')" and "inv s" and "\<And>i. i < length ps \<Longrightarrow> safe (E i) s (ps ! i) (\<lambda>_ _. True)"
    and "set sched \<subseteq> {..<length ps}"
  shows "inv s' \<and> length ps' = length ps \<and> (\<forall>i < length ps. safe (E i) s' (ps' ! i) (\<lambda>_ _. True))"
  using assms
proof (induction sched arbitrary: ps s)
  case (Cons i sched)
  obtain p s1 where t: "turn (ps ! i) s = (p, s1)" by fastforce
  have "safe (E i) s (ps ! i) (\<lambda>_ _. True)" using Cons.prems(3,4) by simp
  from safe_turn [OF this Cons.prems(2) t] have T: "inv s1" "grows s s1" "safe (E i) s1 p (\<lambda>_ _. True)" by auto
  have "safe (E j) s1 (ps[i := p] ! j) (\<lambda>_ _. True)" if "j < length ps" for j
    using T(3) safe_grows [OF Cons.prems(3) T(2)] that by (cases "j = i") simp_all
  then show ?case using Cons.IH [of "ps[i := p]" s1] Cons.prems(1,4) t T(1) by simp
qed simp

end

end
