(* ===== verification/Concurrent_Engine.thy ===== *)
theory Concurrent_Engine
  imports Resumptions Engine Engine_Refinement
begin

text \<open>
  Calls of the engine that run at the same time. A worker's result arrives on a goroutine of the
  gRPC server, requests on goroutines of the HTTP server, and every executor of a shard has one of its
  own, so several operations of \<open>src/shard/engine.go\<close> may work on one run at once. They share objects: the
  container of \<open>src/shard/flow.go\<close> hands out a pointer to the state machine of the run, and the machine
  has a pointer to its context, which \<open>Get\<close> replaces.

  Here every method of the engine is a program of theory \<open>Resumptions\<close> on a heap of the machines and the contexts
  of one run, with the pointers the source takes where it takes them. A turn is a call of the storage, the
  encoding of a context, or a method of the container or of the machine; the mutex of the container makes its
  methods exclude each other, the mutex of a machine does so for the methods that change it. What lies between two
  turns is not protected. Nothing keeps \<open>Get\<close> from replacing the context while another goroutine is inside a method of
  the machine; such an overlap is a data race, to which Go's memory model gives no meaning, and the model has
  the executions in which the two come one after the other.
\<close>

section \<open>The heap\<close>

record machine =
  mcContext :: nat
  mcFlow :: Flow

text \<open>The world, the objects that have been made for the run, and the address of the machine the
  container holds.\<close>

record 'w run_state =
  rsWorld :: 'w
  rsContexts :: "FlowContext list"
  rsMachines :: "machine list"
  rsCached :: "nat option"
  rsCollector :: "analytics_event list option"

definition machine_at :: "string \<Rightarrow> string \<Rightarrow> nat \<Rightarrow> 'w run_state \<Rightarrow> FlowStateMachine" where
  "machine_at wn fid p st =
     NewFlowStateMachine wn fid (rsContexts st ! mcContext (rsMachines st ! p)) (mcFlow (rsMachines st ! p))"

definition set_context :: "nat \<Rightarrow> FlowContext \<Rightarrow> 'w run_state \<Rightarrow> 'w run_state" where
  "set_context a ctx st = st\<lparr>rsContexts := (rsContexts st)[a := ctx]\<rparr>"

section \<open>Turns\<close>

definition onRun :: "('w \<Rightarrow> 'a \<times> 'w) \<Rightarrow> ('w run_state, 'a) M" where
  "onRun f = (\<lambda>st. case f (rsWorld st) of (a, w) \<Rightarrow> (Val a, st\<lparr>rsWorld := w\<rparr>))"

text \<open>The parts of an object, and its methods.\<close>

definition flow_of :: "nat \<Rightarrow> ('w run_state, Flow) M" where
  "flow_of p = (\<lambda>st. (Val (mcFlow (rsMachines st ! p)), st))"

definition context_of :: "nat \<Rightarrow> ('w run_state, nat) M" where
  "context_of p = (\<lambda>st. (Val (mcContext (rsMachines st ! p)), st))"

definition load :: "nat \<Rightarrow> ('w run_state, FlowContext) M" where
  "load a = (\<lambda>st. (Val (rsContexts st ! a), st))"

definition modify :: "nat \<Rightarrow> (FlowContext \<Rightarrow> FlowContext) \<Rightarrow> ('w run_state, unit) M" where
  "modify a f = (\<lambda>st. (Val (), set_context a (f (rsContexts st ! a)) st))"

definition inspect :: "string \<Rightarrow> string \<Rightarrow> nat \<Rightarrow> (FlowStateMachine \<Rightarrow> 'a) \<Rightarrow> ('w run_state, 'a) M" where
  "inspect wn fid p f = (\<lambda>st. (Val (f (machine_at wn fid p st)), st))"

definition update :: "string \<Rightarrow> string \<Rightarrow> nat \<Rightarrow> (FlowStateMachine \<Rightarrow> ('a \<times> FlowStateMachine) res) \<Rightarrow> ('w run_state, 'a) M" where
  "update wn fid p f = (\<lambda>st.
     case f (machine_at wn fid p st) of
       Panic x \<Rightarrow> (Panic x, st)
     | Val (a, sm) \<Rightarrow> (Val a, set_context (mcContext (rsMachines st ! p)) (smContext sm) st))"

definition record_in :: "analytics_event \<Rightarrow> ('w run_state, unit) M" where
  "record_in ev = (\<lambda>st. case rsCollector st of
     None \<Rightarrow> (Panic NilDeref, st)
   | Some evs \<Rightarrow> (Val (), st\<lparr>rsCollector := Some (evs @ [ev])\<rparr>))"

text \<open>The container. A new machine and the context it points to are new objects.\<close>

definition new_machine_in :: "FlowContext \<Rightarrow> Flow \<Rightarrow> ('w run_state, nat) M" where
  "new_machine_in ctx fl = (\<lambda>st. (Val (length (rsMachines st)),
     st\<lparr>rsContexts := rsContexts st @ [ctx],
        rsMachines := rsMachines st @ [\<lparr>mcContext = length (rsContexts st), mcFlow = fl\<rparr>],
        rsCached := Some (length (rsMachines st))\<rparr>))"

definition get_flow_in :: "'w FlowEngine \<Rightarrow> string \<Rightarrow> string \<Rightarrow> ('w run_state, error + Flow) M" where
  "get_flow_in F wn fid = (\<lambda>st.
     case GetFlow (engRuntime F) (engMetadata F) wn fid (rsWorld st) of (r, w) \<Rightarrow> (r, st\<lparr>rsWorld := w\<rparr>))"

definition heap_Init :: "'w FlowEngine \<Rightarrow> string \<Rightarrow> string \<Rightarrow> anymap option \<Rightarrow> ('w run_state, error + nat) M" where
  "heap_Init F wn fid input =
     bindM (get_flow_in F wn fid) (\<lambda>r. case r of
       Inl e \<Rightarrow> ret (Inl e)
     | Inr fl \<Rightarrow> bindM (new_machine_in (initial_context fid (RootAction fl) input) fl) (\<lambda>p. ret (Inr p)))"

definition heap_Get :: "'w FlowEngine \<Rightarrow> string \<Rightarrow> string \<Rightarrow> ('w run_state, error + nat) M" where
  "heap_Get F wn fid =
     bindM (onRun (st_GetFlowContext (engStorage F) wn fid)) (\<lambda>r. case r of
       Inl _ \<Rightarrow> ret (Inl FlowAlreadyCompleted)
     | Inr flowCtx \<Rightarrow> (\<lambda>st. case rsCached st of
         None \<Rightarrow>
           bindM (get_flow_in F wn fid) (\<lambda>g. case g of
             Inl e \<Rightarrow> ret (Inl e)
           | Inr fl \<Rightarrow> bindM (new_machine_in flowCtx fl) (\<lambda>p. ret (Inr p))) st
       | Some p \<Rightarrow> (Val (Inr p),
           st\<lparr>rsContexts := rsContexts st @ [flowCtx],
              rsMachines := (rsMachines st)[p := (rsMachines st ! p)\<lparr>mcContext := length (rsContexts st)\<rparr>]\<rparr>)))"

definition heap_Delete :: "('w run_state, unit) M" where
  "heap_Delete = (\<lambda>st. (Val (), st\<lparr>rsCached := None\<rparr>))"

section \<open>The methods of the engine\<close>

text \<open>Calls of the storage with the context of a machine: the pointer is an argument of the call, the context is
  encoded, and the command is sent.\<close>

definition save_of :: "'w FlowEngine \<Rightarrow> string \<Rightarrow> string \<Rightarrow> nat \<Rightarrow> ('w run_state, error option) prog" where
  "save_of F wn fid a =
     bindP (atomic (load a)) (\<lambda>ctx. atomic (onRun (st_SaveFlowContext (engStorage F) wn fid ctx)))"

definition par_saveContextAndDispatchAction ::
  "'w FlowEngine \<Rightarrow> string \<Rightarrow> string \<Rightarrow> int list \<Rightarrow> Flow \<Rightarrow> nat \<Rightarrow> ('w run_state, error option) prog" where
  "par_saveContextAndDispatchAction F wn fid actionIds fl a =
     bindP (atomic (liftR (build_requests fl actionIds))) (\<lambda>actions.
     bindP (atomic (load a)) (\<lambda>flowCtx.
     atomic (onRun (st_SaveFlowContextAndDispatchAction (engStorage F) wn fid flowCtx actions))))"

definition par_changeStateWithEvent ::
  "'w FlowEngine \<Rightarrow> string \<Rightarrow> string \<Rightarrow> FlowState \<Rightarrow> string \<Rightarrow> ('w run_state, unit) prog" where
  "par_changeStateWithEvent F wn fid state event =
     bindP (atomic (heap_Get F wn fid)) (\<lambda>r. case r of
       Inl _ \<Rightarrow> Returns ()
     | Inr p \<Rightarrow>
         bindP (atomic (update wn fid p (\<lambda>sm. Val ((), ChangeState state sm)))) (\<lambda>_.
         bindP (if length event \<noteq> 0 then atomic (update wn fid p (\<lambda>sm. Val ((), SaveEvent event sm))) else Returns ()) (\<lambda>_.
         bindP (atomic (flow_of p)) (\<lambda>fl.
         bindP (atomic (context_of p)) (\<lambda>a.
         bindP (save_of F wn fid a) (\<lambda>_.
         bindP (if state \<noteq> RUNNING then atomic heap_Delete else Returns ()) (\<lambda>_.
         if state = FAILED then
           bindP (atomic (onRun (run_handler (engStorage F) (FailureHandler fl) wn fid))) (\<lambda>_. Returns ())
         else if state = COMPLETED then
           bindP (atomic (onRun (run_handler (engStorage F) (SuccessHandler fl) wn fid))) (\<lambda>_. Returns ())
         else Returns ())))))))"

definition par_changeState :: "'w FlowEngine \<Rightarrow> string \<Rightarrow> string \<Rightarrow> FlowState \<Rightarrow> ('w run_state, unit) prog" where
  "par_changeState F wn fid state = par_changeStateWithEvent F wn fid state ''''"

definition par_Init :: "'w FlowEngine \<Rightarrow> string \<Rightarrow> string \<Rightarrow> anymap option \<Rightarrow> ('w run_state, error option) prog" where
  "par_Init F wn fid input =
     bindP (atomic (heap_Init F wn fid input)) (\<lambda>r. case r of
       Inl e \<Rightarrow> Returns (Some e)
     | Inr p \<Rightarrow>
         bindP (atomic (flow_of p)) (\<lambda>fl.
         bindP (atomic (context_of p)) (\<lambda>a.
         bindP (par_saveContextAndDispatchAction F wn fid [RootAction fl] fl a) (\<lambda>_. Returns None))))"

text \<open>The machine of a run, unless the action must not be handled any more: the beginning of most methods.\<close>

definition with_machine ::
  "'w FlowEngine \<Rightarrow> string \<Rightarrow> string \<Rightarrow> int \<Rightarrow> (nat \<Rightarrow> ('w run_state, unit) prog) \<Rightarrow> ('w run_state, unit) prog" where
  "with_machine F wn fid actionId body =
     bindP (atomic (heap_Get F wn fid)) (\<lambda>r. case r of
       Inl _ \<Rightarrow> Returns ()
     | Inr p \<Rightarrow>
         bindP (atomic (inspect wn fid p (\<lambda>sm. ValidateAction sm actionId))) (\<lambda>err. case err of
           Some _ \<Rightarrow> Returns ()
         | None \<Rightarrow> body p))"

definition par_execute ::
  "'w FlowEngine \<Rightarrow> string \<Rightarrow> string \<Rightarrow> int \<Rightarrow> string \<Rightarrow> anymap option \<Rightarrow> bool \<Rightarrow> ('w run_state, unit) prog" where
  "par_execute F wn fid actionId event dataMap resume =
     with_machine F wn fid actionId (\<lambda>p.
       bindP (if resume then Returns False else atomic (inspect wn fid p (\<lambda>sm. GetState sm = PAUSED))) (\<lambda>paused.
       if paused then Returns ()
       else
         bindP (atomic (update wn fid p (\<lambda>sm. MoveForward (engRuntime F) sm actionId event dataMap)))
           (\<lambda>(completed, actionIdsToDispatch).
         if completed then
           bindP (atomic (context_of p)) (\<lambda>a.
           bindP (save_of F wn fid a) (\<lambda>_.
           par_changeState F wn fid COMPLETED))
         else
           bindP (atomic (update wn fid p (\<lambda>sm. Val ((), ChangeState RUNNING sm)))) (\<lambda>_.
           bindP (atomic (flow_of p)) (\<lambda>fl.
           bindP (atomic (context_of p)) (\<lambda>a.
           bindP (par_saveContextAndDispatchAction F wn fid actionIdsToDispatch fl a) (\<lambda>_. Returns ())))))))"

definition par_DelayAction ::
  "'w FlowEngine \<Rightarrow> string \<Rightarrow> string \<Rightarrow> string \<Rightarrow> int \<Rightarrow> int \<Rightarrow> ('w run_state, unit) prog" where
  "par_DelayAction F wn fid actionName actionId delay =
     with_machine F wn fid actionId (\<lambda>p.
       bindP (atomic (onRun (st_Delay (engStorage F) wn fid actionName actionId delay))) (\<lambda>_. Returns ()))"

definition par_run_system_action ::
  "'w FlowEngine \<Rightarrow> string \<Rightarrow> string \<Rightarrow> int \<Rightarrow> Action \<Rightarrow> string \<Rightarrow> anymap option \<Rightarrow> ('w run_state, unit) prog" where
  "par_run_system_action F wn fid actionId currentAction event dataMap =
     (if GetName currentAction = ''delay'' then
        bindP (par_changeState F wn fid WAITING_DELAY) (\<lambda>_.
        bindP (atomic (liftR (as_duration (fmlookup (GetParams currentAction) ''delay'')))) (\<lambda>delay.
        par_DelayAction F wn fid (GetName currentAction) (GetId currentAction) delay))
      else if GetName currentAction = ''wait'' then
        bindP (atomic (liftR (as_duration (fmlookup (GetParams currentAction) ''timeout'')))) (\<lambda>timeout.
        bindP (atomic (liftR (as_string (fmlookup (GetParams currentAction) ''event'')))) (\<lambda>ev.
        bindP (if timeout \<noteq> 0
               then par_DelayAction F wn fid (GetName currentAction) (GetId currentAction) timeout
               else Returns ()) (\<lambda>_.
        par_changeStateWithEvent F wn fid WAITING_EVENT ev)))
      else par_execute F wn fid actionId event dataMap False)"

definition par_ExecuteSystemAction :: "'w FlowEngine \<Rightarrow> string \<Rightarrow> string \<Rightarrow> int \<Rightarrow> ('w run_state, unit) prog" where
  "par_ExecuteSystemAction F wn fid actionId =
     with_machine F wn fid actionId (\<lambda>p.
       bindP (atomic (flow_of p)) (\<lambda>fl.
       bindP (atomic (context_of p)) (\<lambda>a.
       case fmlookup (flowActions fl) actionId of
         None \<Rightarrow> Panics NilDeref
       | Some currentAction \<Rightarrow>
           bindP (atomic (load a)) (\<lambda>flowCtx.
           bindP (atomic (liftR (Execute (engExternals F) currentAction flowCtx))) (\<lambda>res. case res of
             Inl _ \<Rightarrow>
               bindP (atomic (record_in (ActionFailure wn fid (GetName currentAction) actionId ''action failed'')))
                 (\<lambda>_. par_changeState F wn fid FAILED)
           | Inr (event, dataMap) \<Rightarrow>
               if GetType currentAction = SYSTEM then
                 bindP (par_run_system_action F wn fid actionId currentAction event dataMap) (\<lambda>_.
                 atomic (record_in (ActionSuccess wn fid (GetName currentAction) actionId dataMap)))
               else Returns ())))))"

definition par_with_definition ::
  "'w FlowEngine \<Rightarrow> string \<Rightarrow> string \<Rightarrow> int \<Rightarrow> (FlowContext \<Rightarrow> ActionDefinition \<Rightarrow> ('w run_state, unit) prog) \<Rightarrow>
   ('w run_state, unit) prog" where
  "par_with_definition F wn fid actionId body =
     with_machine F wn fid actionId (\<lambda>p.
       bindP (atomic (flow_of p)) (\<lambda>fl.
       bindP (atomic (context_of p)) (\<lambda>a.
       case fmlookup (flowActions fl) actionId of
         None \<Rightarrow> Panics NilDeref
       | Some act \<Rightarrow>
           bindP (atomic (onRun (ms_GetActionDefinition (engMetadata F) (GetName act)))) (\<lambda>d. case d of
             Inl _ \<Rightarrow> Returns ()
           | Inr def \<Rightarrow> bindP (atomic (load a)) (\<lambda>flowCtx. body flowCtx def)))))"

definition par_RetryFailedAction ::
  "'w FlowEngine \<Rightarrow> string \<Rightarrow> string \<Rightarrow> string \<Rightarrow> int \<Rightarrow> ('w run_state, unit) prog" where
  "par_RetryFailedAction F wn fid actionName actionId =
     par_with_definition F wn fid actionId (\<lambda>flowCtx def.
       let tryCount = try_count flowCtx actionId in
       if tryCount < RetryCount def then
         bindP (atomic (onRun (st_Retry (engStorage F) wn fid actionName actionId (retry_delay def tryCount)))) (\<lambda>_. Returns ())
       else par_changeState F wn fid FAILED)"

definition par_RetryTimedoutAction ::
  "'w FlowEngine \<Rightarrow> string \<Rightarrow> string \<Rightarrow> string \<Rightarrow> int \<Rightarrow> ('w run_state, unit) prog" where
  "par_RetryTimedoutAction F wn fid actionName actionId =
     par_with_definition F wn fid actionId (\<lambda>flowCtx def.
       if try_count flowCtx actionId < RetryCount def then
         bindP (atomic (onRun (st_Retry (engStorage F) wn fid actionName actionId (seconds 1)))) (\<lambda>_. Returns ())
       else
         bindP (atomic (record_in (ActionFailure wn fid actionName actionId ''action timedout''))) (\<lambda>_.
         par_changeState F wn fid FAILED))"

definition par_ExecuteRetry :: "'w FlowEngine \<Rightarrow> string \<Rightarrow> string \<Rightarrow> int \<Rightarrow> ('w run_state, unit) prog" where
  "par_ExecuteRetry F wn fid actionId =
     with_machine F wn fid actionId (\<lambda>p.
       bindP (atomic (flow_of p)) (\<lambda>fl.
       bindP (atomic (context_of p)) (\<lambda>a.
       bindP (atomic (modify a (bump_try actionId))) (\<lambda>_.
       bindP (par_saveContextAndDispatchAction F wn fid [actionId] fl a) (\<lambda>_. Returns ())))))"

definition par_ExecuteResume :: "'w FlowEngine \<Rightarrow> string \<Rightarrow> string \<Rightarrow> string \<Rightarrow> ('w run_state, unit) prog" where
  "par_ExecuteResume F wn fid event =
     bindP (atomic (heap_Get F wn fid)) (\<lambda>r. case r of
       Inl _ \<Rightarrow> Returns ()
     | Inr p \<Rightarrow>
         bindP (atomic (context_of p)) (\<lambda>a.
         bindP (atomic (load a)) (\<lambda>flowCtx.
         if State flowCtx = COMPLETED \<or> State flowCtx = FAILED then Returns ()
         else bindP (atomic (load a)) (\<lambda>flowCtx.
           forP (range_keys (ordI (engRuntime F)) (CurrentActionIds flowCtx))
             (\<lambda>k. par_execute F wn fid k event None True)))))"

definition par_ExecuteResumeAfterWait ::
  "'w FlowEngine \<Rightarrow> string \<Rightarrow> string \<Rightarrow> string \<Rightarrow> ('w run_state, error option) prog" where
  "par_ExecuteResumeAfterWait F wn fid event =
     bindP (atomic (heap_Get F wn fid)) (\<lambda>r. case r of
       Inl e \<Rightarrow> Returns (Some e)
     | Inr p \<Rightarrow>
         bindP (atomic (context_of p)) (\<lambda>a.
         bindP (atomic (load a)) (\<lambda>flowCtx.
         if Event flowCtx \<noteq> event then Returns (Some (EventMismatch event (Event flowCtx)))
         else bindP (atomic (load a)) (\<lambda>flowCtx.
           if State flowCtx = COMPLETED \<or> State flowCtx = FAILED then Returns (Some FlowAlreadyCompleted)
           else bindP (atomic (load a)) (\<lambda>flowCtx.
             bindP (forP (range_keys (ordI (engRuntime F)) (CurrentActionIds flowCtx))
               (\<lambda>k. par_execute F wn fid k event None False)) (\<lambda>_. Returns None))))))"

fun par_op :: "'w FlowEngine \<Rightarrow> string \<Rightarrow> string \<Rightarrow> engine_op \<Rightarrow> ('w run_state, unit) prog" where
  "par_op F wn fid (OpInit input) = bindP (par_Init F wn fid input) (\<lambda>_. Returns ())"
| "par_op F wn fid (OpExecute event a data) = par_execute F wn fid a event data False"
| "par_op F wn fid (OpSystem a) = par_ExecuteSystemAction F wn fid a"
| "par_op F wn fid (OpRetryFailed name a) = par_RetryFailedAction F wn fid name a"
| "par_op F wn fid (OpRetryTimedout name a) = par_RetryTimedoutAction F wn fid name a"
| "par_op F wn fid (OpDelay a) = par_execute F wn fid a ''default'' None False"
| "par_op F wn fid (OpRetry a) = par_ExecuteRetry F wn fid a"
| "par_op F wn fid (OpResume event) = par_ExecuteResume F wn fid event"
| "par_op F wn fid (OpConsume event) = bindP (par_ExecuteResumeAfterWait F wn fid event) (\<lambda>_. Returns ())"
| "par_op F wn fid OpPause = par_changeState F wn fid PAUSED"

text \<open>The actions that a caller names, and the operations that run actions of the system.\<close>

fun about :: "engine_op \<Rightarrow> int set" where
  "about (OpExecute event a d) = {a}"
| "about (OpSystem a) = {a}"
| "about (OpRetryFailed name a) = {a}"
| "about (OpRetryTimedout name a) = {a}"
| "about (OpDelay a) = {a}"
| "about (OpRetry a) = {a}"
| "about _ = {}"

fun is_system :: "engine_op \<Rightarrow> bool" where
  "is_system (OpSystem a) \<longleftrightarrow> True"
| "is_system _ \<longleftrightarrow> False"

end
