(* ===== verification/Concurrent_Alone.thy ===== *)
theory Concurrent_Alone
  imports Concurrent_Engine Runs
begin

text \<open>
  An operation of theory \<open>Concurrent_Engine\<close> that is not interrupted is the operation of theory \<open>Engine\<close>, for
  every storage: it returns or panics alike and leaves the same world, collector and cached machine.
  The proof relates the two by \<open>corr\<close>, statement by statement, with the objects on the heap on one side
  and values on the other.
\<close>

section \<open>Related states\<close>

definition same_run :: "string \<Rightarrow> string \<Rightarrow> 'w run_state \<Rightarrow> 'w shard_state \<Rightarrow> bool" where
  "same_run wn fid st s \<longleftrightarrow> rsWorld st = world s \<and> rsCollector st = collector s \<and>
     (case rsCached st of
        None \<Rightarrow> fmlookup (stateMachines s) (machine_key wn fid) = None
      | Some p \<Rightarrow> p < length (rsMachines st) \<and> mcContext (rsMachines st ! p) < length (rsContexts st) \<and>
          fmlookup (stateMachines s) (machine_key wn fid) = Some (machine_at wn fid p st))"

text \<open>The machine at \<open>p\<close> is cached, its context is at \<open>a\<close>, and its value is \<open>sm\<close>.\<close>

definition held :: "string \<Rightarrow> string \<Rightarrow> nat \<Rightarrow> nat \<Rightarrow> FlowStateMachine \<Rightarrow> 'w run_state \<Rightarrow> 'w shard_state \<Rightarrow> bool" where
  "held wn fid p a sm st s \<longleftrightarrow> same_run wn fid st s \<and> rsCached st = Some p \<and> mcContext (rsMachines st ! p) = a \<and>
     machine_at wn fid p st = sm"

text \<open>Two outcomes that agree, and statements that lead to such outcomes.\<close>

fun agree :: "('x \<Rightarrow> 'y \<Rightarrow> bool) \<Rightarrow> ('a \<Rightarrow> 'b \<Rightarrow> 'x \<Rightarrow> 'y \<Rightarrow> bool) \<Rightarrow> 'a res \<times> 'x \<Rightarrow> 'b res \<times> 'y \<Rightarrow> bool" where
  "agree E T (Val a, x) (Val b, y) \<longleftrightarrow> T a b x y"
| "agree E T (Panic p, x) (Panic q, y) \<longleftrightarrow> p = q \<and> E x y"
| "agree E T _ _ \<longleftrightarrow> False"

definition corr ::
  "('x \<Rightarrow> 'y \<Rightarrow> bool) \<Rightarrow> ('x \<Rightarrow> 'y \<Rightarrow> bool) \<Rightarrow> ('x, 'a) M \<Rightarrow> ('y, 'b) M \<Rightarrow> ('a \<Rightarrow> 'b \<Rightarrow> 'x \<Rightarrow> 'y \<Rightarrow> bool) \<Rightarrow> bool" where
  "corr E R m n T \<longleftrightarrow> (\<forall>x y. R x y \<longrightarrow> agree E T (m x) (n y))"

section \<open>Rules\<close>

lemma agree_mono: "agree E T' u v \<Longrightarrow> (\<And>a b x y. T' a b x y \<Longrightarrow> T a b x y) \<Longrightarrow> agree E T u v"
  by (induction E T' u v rule: agree.induct) auto

lemma corr_bind:
  assumes "corr E R m n S" and "\<And>a b. corr E (S a b) (f a) (g b) T"
  shows "corr E R (bindM m f) (bindM n g) T"
proof -
  have "agree E T (bindM m f x) (bindM n g y)" if "R x y" for x y
  proof -
    have "agree E S (m x) (n y)" using assms(1) that by (simp add: corr_def)
    then show ?thesis
      using assms(2) by (cases "m x"; cases "n y"; cases "fst (m x)"; cases "fst (n y)") (auto simp: run_bindM corr_def)
  qed
  then show ?thesis by (simp add: corr_def)
qed

lemma corr_ret: "(\<And>x y. R x y \<Longrightarrow> T a b x y) \<Longrightarrow> corr E R (ret a) (ret b) T"
  by (simp add: corr_def run_ret)

lemma corr_weaken: "corr E R' m n T \<Longrightarrow> (\<And>x y. R x y \<Longrightarrow> R' x y) \<Longrightarrow> corr E R m n T"
  by (auto simp: corr_def)

lemma corr_conseq: "corr E R m n T' \<Longrightarrow> (\<And>a b x y. T' a b x y \<Longrightarrow> T a b x y) \<Longrightarrow> corr E R m n T"
  unfolding corr_def using agree_mono [of E T' _ _ T] by blast

lemma corr_ex: "(\<And>z. corr E (R z) m n T) \<Longrightarrow> corr E (\<lambda>x y. \<exists>z. R z x y) m n T"
  by (auto simp: corr_def)

lemma corr_False: "corr E (\<lambda>x y. False) m n T"
  by (simp add: corr_def)

text \<open>A statement that only reads, on the left or on both sides.\<close>

lemma corr_read:
  assumes "\<And>x y. R x y \<Longrightarrow> m x = (Val a, x)" and "corr E R (f a) n T"
  shows "corr E R (bindM m f) n T"
  using assms by (simp add: corr_def run_bindM)

lemma corr_liftR:
  assumes "\<And>x y. R x y \<Longrightarrow> E x y" and "\<And>a. r = Val a \<Longrightarrow> corr E R (f a) (g a) T"
  shows "corr E R (bindM (liftR r) f) (bindM (liftR r) g) T"
  using assms by (cases r) (simp_all add: corr_def run_bindM run_liftR)

lemma corr_panic: "(\<And>x y. R x y \<Longrightarrow> E x y) \<Longrightarrow> corr E R (liftR (Panic p)) (liftR (Panic p)) T"
  by (simp add: corr_def run_liftR)

lemma corr_for:
  assumes "\<And>k. corr E R (f k) (g k) (\<lambda>_ _. R)"
  shows "corr E R (forM ks f) (forM ks g) (\<lambda>_ _. R)"
  by (induction ks) (auto intro: corr_ret corr_bind assms)

section \<open>The heap and the shard\<close>

lemma held_same: "held wn fid p a sm st s \<Longrightarrow> same_run wn fid st s"
  by (simp add: held_def)

lemma same_run_world: "same_run wn fid st s \<Longrightarrow> same_run wn fid (st\<lparr>rsWorld := w\<rparr>) (s\<lparr>world := w\<rparr>)"
  by (simp add: same_run_def machine_at_def split: option.splits)

lemma held_world: "held wn fid p a sm st s \<Longrightarrow> held wn fid p a sm (st\<lparr>rsWorld := w\<rparr>) (s\<lparr>world := w\<rparr>)"
  by (auto simp: held_def same_run_world) (simp add: machine_at_def)

lemma corr_onRun:
  assumes "\<And>st s w. R st s \<Longrightarrow> R (st\<lparr>rsWorld := w\<rparr>) (s\<lparr>world := w\<rparr>)" and "\<And>st s. R st s \<Longrightarrow> rsWorld st = world s"
  shows "corr E R (onRun f) (onWorld f) (\<lambda>a b st s. a = b \<and> R st s)"
  using assms by (auto simp: corr_def onRun_def onWorld_def split: prod.splits)

lemma held_reads:
  assumes "held wn fid p a sm st s"
  shows "flow_of p st = (Val (smFlow sm), st)" "context_of p st = (Val a, st)" "load a st = (Val (smContext sm), st)"
    "inspect wn fid p g st = (Val (g sm), st)"
  using assms by (auto simp: held_def machine_at_def NewFlowStateMachine_def flow_of_def context_of_def load_def inspect_def)

lemmas corr_reads = corr_read [OF held_reads(1)] corr_read [OF held_reads(2)] corr_read [OF held_reads(3)]

lemma corr_inspect:
  "corr E (held wn fid p a sm) (f (g sm)) n T \<Longrightarrow> corr E (held wn fid p a sm) (bindM (inspect wn fid p g) f) n T"
  by (rule corr_read [where a = "g sm"]) (simp_all add: held_reads)

text \<open>A new value for the context of the machine that is held.\<close>

lemma held_update:
  assumes "held wn fid p a sm st s"
  shows "held wn fid p a (sm\<lparr>smContext := c\<rparr>) (set_context a c st)
    (s\<lparr>stateMachines := fmupd (machine_key wn fid) (sm\<lparr>smContext := c\<rparr>) (stateMachines s)\<rparr>)"
  using assms by (auto simp: held_def same_run_def machine_at_def NewFlowStateMachine_def set_context_def)

lemma corr_store:
  assumes "\<And>st s. held wn fid p a sm st s \<Longrightarrow> m st = (Val x, set_context a c st)"
    and "corr E (held wn fid p a (sm\<lparr>smContext := c\<rparr>)) (f x) n T"
  shows "corr E (held wn fid p a sm) (bindM m f) (bindM (container_Store wn fid (sm\<lparr>smContext := c\<rparr>)) (\<lambda>_. n)) T"
proof -
  have "agree E T (bindM m f st) (bindM (container_Store wn fid (sm\<lparr>smContext := c\<rparr>)) (\<lambda>_. n) s)"
    if h: "held wn fid p a sm st s" for st s
    using assms(1) [OF h] assms(2) held_update [OF h, of c] by (simp add: corr_def run_bindM container_Store_def)
  then show ?thesis by (simp add: corr_def)
qed

lemma corr_update:
  assumes "g sm = Val (x, sm\<lparr>smContext := c\<rparr>)"
    and "corr E (held wn fid p a (sm\<lparr>smContext := c\<rparr>)) (f x) n T"
  shows "corr E (held wn fid p a sm) (bindM (update wn fid p g) f)
    (bindM (container_Store wn fid (sm\<lparr>smContext := c\<rparr>)) (\<lambda>_. n)) T"
  by (rule corr_store [where x = x and f = f]) (use assms in \<open>auto simp: update_def held_def\<close>)

lemma corr_modify:
  assumes "corr E (held wn fid p a (sm\<lparr>smContext := f (smContext sm)\<rparr>)) (k ()) n T"
  shows "corr E (held wn fid p a sm) (bindM (modify a f) k)
    (bindM (container_Store wn fid (sm\<lparr>smContext := f (smContext sm)\<rparr>)) (\<lambda>_. n)) T"
  by (rule corr_store [where x = "()" and f = k])
    (use assms in \<open>auto simp: modify_def held_def machine_at_def NewFlowStateMachine_def\<close>)

lemma corr_record: "corr (same_run wn fid) (same_run wn fid) (record_in ev) (record_event ev) (\<lambda>_ _. same_run wn fid)"
  by (auto simp: corr_def record_in_def record_event_def same_run_def machine_at_def split: option.splits)

lemma corr_new_machine:
  "corr E (same_run wn fid) (new_machine_in ctx fl) (container_Store wn fid (NewFlowStateMachine wn fid ctx fl))
     (\<lambda>p _ st s. \<exists>a. held wn fid p a (NewFlowStateMachine wn fid ctx fl) st s)"
  by (auto simp: corr_def new_machine_in_def container_Store_def held_def same_run_def machine_at_def)

lemma corr_get_flow:
  "corr (same_run wn fid) (same_run wn fid) (get_flow_in F wn fid) (onWorldR (GetFlow (engRuntime F) (engMetadata F) wn fid))
     (\<lambda>a b st s. a = b \<and> same_run wn fid st s)"
proof -
  have "agree (same_run wn fid) (\<lambda>a b st s. a = b \<and> same_run wn fid st s) (get_flow_in F wn fid st)
      (onWorldR (GetFlow (engRuntime F) (engMetadata F) wn fid) s)" if s: "same_run wn fid st s" for st s
  proof -
    obtain r w where g: "GetFlow (engRuntime F) (engMetadata F) wn fid (world s) = (r, w)" by fastforce
    have "rsWorld st = world s" using s by (simp add: same_run_def)
    then show ?thesis using g same_run_world [OF s, of w] by (cases r) (simp_all add: get_flow_in_def onWorldR_def)
  qed
  then show ?thesis by (simp add: corr_def)
qed

lemma held_Get:
  assumes "same_run wn fid st s" and "rsCached st = Some p" and "fmlookup (stateMachines s) (machine_key wn fid) = Some sm"
  shows "held wn fid p (length (rsContexts st)) (sm\<lparr>smContext := c\<rparr>)
    (st\<lparr>rsContexts := rsContexts st @ [c],
        rsMachines := (rsMachines st)[p := (rsMachines st ! p)\<lparr>mcContext := length (rsContexts st)\<rparr>]\<rparr>)
    (s\<lparr>stateMachines := fmupd (machine_key wn fid) (sm\<lparr>smContext := c\<rparr>) (stateMachines s)\<rparr>)"
  using assms by (auto simp: held_def same_run_def machine_at_def NewFlowStateMachine_def)

text \<open>The result of \<open>Get\<close>, and of \<open>Init\<close>: the same error, or a machine that is held.\<close>

fun same_machine :: "string \<Rightarrow> string \<Rightarrow> error + nat \<Rightarrow> error + FlowStateMachine \<Rightarrow> 'w run_state \<Rightarrow> 'w shard_state \<Rightarrow> bool" where
  "same_machine wn fid (Inl e) (Inl e') st s \<longleftrightarrow> e = e' \<and> same_run wn fid st s"
| "same_machine wn fid (Inr p) (Inr sm) st s \<longleftrightarrow> (\<exists>a. held wn fid p a sm st s)"
| "same_machine wn fid _ _ st s \<longleftrightarrow> False"

lemma corr_make:
  "corr (same_run wn fid) (same_run wn fid)
     (bindM (get_flow_in F wn fid) (\<lambda>g. case g of Inl e \<Rightarrow> ret (Inl e)
      | Inr fl \<Rightarrow> bindM (new_machine_in (c fl) fl) (\<lambda>p. ret (Inr p))))
     (bindM (onWorldR (GetFlow (engRuntime F) (engMetadata F) wn fid)) (\<lambda>g. case g of Inl e \<Rightarrow> ret (Inl e)
      | Inr fl \<Rightarrow> let sm = NewFlowStateMachine wn fid (c fl) fl in bindM (container_Store wn fid sm) (\<lambda>_. ret (Inr sm))))
     (same_machine wn fid)"
proof (rule corr_bind [OF corr_get_flow])
  fix a b
  show "corr (same_run wn fid) (\<lambda>st s. a = b \<and> same_run wn fid st s)
     (case a of Inl e \<Rightarrow> ret (Inl e) | Inr fl \<Rightarrow> bindM (new_machine_in (c fl) fl) (\<lambda>p. ret (Inr p)))
     (case b of Inl e \<Rightarrow> ret (Inl e)
      | Inr fl \<Rightarrow> let sm = NewFlowStateMachine wn fid (c fl) fl in bindM (container_Store wn fid sm) (\<lambda>_. ret (Inr sm)))
     (same_machine wn fid)"
  proof (cases "a = b")
    case True
    show ?thesis
    proof (cases b)
      case (Inr fl)
      have "corr (same_run wn fid) (same_run wn fid) (bindM (new_machine_in (c fl) fl) (\<lambda>p. ret (Inr p)))
          (bindM (container_Store wn fid (NewFlowStateMachine wn fid (c fl) fl)) (\<lambda>_. ret (Inr (NewFlowStateMachine wn fid (c fl) fl))))
          (same_machine wn fid)"
        by (rule corr_bind [OF corr_new_machine]) (rule corr_ret, simp)
      then show ?thesis using True Inr by (simp add: Let_def)
    qed (use True in \<open>simp add: corr_ret\<close>)
  qed (simp add: corr_False)
qed

lemma corr_Init_machine:
  "corr (same_run wn fid) (same_run wn fid) (heap_Init F wn fid input) (container_Init F wn fid input) (same_machine wn fid)"
  unfolding heap_Init_def container_Init_def by (rule corr_make)

lemma corr_Get: "corr (same_run wn fid) (same_run wn fid) (heap_Get F wn fid) (container_Get F wn fid) (same_machine wn fid)"
proof -
  have "agree (same_run wn fid) (same_machine wn fid) (heap_Get F wn fid st) (container_Get F wn fid s)"
    if s: "same_run wn fid st s" for st s
  proof -
    obtain r w where g: "st_GetFlowContext (engStorage F) wn fid (world s) = (r, w)" by fastforce
    have w: "rsWorld st = world s" using s by (simp add: same_run_def)
    note s' = same_run_world [OF s, of w]
    show ?thesis
    proof (cases r)
      case (Inl e)
      then show ?thesis using g w s' by (simp add: heap_Get_def container_Get_def run_simps onRun_def)
    next
      case c: (Inr c)
      show ?thesis
      proof (cases "rsCached st")
        case None
        then have "fmlookup (stateMachines s) (machine_key wn fid) = None" using s by (simp add: same_run_def)
        moreover have "agree (same_run wn fid) (same_machine wn fid)
            (bindM (get_flow_in F wn fid) (\<lambda>g. case g of Inl e \<Rightarrow> ret (Inl e)
              | Inr fl \<Rightarrow> bindM (new_machine_in c fl) (\<lambda>p. ret (Inr p))) (st\<lparr>rsWorld := w\<rparr>))
            (bindM (onWorldR (GetFlow (engRuntime F) (engMetadata F) wn fid)) (\<lambda>g. case g of Inl e \<Rightarrow> ret (Inl e)
              | Inr fl \<Rightarrow> let sm = NewFlowStateMachine wn fid c fl in bindM (container_Store wn fid sm) (\<lambda>_. ret (Inr sm)))
              (s\<lparr>world := w\<rparr>))"
          using corr_make [of wn fid F "\<lambda>_. c"] s' unfolding corr_def by blast
        ultimately show ?thesis using g w c None
          by (simp add: heap_Get_def container_Get_def run_bindM run_ret container_lookup_def onWorld_def onRun_def)
      next
        case (Some p)
        then obtain sm where sm: "fmlookup (stateMachines s) (machine_key wn fid) = Some sm" using s by (simp add: same_run_def)
        from held_Get [OF s', of p sm c] Some sm show ?thesis
          using g w c by (auto simp: heap_Get_def container_Get_def run_simps onRun_def Let_def)
      qed
    qed
  qed
  then show ?thesis by (simp add: corr_def)
qed

text \<open>What follows a call of \<open>Get\<close> or \<open>Init\<close>.\<close>

lemma corr_with:
  assumes "corr (same_run wn fid) R m n (same_machine wn fid)"
    and "\<And>e. corr (same_run wn fid) (same_run wn fid) (f (Inl e)) (g (Inl e)) T"
    and "\<And>p a sm. corr (same_run wn fid) (held wn fid p a sm) (f (Inr p)) (g (Inr sm)) T"
  shows "corr (same_run wn fid) R (bindM m f) (bindM n g) T"
proof (rule corr_bind [OF assms(1)])
  show "corr (same_run wn fid) (same_machine wn fid x y) (f x) (g y) T" for x y
    using assms(2,3) by (cases x; cases y) (auto simp: corr_def)
qed

section \<open>The operations\<close>

lemma corr_onRun_held: "corr E (held wn fid p a sm) (onRun f) (onWorld f) (\<lambda>x y st s. x = y \<and> held wn fid p a sm st s)"
  by (rule corr_onRun) (auto intro: held_world dest: held_same simp: same_run_def)

lemma corr_onRun_same: "corr E (same_run wn fid) (onRun f) (onWorld f) (\<lambda>x y st s. x = y \<and> same_run wn fid st s)"
  by (rule corr_onRun) (auto intro: same_run_world, simp add: same_run_def)

lemma corr_call:
  "corr E (same_run wn fid) (bindM (onRun f) (\<lambda>_. ret ())) (bindM (onWorld f) (\<lambda>_. ret ())) (\<lambda>_ _. same_run wn fid)"
  by (rule corr_bind [OF corr_onRun_same]) (rule corr_ret, simp)

lemma corr_save:
  "corr E (held wn fid p a sm) (runP (save_of F wn fid a)) (onWorld (st_SaveFlowContext (engStorage F) wn fid (smContext sm)))
     (\<lambda>_ _. held wn fid p a sm)"
  unfolding save_of_def runP_bind runP_atomic
  by (rule corr_reads(3), assumption) (rule corr_conseq [OF corr_onRun_held], simp)

lemma corr_dispatch:
  "corr (same_run wn fid) (held wn fid p a sm) (runP (par_saveContextAndDispatchAction F wn fid ids (smFlow sm) a))
     (saveContextAndDispatchAction F wn fid ids (smFlow sm) (smContext sm)) (\<lambda>_ _. same_run wn fid)"
  unfolding par_saveContextAndDispatchAction_def saveContextAndDispatchAction_def runP_bind runP_atomic
  by (rule corr_liftR, erule held_same, rule corr_reads(3), assumption)
    (rule corr_conseq [OF corr_onRun_held], blast intro: held_same)

lemma Store_twice:
  "bindM (container_Store wn fid x) (\<lambda>_. bindM (container_Store wn fid y) k) = bindM (container_Store wn fid y) k"
  by (simp add: fun_eq_iff run_bindM container_Store_def)

lemma corr_Delete: "corr E (held wn fid p a sm) heap_Delete (container_Delete wn fid) (\<lambda>_ _. same_run wn fid)"
  by (auto simp: corr_def heap_Delete_def container_Delete_def held_def same_run_def)

text \<open>The end of a change of state, behind the save.\<close>

lemma corr_after_save:
  "corr (same_run wn fid) (held wn fid p a sm)
     (bindM (runP (if st \<noteq> RUNNING then atomic heap_Delete else Returns ())) (\<lambda>_.
      runP (if st = FAILED then bindP (atomic (onRun (run_handler (engStorage F) h1 wn fid))) (\<lambda>_. Returns ())
       else if st = COMPLETED then bindP (atomic (onRun (run_handler (engStorage F) h2 wn fid))) (\<lambda>_. Returns ())
       else Returns ())))
     (bindM (if st \<noteq> RUNNING then container_Delete wn fid else ret ()) (\<lambda>_.
      if st = FAILED then bindM (onWorld (run_handler (engStorage F) h1 wn fid)) (\<lambda>_. ret ())
      else if st = COMPLETED then bindM (onWorld (run_handler (engStorage F) h2 wn fid)) (\<lambda>_. ret ())
      else ret ())) (\<lambda>_ _. same_run wn fid)"
proof (rule corr_bind [where S = "\<lambda>_ _. same_run wn fid"])
  show "corr (same_run wn fid) (held wn fid p a sm) (runP (if st \<noteq> RUNNING then atomic heap_Delete else Returns ()))
      (if st \<noteq> RUNNING then container_Delete wn fid else ret ()) (\<lambda>_ _. same_run wn fid)"
    by (auto intro: corr_Delete corr_ret held_same)
  show "corr (same_run wn fid) (same_run wn fid)
      (runP (if st = FAILED then bindP (atomic (onRun (run_handler (engStorage F) h1 wn fid))) (\<lambda>_. Returns ())
       else if st = COMPLETED then bindP (atomic (onRun (run_handler (engStorage F) h2 wn fid))) (\<lambda>_. Returns ())
       else Returns ()))
      (if st = FAILED then bindM (onWorld (run_handler (engStorage F) h1 wn fid)) (\<lambda>_. ret ())
       else if st = COMPLETED then bindM (onWorld (run_handler (engStorage F) h2 wn fid)) (\<lambda>_. ret ())
       else ret ()) (\<lambda>_ _. same_run wn fid)" for x y :: unit
    by (auto intro: corr_ret corr_call)
qed

lemma corr_changed:
  "corr (same_run wn fid) (held wn fid p a sm)
     (bindM (flow_of p) (\<lambda>fl. bindM (context_of p) (\<lambda>a. bindM (runP (save_of F wn fid a)) (\<lambda>_.
      bindM (runP (if st \<noteq> RUNNING then atomic heap_Delete else Returns ())) (\<lambda>_.
      runP (if st = FAILED then bindP (atomic (onRun (run_handler (engStorage F) (FailureHandler fl) wn fid))) (\<lambda>_. Returns ())
       else if st = COMPLETED then bindP (atomic (onRun (run_handler (engStorage F) (SuccessHandler fl) wn fid))) (\<lambda>_. Returns ())
       else Returns ()))))))
     (bindM (onWorld (st_SaveFlowContext (engStorage F) wn fid (smContext sm))) (\<lambda>_.
      bindM (if st \<noteq> RUNNING then container_Delete wn fid else ret ()) (\<lambda>_.
      if st = FAILED then bindM (onWorld (run_handler (engStorage F) (FailureHandler (smFlow sm)) wn fid)) (\<lambda>_. ret ())
      else if st = COMPLETED then bindM (onWorld (run_handler (engStorage F) (SuccessHandler (smFlow sm)) wn fid)) (\<lambda>_. ret ())
      else ret ()))) (\<lambda>_ _. same_run wn fid)"
  by (rule corr_reads(1), assumption, rule corr_reads(2), assumption, rule corr_bind [OF corr_save corr_after_save])

lemma corr_set:
  assumes "corr E (held wn fid p a (if length event \<noteq> 0 then SaveEvent event (ChangeState st sm) else ChangeState st sm)) (f ()) n T"
  shows "corr E (held wn fid p a sm)
     (bindM (update wn fid p (\<lambda>sm. Val ((), ChangeState st sm))) (\<lambda>_.
      bindM (runP (if length event \<noteq> 0 then atomic (update wn fid p (\<lambda>sm. Val ((), SaveEvent event sm))) else Returns ())) f))
     (bindM (container_Store wn fid (if length event \<noteq> 0 then SaveEvent event (ChangeState st sm) else ChangeState st sm)) (\<lambda>_. n)) T"
proof (cases "event = []")
  case True
  then show ?thesis using assms by (auto simp: ChangeState_def intro!: corr_update)
next
  case False
  have "corr E (held wn fid p a sm)
     (bindM (update wn fid p (\<lambda>sm. Val ((), ChangeState st sm))) (\<lambda>_. bindM (update wn fid p (\<lambda>sm. Val ((), SaveEvent event sm))) f))
     (bindM (container_Store wn fid (ChangeState st sm)) (\<lambda>_. bindM (container_Store wn fid (SaveEvent event (ChangeState st sm))) (\<lambda>_. n))) T"
    using assms False unfolding ChangeState_def SaveEvent_def by (intro corr_update) simp_all
  then show ?thesis using False by (simp add: Store_twice)
qed

lemma corr_changeStateWithEvent:
  "corr (same_run wn fid) (same_run wn fid) (runP (par_changeStateWithEvent F wn fid st event))
     (changeStateWithEvent F wn fid st event) (\<lambda>_ _. same_run wn fid)"
  unfolding par_changeStateWithEvent_def changeStateWithEvent_def runP_bind runP_atomic
  by (rule corr_with [OF corr_Get], simp add: corr_ret)
    (simp only: sum.case Let_def runP_bind runP_atomic, rule corr_set, rule corr_changed)

lemma corr_changeState:
  "corr (same_run wn fid) (same_run wn fid) (runP (par_changeState F wn fid st)) (changeState F wn fid st) (\<lambda>_ _. same_run wn fid)"
  unfolding par_changeState_def changeState_def by (rule corr_changeStateWithEvent)

lemma corr_Init:
  "corr (same_run wn fid) (same_run wn fid) (runP (par_Init F wn fid input)) (Init F wn fid input)
     (\<lambda>x y st s. x = y \<and> same_run wn fid st s)"
  unfolding par_Init_def Init_def runP_bind runP_atomic
  by (rule corr_with [OF corr_Init_machine], simp add: corr_ret)
    (simp only: sum.case runP_bind runP_atomic, rule corr_reads(1), assumption, rule corr_reads(2), assumption,
      rule corr_bind [OF corr_dispatch], simp add: corr_ret)

lemma corr_machine:
  assumes "\<And>p a sm. corr (same_run wn fid) (held wn fid p a sm) (runP (f p)) (g sm) (\<lambda>_ _. same_run wn fid)"
  shows "corr (same_run wn fid) (same_run wn fid) (runP (with_machine F wn fid actionId f))
     (bindM (container_Get F wn fid) (\<lambda>r. case r of Inl _ \<Rightarrow> ret ()
      | Inr sm \<Rightarrow> (case ValidateAction sm actionId of Some _ \<Rightarrow> ret () | None \<Rightarrow> g sm))) (\<lambda>_ _. same_run wn fid)"
  unfolding with_machine_def runP_bind runP_atomic
proof (rule corr_with [OF corr_Get], simp add: corr_ret, unfold sum.case runP_bind runP_atomic, rule corr_inspect)
  show "corr (same_run wn fid) (held wn fid p a sm) (runP (case ValidateAction sm actionId of None \<Rightarrow> f p | Some x \<Rightarrow> Returns ()))
      (case ValidateAction sm actionId of None \<Rightarrow> g sm | Some x \<Rightarrow> ret ()) (\<lambda>_ _. same_run wn fid)" for p a sm
    using assms by (cases "ValidateAction sm actionId") (auto intro: corr_ret held_same)
qed

lemma MoveForward_context:
  "MoveForward rt sm a event d = Val (x, sm') \<Longrightarrow> \<exists>c. sm' = sm\<lparr>smContext := c\<rparr>"
  by (auto simp: MoveForward_def Let_def split: option.splits if_splits)

lemma corr_move:
  "corr (same_run wn fid) (held wn fid p a sm)
     (bindM (update wn fid p (\<lambda>sm. MoveForward (engRuntime F) sm actionId event dataMap)) (\<lambda>x. runP (case x of (completed, ids) \<Rightarrow>
        if completed then
          bindP (atomic (context_of p)) (\<lambda>a. bindP (save_of F wn fid a) (\<lambda>_. par_changeState F wn fid COMPLETED))
        else
          bindP (atomic (update wn fid p (\<lambda>sm. Val ((), ChangeState RUNNING sm)))) (\<lambda>_. bindP (atomic (flow_of p)) (\<lambda>fl.
          bindP (atomic (context_of p)) (\<lambda>a. bindP (par_saveContextAndDispatchAction F wn fid ids fl a) (\<lambda>_. Returns ())))))))
     (bindM (liftR (MoveForward (engRuntime F) sm actionId event dataMap)) (\<lambda>((completed, ids), sm1).
        bindM (container_Store wn fid sm1) (\<lambda>_.
        if completed then
          bindM (onWorld (st_SaveFlowContext (engStorage F) wn fid (smContext sm1))) (\<lambda>_. MarkComplete F wn fid (SuccessHandler (smFlow sm1)))
        else let sm2 = sm1\<lparr>smContext := (smContext sm1)\<lparr>State := RUNNING\<rparr>\<rparr> in
          bindM (container_Store wn fid sm2) (\<lambda>_.
          bindM (saveContextAndDispatchAction F wn fid ids (smFlow sm2) (smContext sm2)) (\<lambda>_. ret ())))))
     (\<lambda>_ _. same_run wn fid)"
proof (cases "MoveForward (engRuntime F) sm actionId event dataMap")
  case (Panic x)
  then show ?thesis by (auto simp: corr_def run_bindM run_liftR update_def held_def)
next
  case (Val r)
  obtain completed ids sm1 where r: "r = ((completed, ids), sm1)" by (metis prod.collapse)
  obtain c where sm1: "sm1 = sm\<lparr>smContext := c\<rparr>" using MoveForward_context Val r by blast
  show ?thesis
  proof (cases completed)
    case True
    have "corr (same_run wn fid) (held wn fid p a sm1)
        (bindM (context_of p) (\<lambda>a. bindM (runP (save_of F wn fid a)) (\<lambda>_. runP (par_changeState F wn fid COMPLETED))))
        (bindM (onWorld (st_SaveFlowContext (engStorage F) wn fid (smContext sm1))) (\<lambda>_. changeState F wn fid COMPLETED))
        (\<lambda>_ _. same_run wn fid)"
      by (rule corr_reads(2), assumption, rule corr_bind [OF corr_save])
        (rule corr_weaken [OF corr_changeState], erule held_same)
    then show ?thesis using Val r True sm1 by (auto simp: MarkComplete_def bindM_liftR intro!: corr_update)
  next
    case False
    let ?sm2 = "sm1\<lparr>smContext := (smContext sm1)\<lparr>State := RUNNING\<rparr>\<rparr>"
    have "corr (same_run wn fid) (held wn fid p a ?sm2)
        (bindM (flow_of p) (\<lambda>fl. bindM (context_of p) (\<lambda>a. bindM (runP (par_saveContextAndDispatchAction F wn fid ids fl a)) (\<lambda>_. ret ()))))
        (bindM (saveContextAndDispatchAction F wn fid ids (smFlow ?sm2) (smContext ?sm2)) (\<lambda>_. ret ())) (\<lambda>_ _. same_run wn fid)"
      by (rule corr_reads(1), assumption, rule corr_reads(2), assumption, rule corr_bind [OF corr_dispatch]) (rule corr_ret)
    then have "corr (same_run wn fid) (held wn fid p a sm1)
        (bindM (update wn fid p (\<lambda>sm. Val ((), ChangeState RUNNING sm))) (\<lambda>_. bindM (flow_of p) (\<lambda>fl. bindM (context_of p)
          (\<lambda>a. bindM (runP (par_saveContextAndDispatchAction F wn fid ids fl a)) (\<lambda>_. ret ())))))
        (bindM (container_Store wn fid ?sm2) (\<lambda>_. bindM (saveContextAndDispatchAction F wn fid ids (smFlow ?sm2) (smContext ?sm2)) (\<lambda>_. ret ())))
        (\<lambda>_ _. same_run wn fid)"
      by (intro corr_update) (simp_all add: ChangeState_def)
    then show ?thesis using Val r False sm1 by (auto simp: Let_def bindM_liftR intro!: corr_update)
  qed
qed

lemma corr_execute:
  "corr (same_run wn fid) (same_run wn fid) (runP (par_execute F wn fid actionId event dataMap resume))
     (execute F wn fid actionId event dataMap resume) (\<lambda>_ _. same_run wn fid)"
  unfolding par_execute_def execute_def
proof (rule corr_machine, unfold runP_bind runP_atomic, goal_cases)
  case (1 p a sm)
  note move = corr_move [of wn fid p a sm F actionId event dataMap]
  show ?case
  proof (cases resume)
    case False
    show ?thesis unfolding if_not_P [OF False] runP_atomic
      by (rule corr_inspect) (use move False in \<open>auto intro: corr_ret held_same\<close>)
  qed (use move in simp)
qed

lemma corr_held_call:
  "corr (same_run wn fid) (held wn fid p a sm) (bindM (onRun f) (\<lambda>_. ret ())) (bindM (onWorld f) (\<lambda>_. ret ())) (\<lambda>_ _. same_run wn fid)"
  by (rule corr_weaken [OF corr_call held_same])

lemma corr_DelayAction:
  "corr (same_run wn fid) (same_run wn fid) (runP (par_DelayAction F wn fid actionName actionId delay))
     (DelayFlowAction F wn fid actionName actionId delay) (\<lambda>_ _. same_run wn fid)"
  unfolding par_DelayAction_def DelayFlowAction_def
  by (rule corr_machine, unfold runP_bind runP_atomic runP.simps) (rule corr_held_call)

lemmas mark_defs = MarkFailed_def MarkPaused_def MarkWaitingDelay_def MarkWaitingEvent_def

lemma corr_run_system_action:
  "corr (same_run wn fid) (same_run wn fid) (runP (par_run_system_action F wn fid actionId currentAction event dataMap))
     (run_system_action F wn fid actionId currentAction event dataMap) (\<lambda>_ _. same_run wn fid)"
proof -
  have d: "corr (same_run wn fid) (same_run wn fid)
      (runP (if timeout \<noteq> 0 then par_DelayAction F wn fid name i timeout else Returns ()))
      (if timeout \<noteq> 0 then DelayFlowAction F wn fid name i timeout else ret ()) (\<lambda>_ _. same_run wn fid)" for timeout name i
    by (simp add: corr_DelayAction corr_ret)
  consider "GetName currentAction = ''delay''" | "GetName currentAction = ''wait''"
    | "GetName currentAction \<notin> {''delay'', ''wait''}" by auto
  then show ?thesis
  proof cases
    case 1
    show ?thesis
      unfolding par_run_system_action_def run_system_action_def if_P [OF 1] runP_bind runP_atomic mark_defs
      by (rule corr_bind [OF corr_changeState], rule corr_liftR, assumption, rule corr_DelayAction)
  next
    case 2
    then have n: "GetName currentAction \<noteq> ''delay''" by simp
    show ?thesis
      unfolding par_run_system_action_def run_system_action_def if_not_P [OF n] if_P [OF 2] runP_bind runP_atomic mark_defs
      by (rule corr_liftR, assumption, rule corr_liftR, assumption, rule corr_bind [OF d corr_changeStateWithEvent])
  next
    case 3
    then show ?thesis
      by (simp add: par_run_system_action_def run_system_action_def ExecuteAction_def corr_execute)
  qed
qed

lemma corr_after_Execute:
  "corr (same_run wn fid) (same_run wn fid)
     (runP (case res of
        Inl _ \<Rightarrow> bindP (atomic (record_in (ActionFailure wn fid name actionId reason))) (\<lambda>_. par_changeState F wn fid FAILED)
      | Inr (event, dataMap) \<Rightarrow>
          if b then bindP (par_run_system_action F wn fid actionId act event dataMap) (\<lambda>_.
            atomic (record_in (ActionSuccess wn fid name actionId dataMap)))
          else Returns ()))
     (case res of
        Inl _ \<Rightarrow> bindM (RecordActionFailure wn fid name actionId reason) (\<lambda>_. MarkFailed F wn fid)
      | Inr (event, dataMap) \<Rightarrow>
          if b then bindM (run_system_action F wn fid actionId act event dataMap) (\<lambda>_.
            RecordActionSuccess wn fid name actionId dataMap)
          else ret ()) (\<lambda>_ _. same_run wn fid)"
  by (auto simp: RecordActionFailure_def RecordActionSuccess_def mark_defs split: sum.splits
      intro: corr_ret corr_bind [OF corr_record corr_changeState] corr_bind [OF corr_run_system_action corr_record])

lemma corr_ExecuteSystemAction:
  "corr (same_run wn fid) (same_run wn fid) (runP (par_ExecuteSystemAction F wn fid actionId))
     (ExecuteSystemAction F wn fid actionId) (\<lambda>_ _. same_run wn fid)"
  unfolding par_ExecuteSystemAction_def ExecuteSystemAction_def
proof (rule corr_machine, unfold runP_bind runP_atomic, rule corr_reads(1), assumption, rule corr_reads(2), assumption, goal_cases)
  case (1 p a sm)
  show ?case
  proof (cases "fmlookup (flowActions (smFlow sm)) actionId")
    case None
    then show ?thesis by (simp add: corr_panic held_same)
  next
    case (Some act)
    show ?thesis unfolding Some option.case runP_bind runP_atomic
      by (rule corr_reads(3), assumption, rule corr_liftR, erule held_same)
        (rule corr_weaken [OF corr_after_Execute held_same])
  qed
qed

lemma corr_with_definition:
  assumes "\<And>p a sm def. corr (same_run wn fid) (held wn fid p a sm) (runP (f (smContext sm) def)) (g sm def) (\<lambda>_ _. same_run wn fid)"
  shows "corr (same_run wn fid) (same_run wn fid) (runP (par_with_definition F wn fid actionId f))
     (with_definition F wn fid actionId g) (\<lambda>_ _. same_run wn fid)"
  unfolding par_with_definition_def with_definition_def
proof (rule corr_machine, unfold runP_bind runP_atomic, rule corr_reads(1), assumption, rule corr_reads(2), assumption, goal_cases)
  case (1 p a sm)
  show ?case
  proof (cases "fmlookup (flowActions (smFlow sm)) actionId")
    case None
    then show ?thesis by (simp add: corr_panic held_same)
  next
    case (Some act)
    show ?thesis unfolding Some option.case runP_bind runP_atomic
    proof (rule corr_bind [OF corr_onRun_held], goal_cases)
      case (1 d d')
      show ?case
      proof (cases "d = d'")
        case True
        have "corr (same_run wn fid) (held wn fid p a sm) (bindM (load a) (\<lambda>flowCtx. runP (f flowCtx def))) (g sm def) (\<lambda>_ _. same_run wn fid)"
          for def by (rule corr_reads(3), assumption) (rule assms)
        then show ?thesis using True by (cases d') (auto intro: corr_ret held_same)
      qed (simp add: corr_False)
    qed
  qed
qed

lemma corr_RetryFailedAction:
  "corr (same_run wn fid) (same_run wn fid) (runP (par_RetryFailedAction F wn fid actionName actionId))
     (RetryFailedAction F wn fid actionName actionId) (\<lambda>_ _. same_run wn fid)"
  unfolding par_RetryFailedAction_def RetryFailedAction_def
  by (rule corr_with_definition)
    (auto simp: Let_def mark_defs intro: corr_held_call corr_weaken [OF corr_changeState held_same])

lemma corr_RetryTimedoutAction:
  "corr (same_run wn fid) (same_run wn fid) (runP (par_RetryTimedoutAction F wn fid actionName actionId))
     (RetryTimedoutAction F wn fid actionName actionId) (\<lambda>_ _. same_run wn fid)"
  unfolding par_RetryTimedoutAction_def RetryTimedoutAction_def
  by (rule corr_with_definition)
    (auto simp: mark_defs RecordActionFailure_def
      intro: corr_held_call corr_weaken [OF corr_bind [OF corr_record corr_changeState] held_same])

lemma corr_ExecuteRetry:
  "corr (same_run wn fid) (same_run wn fid) (runP (par_ExecuteRetry F wn fid actionId))
     (ExecuteRetry F wn fid actionId) (\<lambda>_ _. same_run wn fid)"
  unfolding par_ExecuteRetry_def ExecuteRetry_def Let_def
proof (rule corr_machine, unfold runP_bind runP_atomic, rule corr_reads(1), assumption, rule corr_reads(2), assumption, goal_cases)
  case (1 p a sm)
  have "corr (same_run wn fid) (held wn fid p a (sm\<lparr>smContext := c\<rparr>))
      (bindM (runP (par_saveContextAndDispatchAction F wn fid [actionId] (smFlow sm) a)) (\<lambda>_. ret ()))
      (bindM (saveContextAndDispatchAction F wn fid [actionId] (smFlow (sm\<lparr>smContext := c\<rparr>)) (smContext (sm\<lparr>smContext := c\<rparr>))) (\<lambda>_. ret ()))
      (\<lambda>_ _. same_run wn fid)" for c
    using corr_bind [OF corr_dispatch [of wn fid p a "sm\<lparr>smContext := c\<rparr>"] corr_ret] by simp
  then show ?case unfolding runP.simps by (rule corr_modify)
qed

lemma corr_range:
  "corr (same_run wn fid) (held wn fid p a sm) (runP (forP ks (\<lambda>k. par_execute F wn fid k event None resume)))
     (forM ks (\<lambda>k. execute F wn fid k event None resume)) (\<lambda>_ _. same_run wn fid)"
  unfolding runP_for by (rule corr_weaken [OF corr_for [OF corr_execute] held_same])

lemma corr_ExecuteResume:
  "corr (same_run wn fid) (same_run wn fid) (runP (par_ExecuteResume F wn fid event))
     (ExecuteResume F wn fid event) (\<lambda>_ _. same_run wn fid)"
  unfolding par_ExecuteResume_def ExecuteResume_def ExecuteActionResume_def Let_def runP_bind runP_atomic
proof (rule corr_with [OF corr_Get], simp add: corr_ret, unfold sum.case runP_bind runP_atomic,
    rule corr_reads(2), assumption, rule corr_reads(3), assumption, goal_cases)
  case (1 p a sm)
  have "corr (same_run wn fid) (held wn fid p a sm)
      (bindM (load a) (\<lambda>flowCtx. runP (forP (range_keys (ordI (engRuntime F)) (CurrentActionIds flowCtx)) (\<lambda>k. par_execute F wn fid k event None True))))
      (forM (range_keys (ordI (engRuntime F)) (CurrentActionIds (smContext sm))) (\<lambda>k. execute F wn fid k event None True)) (\<lambda>_ _. same_run wn fid)"
    by (rule corr_reads(3), assumption, rule corr_range)
  then show ?case by (auto intro: corr_ret held_same)
qed

lemma corr_ExecuteResumeAfterWait:
  "corr (same_run wn fid) (same_run wn fid) (runP (par_ExecuteResumeAfterWait F wn fid event))
     (ExecuteResumeAfterWait F wn fid event) (\<lambda>x y st s. x = y \<and> same_run wn fid st s)"
  unfolding par_ExecuteResumeAfterWait_def ExecuteResumeAfterWait_def ExecuteAction_def Let_def runP_bind runP_atomic
proof (rule corr_with [OF corr_Get], simp add: corr_ret, unfold sum.case runP_bind runP_atomic,
    rule corr_reads(2), assumption, rule corr_reads(3), assumption, goal_cases)
  case (1 p a sm)
  let ?T = "\<lambda>x y st s. x = y \<and> same_run wn fid st s"
  have r: "corr (same_run wn fid) (held wn fid p a sm)
      (bindM (load a) (\<lambda>flowCtx. bindM (runP (forP (range_keys (ordI (engRuntime F)) (CurrentActionIds flowCtx))
        (\<lambda>k. par_execute F wn fid k event None False))) (\<lambda>_. ret None)))
      (bindM (forM (range_keys (ordI (engRuntime F)) (CurrentActionIds (smContext sm))) (\<lambda>k. execute F wn fid k event None False)) (\<lambda>_. ret None)) ?T"
    by (rule corr_reads(3), assumption, rule corr_bind [OF corr_range]) (rule corr_ret, simp)
  have "corr (same_run wn fid) (held wn fid p a sm)
      (bindM (load a) (\<lambda>flowCtx. runP (if State flowCtx = COMPLETED \<or> State flowCtx = FAILED then Returns (Some FlowAlreadyCompleted)
        else bindP (atomic (load a)) (\<lambda>flowCtx. bindP (forP (range_keys (ordI (engRuntime F)) (CurrentActionIds flowCtx))
          (\<lambda>k. par_execute F wn fid k event None False)) (\<lambda>_. Returns None)))))
      (if State (smContext sm) = COMPLETED \<or> State (smContext sm) = FAILED then ret (Some FlowAlreadyCompleted)
       else bindM (forM (range_keys (ordI (engRuntime F)) (CurrentActionIds (smContext sm))) (\<lambda>k. execute F wn fid k event None False)) (\<lambda>_. ret None)) ?T"
    by (rule corr_reads(3), assumption) (use r in \<open>auto intro: corr_ret held_same\<close>)
  then show ?case by (auto intro: corr_ret held_same)
qed

text \<open>Every operation, run without an interruption, is the sequential one.\<close>

lemma corr_op: "corr (same_run wn fid) (same_run wn fid) (runP (par_op F wn fid op)) (run_op F wn fid op) (\<lambda>_ _. same_run wn fid)"
proof (cases op)
  case (OpInit input)
  have "corr (same_run wn fid) (same_run wn fid) (bindM (runP (par_Init F wn fid input)) (\<lambda>_. ret ())) (bindM (Init F wn fid input) (\<lambda>_. ret ()))
      (\<lambda>_ _. same_run wn fid)" by (rule corr_bind [OF corr_Init]) (rule corr_ret, simp)
  then show ?thesis by (simp add: OpInit)
next
  case (OpConsume event)
  have "corr (same_run wn fid) (same_run wn fid) (bindM (runP (par_ExecuteResumeAfterWait F wn fid event)) (\<lambda>_. ret ()))
      (bindM (ExecuteResumeAfterWait F wn fid event) (\<lambda>_. ret ())) (\<lambda>_ _. same_run wn fid)"
    by (rule corr_bind [OF corr_ExecuteResumeAfterWait]) (rule corr_ret, simp)
  then show ?thesis by (simp add: OpConsume)
qed (simp_all add: ExecuteAction_def ExecuteDelay_def MarkPaused_def corr_execute corr_ExecuteSystemAction corr_RetryFailedAction
    corr_RetryTimedoutAction corr_ExecuteRetry corr_ExecuteResume corr_changeState)

text \<open>And so are several that come one after the other.\<close>

lemma agree_op:
  assumes "same_run wn fid st s" and "runP (par_op F wn fid op) st = (r, st')"
  shows "agree (same_run wn fid) (\<lambda>_ _. same_run wn fid) (r, st') (run_op F wn fid op s)"
  using corr_op [of wn fid F op] assms(1) by (simp add: corr_def flip: assms(2))

lemma run_all_ops:
  "same_run wn fid st s \<Longrightarrow> run_all (map (par_op F wn fid) ops) st = (ps, st') \<Longrightarrow> same_run wn fid st' (run_ops F wn fid ops s)"
proof (induction ops arbitrary: st s ps)
  case (Cons op ops)
  obtain r st1 where r: "runP (par_op F wn fid op) st = (r, st1)" by fastforce
  obtain r' s1 where r': "run_op F wn fid op s = (r', s1)" by fastforce
  have "same_run wn fid st1 s1"
    using agree_op [OF Cons.prems(1) r] unfolding r' by (cases r; cases r') simp_all
  then show ?case using Cons.IH Cons.prems(2) r r' by (auto split: prod.splits)
qed simp

end
