(* ===== verification/Concurrent_Types.thy ===== *)
theory Concurrent_Types
  imports Concurrent_Engine
begin

text \<open>
  What survives any interleaving of operations on one run: the stored context and all contexts on the heap
  stay well typed, every pointer leads to an object, and operations about actions of the workflow do not panic.
  Every turn of every operation keeps this invariant, by the rules of theory \<open>Resumptions\<close>.
\<close>

section \<open>The invariant\<close>

context engine_run
begin

definition typed_context :: "FlowContext \<Rightarrow> bool" where
  "typed_context c \<longleftrightarrow> typed_view fl (view_of c)"

definition world_ok :: "'w \<Rightarrow> bool" where
  "world_ok w \<longleftrightarrow> defs w wn \<in> {None, Some wfl} \<and> (\<forall>c. ctxs w (wn, fid) = Some c \<longrightarrow> typed_context c)"

definition run_ok :: "'w run_state \<Rightarrow> bool" where
  "run_ok st \<longleftrightarrow> world_ok (rsWorld st) \<and> (\<forall>c \<in> set (rsContexts st). typed_context c) \<and>
     (\<forall>m \<in> set (rsMachines st). mcFlow m = fl \<and> mcContext m < length (rsContexts st)) \<and>
     (\<forall>p. rsCached st = Some p \<longrightarrow> p < length (rsMachines st)) \<and> rsCollector st \<noteq> None"

text \<open>Objects are not removed.\<close>

definition run_grows :: "'w run_state \<Rightarrow> 'w run_state \<Rightarrow> bool" where
  "run_grows st st' \<longleftrightarrow> length (rsMachines st) \<le> length (rsMachines st') \<and> length (rsContexts st) \<le> length (rsContexts st')"

end

sublocale engine_run \<subseteq> conc: shared run_ok run_grows
  by unfold_locales (auto simp: run_grows_def)

section \<open>Turns\<close>

context engine_run
begin

lemma world_ok_read: "world_ok w \<Longrightarrow> ctxs w' = ctxs w \<Longrightarrow> defs w' = defs w \<Longrightarrow> world_ok w'"
  by (simp add: world_ok_def)

lemma typed_img: "typed_context c \<Longrightarrow> typed_context (img c)"
  by (simp add: typed_context_def)

lemma world_ok_save:
  assumes "world_ok w" and "typed_context c"
  shows "world_ok (snd (st_SaveFlowContext (engStorage F) wn fid c w))"
    and "world_ok (snd (st_SaveFlowContextAndDispatchAction (engStorage F) wn fid c reqs w))"
  using assms save_cases [of wn fid c w] dispatch_cases [of wn fid c reqs w] storage_defs(2,3) typed_img
  by (auto simp: world_ok_def)

lemma world_ok_handler: "world_ok w \<Longrightarrow> world_ok (snd (run_handler (engStorage F) h wn fid w))"
  using delete_cases [of wn fid w] storage_defs(4) by (auto simp: world_ok_def run_handler_def)

lemma world_ok_queue:
  "world_ok w \<Longrightarrow> world_ok (snd (st_Retry (engStorage F) wn fid name a d w))"
  "world_ok w \<Longrightarrow> world_ok (snd (st_Delay (engStorage F) wn fid name a d w))"
  "world_ok w \<Longrightarrow> world_ok (snd (ms_GetActionDefinition (engMetadata F) name w))"
  using storage_defs(5,6) action_frame retry_frame delay_frame by (auto intro: world_ok_read)

lemma world_ok_GetFlow:
  assumes "world_ok w" and "GetFlow (engRuntime F) (engMetadata F) wn fid w = (r, w')"
  shows "world_ok w' \<and> ((\<exists>e. r = Val (Inl e)) \<or> r = Val (Inr fl))"
proof -
  obtain d w1 where d: "ms_GetWorkflowDefinition (engMetadata F) wn w = (d, w1)" by fastforce
  then have w1: "w1 = w'" using assms(2) by (auto simp: GetFlow_def split: sum.splits)
  have "world_ok w'" using assms(1) def_frame [of wn w] d w1 by (auto intro: world_ok_read)
  moreover have "d = Inr wfl' \<Longrightarrow> wfl' = wfl" for wfl'
    using def_value d assms(1) by (fastforce simp: world_ok_def)
  ultimately show ?thesis
    using assms(2) d compiled by (cases d) (auto simp: GetFlow_def)
qed

lemma run_ok_world: "run_ok st \<Longrightarrow> world_ok w \<Longrightarrow> run_ok (st\<lparr>rsWorld := w\<rparr>)"
  by (simp add: run_ok_def)

lemma run_ok_new:
  assumes "run_ok st" and "typed_context c"
  shows "run_ok (snd (new_machine_in c fl st))"
  using assms by (auto simp: run_ok_def new_machine_in_def)

text \<open>A turn that changes the world, and one that reads.\<close>

lemma safe_onRun:
  assumes "\<And>w. world_ok w \<Longrightarrow> world_ok (snd (f w))"
  shows "conc.safe E s (atomic (onRun f)) (\<lambda>_ _. True)"
proof (rule conc.safe_atomic)
  fix s' assume "run_ok s'"
  moreover from this have "world_ok (snd (f (rsWorld s')))" using assms by (simp add: run_ok_def)
  ultimately show "run_ok (snd (onRun f s')) \<and> run_grows s' (snd (onRun f s')) \<and> (case fst (onRun f s') of Val a \<Rightarrow> True | Panic x \<Rightarrow> E x)"
    by (auto simp: onRun_def run_grows_def intro: run_ok_world split: prod.splits)
qed

lemma safe_reads:
  "p < length (rsMachines s) \<Longrightarrow> conc.safe E s (atomic (flow_of p)) (\<lambda>f _. f = fl)"
  "p < length (rsMachines s) \<Longrightarrow> conc.safe E s (atomic (context_of p)) (\<lambda>a s'. a < length (rsContexts s'))"
  "a < length (rsContexts s) \<Longrightarrow> conc.safe E s (atomic (load a)) (\<lambda>c _. typed_context c)"
  "conc.safe E s (atomic (inspect wn fid p g)) (\<lambda>_ _. True)"
  by (auto intro!: conc.safe_atomic simp: flow_of_def context_of_def load_def inspect_def run_ok_def run_grows_def)

lemma safe_liftR: "(\<And>x. r = Panic x \<Longrightarrow> E x) \<Longrightarrow> (\<And>a. r = Val a \<Longrightarrow> Q a) \<Longrightarrow> conc.safe E s (atomic (liftR r)) (\<lambda>a _. Q a)"
  by (rule conc.safe_atomic) (auto simp: run_liftR run_grows_def split: res.splits)

lemma safe_record: "conc.safe E s (atomic (record_in ev)) (\<lambda>_ _. True)"
  by (rule conc.safe_atomic) (auto simp: record_in_def run_ok_def run_grows_def)

lemma safe_Delete: "conc.safe E s (atomic heap_Delete) (\<lambda>_ _. True)"
  by (rule conc.safe_atomic) (auto simp: heap_Delete_def run_ok_def run_grows_def)

lemma run_ok_context:
  assumes "run_ok s" and "typed_context c"
  shows "run_ok (set_context a c s)"
  using assms by (auto simp: run_ok_def set_context_def dest!: set_update_subset_insert [THEN subsetD])

lemma safe_modify:
  assumes "a < length (rsContexts s)" and "\<And>c. typed_context c \<Longrightarrow> typed_context (f c)"
  shows "conc.safe E s (atomic (modify a f)) (\<lambda>_ _. True)"
proof (rule conc.safe_atomic)
  fix s' assume s': "run_grows s s'" "run_ok s'"
  then have "typed_context (rsContexts s' ! a)" using assms(1) by (simp add: run_ok_def run_grows_def)
  with run_ok_context [OF s'(2) assms(2) [OF this]]
  show "run_ok (snd (modify a f s')) \<and> run_grows s' (snd (modify a f s')) \<and> (case fst (modify a f s') of Val u \<Rightarrow> True | Panic x \<Rightarrow> E x)"
    by (simp add: modify_def) (simp add: set_context_def run_grows_def)
qed

lemma safe_update:
  assumes "p < length (rsMachines s)"
    and "\<And>sm. smFlow sm = fl \<Longrightarrow> typed_context (smContext sm) \<Longrightarrow>
      \<exists>x sm'. g sm = Val (x, sm') \<and> typed_context (smContext sm') \<and> Q x"
  shows "conc.safe E s (atomic (update wn fid p g)) (\<lambda>x _. Q x)"
proof (rule conc.safe_atomic)
  fix s' assume s': "run_grows s s'" "run_ok s'"
  then have "smFlow (machine_at wn fid p s') = fl" "typed_context (smContext (machine_at wn fid p s'))"
    using assms(1) by (auto simp: run_ok_def run_grows_def machine_at_def NewFlowStateMachine_def)
  from assms(2) [OF this] obtain x sm' where g: "g (machine_at wn fid p s') = Val (x, sm')" "typed_context (smContext sm')" "Q x"
    by blast
  show "run_ok (snd (update wn fid p g s')) \<and> run_grows s' (snd (update wn fid p g s')) \<and>
      (case fst (update wn fid p g s') of Val x \<Rightarrow> Q x | Panic x \<Rightarrow> E x)"
    using g run_ok_context [OF s'(2) g(2)] by (simp add: update_def) (simp add: set_context_def run_grows_def)
qed

text \<open>The container.\<close>

definition machine_result :: "error + nat \<Rightarrow> 'w run_state \<Rightarrow> bool" where
  "machine_result r s \<longleftrightarrow> (\<forall>p. r = Inr p \<longrightarrow> p < length (rsMachines s))"

lemma make_ok:
  assumes "run_ok s" and "typed_context (c fl)"
    and "bindM (get_flow_in F wn fid) (\<lambda>g. case g of Inl e \<Rightarrow> ret (Inl e)
      | Inr fl \<Rightarrow> bindM (new_machine_in (c fl) fl) (\<lambda>p. ret (Inr p))) s = (r, s')"
  shows "run_ok s' \<and> run_grows s s' \<and> (\<exists>x. r = Val x \<and> machine_result x s')"
proof -
  obtain g w where g: "GetFlow (engRuntime F) (engMetadata F) wn fid (rsWorld s) = (g, w)" by fastforce
  have "world_ok (rsWorld s)" using assms(1) by (simp add: run_ok_def)
  note G = world_ok_GetFlow [OF this g]
  then have s1: "run_ok (s\<lparr>rsWorld := w\<rparr>)" using assms(1) run_ok_world by blast
  consider e where "g = Val (Inl e)" | "g = Val (Inr fl)" using G by blast
  then show ?thesis
  proof cases
    case 1
    then show ?thesis using assms(3) g s1 by (auto simp: get_flow_in_def run_bindM run_ret machine_result_def run_grows_def)
  next
    case 2
    then show ?thesis using assms(2,3) g run_ok_new [OF s1, of "c fl"]
      by (auto simp: get_flow_in_def run_bindM run_ret machine_result_def run_grows_def new_machine_in_def)
  qed
qed

lemma safe_Init_machine:
  assumes "flow_closed fl"
  shows "conc.safe E s (atomic (heap_Init F wn fid input)) machine_result"
proof (rule conc.safe_atomic)
  fix s' assume s': "run_ok s'"
  have "typed_context (initial_context fid (RootAction fl) input)"
    using assms by (auto simp: typed_context_def typed_view_def initial_context_def flow_closed_def)
  from make_ok [where c = "\<lambda>fl. initial_context fid (RootAction fl) input", OF s' this, of "fst (heap_Init F wn fid input s')" "snd (heap_Init F wn fid input s')"]
  show "run_ok (snd (heap_Init F wn fid input s')) \<and> run_grows s' (snd (heap_Init F wn fid input s')) \<and>
      (case fst (heap_Init F wn fid input s') of Val a \<Rightarrow> machine_result a (snd (heap_Init F wn fid input s')) | Panic x \<Rightarrow> E x)"
    unfolding heap_Init_def by auto
qed

lemma Get_ok:
  assumes "run_ok s" and "heap_Get F wn fid s = (r, s')"
  shows "run_ok s' \<and> run_grows s s' \<and> (\<exists>x. r = Val x \<and> machine_result x s')"
proof -
  obtain g w where g: "st_GetFlowContext (engStorage F) wn fid (rsWorld s) = (g, w)" by fastforce
  have w: "world_ok w" using assms(1) get_frame [of wn fid "rsWorld s"] storage_defs(1) [of wn fid "rsWorld s"] g
    by (auto simp: run_ok_def intro: world_ok_read)
  show ?thesis
  proof (cases g)
    case (Inl e)
    then show ?thesis using assms g run_ok_world [OF _ w]
      by (auto simp: heap_Get_def run_bindM run_ret onRun_def machine_result_def run_grows_def)
  next
    case c: (Inr c)
    have t: "typed_context c" using get_value g c assms(1) by (auto simp: run_ok_def world_ok_def)
    show ?thesis
    proof (cases "rsCached s")
      case None
      then show ?thesis
        using make_ok [where c = "\<lambda>_. c", OF run_ok_world [OF assms(1) w] t, of r s'] assms(2) g c
        by (auto simp: heap_Get_def run_bindM onRun_def run_grows_def)
    next
      case (Some p)
      then show ?thesis using assms g c t w
        by (auto simp: heap_Get_def run_bindM onRun_def machine_result_def run_grows_def run_ok_def less_Suc_eq
            dest!: set_update_subset_insert [THEN subsetD])
    qed
  qed
qed

lemma safe_Get: "conc.safe E s (atomic (heap_Get F wn fid)) machine_result"
proof (rule conc.safe_atomic)
  fix s' assume "run_ok s'"
  from Get_ok [OF this, of "fst (heap_Get F wn fid s')" "snd (heap_Get F wn fid s')"]
  show "run_ok (snd (heap_Get F wn fid s')) \<and> run_grows s' (snd (heap_Get F wn fid s')) \<and>
      (case fst (heap_Get F wn fid s') of Val a \<Rightarrow> machine_result a (snd (heap_Get F wn fid s')) | Panic x \<Rightarrow> E x)"
    by auto
qed

section \<open>Operations\<close>

text \<open>Pointers stay valid.\<close>

lemma grows_valid:
  "run_grows s s' \<Longrightarrow> p < length (rsMachines s) \<Longrightarrow> p < length (rsMachines s')"
  "run_grows s s' \<Longrightarrow> a < length (rsContexts s) \<Longrightarrow> a < length (rsContexts s')"
  by (simp_all add: run_grows_def)

lemma safe_return: "conc.safe E s (Returns x) (\<lambda>_ _. True)"
  by (simp add: conc.safe_simps)

text \<open>A statement whose result is not used, and one that finds a machine.\<close>

lemma safe_seq:
  assumes "conc.safe E s q (\<lambda>_ _. True)" and "\<And>x s'. run_grows s s' \<Longrightarrow> conc.safe E s' (f x) R"
  shows "conc.safe E s (bindP q f) R"
  using assms by (rule conc.safe_bind)

lemma safe_found:
  assumes "conc.safe E s q machine_result" and "\<And>e s'. conc.safe E s' (f (Inl e)) R"
    and "\<And>p s'. p < length (rsMachines s') \<Longrightarrow> conc.safe E s' (f (Inr p)) R"
  shows "conc.safe E s (bindP q f) R"
proof (rule conc.safe_bind [OF assms(1)])
  show "conc.safe E s' (f r) R" if "machine_result r s'" for r s'
    using that assms(2,3) by (cases r) (auto simp: machine_result_def)
qed

lemma safe_flow_context:
  assumes "p < length (rsMachines s)" and "\<And>a s'. a < length (rsContexts s') \<Longrightarrow> conc.safe E s' (f fl a) R"
  shows "conc.safe E s (bindP (atomic (flow_of p)) (\<lambda>g. bindP (atomic (context_of p)) (f g))) R"
proof (rule conc.safe_bind [OF safe_reads(1) [OF assms(1)]])
  fix g s1 assume s1: "run_grows s s1" "g = fl"
  show "conc.safe E s1 (bindP (atomic (context_of p)) (f g)) R"
    by (rule conc.safe_bind [OF safe_reads(2) [OF grows_valid(1) [OF s1(1) assms(1)]]]) (simp add: s1(2) assms(2))
qed

lemma safe_context:
  assumes "p < length (rsMachines s)" and "\<And>a s'. a < length (rsContexts s') \<Longrightarrow> run_grows s s' \<Longrightarrow> conc.safe E s' (f a) R"
  shows "conc.safe E s (bindP (atomic (context_of p)) f) R"
  by (rule conc.safe_bind [OF safe_reads(2) [OF assms(1)] assms(2)])

lemma safe_load:
  assumes "a < length (rsContexts s)" and "\<And>c s'. typed_context c \<Longrightarrow> run_grows s s' \<Longrightarrow> conc.safe E s' (f c) R"
  shows "conc.safe E s (bindP (atomic (load a)) f) R"
  by (rule conc.safe_bind [OF safe_reads(3) [OF assms(1)] assms(2)])

lemma safe_save: "a < length (rsContexts s) \<Longrightarrow> conc.safe E s (save_of F wn fid a) (\<lambda>_ _. True)"
  unfolding save_of_def by (erule safe_load) (rule safe_onRun, rule world_ok_save(1))

lemma build_requests_ok: "set ids \<subseteq> fmdom' (flowActions fl) \<Longrightarrow> \<exists>reqs. build_requests fl ids = Val reqs"
  by (induction ids) (auto simp: fmlookup_dom'_iff)

lemma safe_dispatch:
  assumes "set ids \<subseteq> fmdom' (flowActions fl)" and "a < length (rsContexts s)"
  shows "conc.safe E s (par_saveContextAndDispatchAction F wn fid ids fl a) (\<lambda>_ _. True)"
  unfolding par_saveContextAndDispatchAction_def
proof (rule conc.safe_bind [OF safe_liftR [where Q = "\<lambda>_. True"]])
  show "E x" if "build_requests fl ids = Panic x" for x using that build_requests_ok [OF assms(1)] by auto
  show "conc.safe E s' (bindP (atomic (load a)) (\<lambda>c. atomic (onRun (st_SaveFlowContextAndDispatchAction (engStorage F) wn fid c reqs)))) (\<lambda>_ _. True)"
    if "run_grows s s'" for reqs s'
    using grows_valid(2) [OF that assms(2)] by (rule safe_load) (rule safe_onRun, rule world_ok_save(2))
qed simp

lemma typed_with_state: "typed_context c \<Longrightarrow> \<forall>x. st \<noteq> OtherFlowState x \<Longrightarrow> typed_context (c\<lparr>State := st\<rparr>)"
  by (simp add: typed_context_def typed_view_def)

lemma typed_with_event: "typed_context c \<Longrightarrow> typed_context (c\<lparr>Event := ev\<rparr>)"
  by (simp add: typed_context_def typed_view_def)

lemma safe_ChangeState:
  "p < length (rsMachines s) \<Longrightarrow> \<forall>x. st \<noteq> OtherFlowState x \<Longrightarrow>
   conc.safe E s (atomic (update wn fid p (\<lambda>sm. Val ((), ChangeState st sm)))) (\<lambda>_ _. True)"
  by (erule safe_update) (simp add: ChangeState_def typed_with_state)

lemma safe_SaveEvent:
  "p < length (rsMachines s) \<Longrightarrow> conc.safe E s (atomic (update wn fid p (\<lambda>sm. Val ((), SaveEvent ev sm)))) (\<lambda>_ _. True)"
  by (erule safe_update) (simp add: SaveEvent_def typed_with_event)

lemma safe_call:
  assumes "\<And>w. world_ok w \<Longrightarrow> world_ok (snd (f w))"
  shows "conc.safe E s (bindP (atomic (onRun f)) (\<lambda>_. Returns ())) (\<lambda>_ _. True)"
  by (rule safe_seq [OF safe_onRun [OF assms] safe_return])

lemma safe_changeStateWithEvent:
  assumes "\<forall>x. st \<noteq> OtherFlowState x"
  shows "conc.safe E s (par_changeStateWithEvent F wn fid st event) (\<lambda>_ _. True)"
  unfolding par_changeStateWithEvent_def
proof (rule safe_found [OF safe_Get], simp add: safe_return, unfold sum.case, rule safe_seq [OF safe_ChangeState [OF _ assms]],
    assumption, goal_cases)
  case (1 p s1 x s2)
  then have p: "p < length (rsMachines s2)" using grows_valid by blast
  then have e: "conc.safe E s2 (if length event \<noteq> 0 then atomic (update wn fid p (\<lambda>sm. Val ((), SaveEvent event sm))) else Returns ()) (\<lambda>_ _. True)"
    by (simp add: safe_SaveEvent safe_return)
  have d: "conc.safe E s' (if st \<noteq> RUNNING then atomic heap_Delete else Returns ()) (\<lambda>_ _. True)" for s'
    by (simp add: safe_Delete safe_return)
  show ?case
    by (rule safe_seq [OF e], rule safe_flow_context, rule grows_valid(1) [OF _ p], assumption,
        rule safe_seq [OF safe_save], assumption, rule safe_seq [OF d])
      (simp add: safe_call safe_return world_ok_handler)
qed

lemma safe_changeState:
  "\<forall>x. st \<noteq> OtherFlowState x \<Longrightarrow> conc.safe E s (par_changeState F wn fid st) (\<lambda>_ _. True)"
  unfolding par_changeState_def by (rule safe_changeStateWithEvent)

lemma safe_with_machine:
  assumes "\<And>p s'. p < length (rsMachines s') \<Longrightarrow> conc.safe E s' (f p) (\<lambda>_ _. True)"
  shows "conc.safe E s (with_machine F wn fid actionId f) (\<lambda>_ _. True)"
  unfolding with_machine_def
proof (rule safe_found [OF safe_Get], simp add: safe_return, unfold sum.case, rule safe_seq [OF safe_reads(4)], goal_cases)
  case (1 p s' err s'')
  then show ?case using assms grows_valid(1) by (cases err) (auto intro: safe_return)
qed

lemma MoveForward_typed:
  assumes "smFlow sm = fl" and "typed_context (smContext sm)" and "flow_closed fl" and "a \<in> fmdom' (flowActions fl)"
  shows "\<exists>x sm'. MoveForward (engRuntime F) sm a event d = Val (x, sm') \<and> typed_context (smContext sm') \<and>
    set (snd x) \<subseteq> fmdom' (flowActions fl)"
proof -
  obtain completed ids sm' where m: "MoveForward (engRuntime F) sm a event d = Val ((completed, ids), sm')"
    using MoveForward_returns [of a sm] assms(1,4) by (metis surj_pair)
  show ?thesis
    using m MoveForward_Val [OF m] assms by (auto simp: typed_context_def typed_view_def flow_closed_def)
qed

text \<open>The two ways \<open>execute\<close> goes on after \<open>MoveForward\<close>.\<close>

lemma safe_completed:
  "p < length (rsMachines s) \<Longrightarrow> conc.safe E s (bindP (atomic (context_of p)) (\<lambda>a. bindP (save_of F wn fid a) (\<lambda>_.
     par_changeState F wn fid COMPLETED))) (\<lambda>_ _. True)"
  by (erule safe_context) (rule safe_seq [OF safe_save], assumption, rule safe_changeState, simp)

lemma safe_moved:
  assumes "p < length (rsMachines s)" and "set ids \<subseteq> fmdom' (flowActions fl)"
  shows "conc.safe E s (bindP (atomic (update wn fid p (\<lambda>sm. Val ((), ChangeState RUNNING sm)))) (\<lambda>_. bindP (atomic (flow_of p)) (\<lambda>fl.
     bindP (atomic (context_of p)) (\<lambda>a. bindP (par_saveContextAndDispatchAction F wn fid ids fl a) (\<lambda>_. Returns ()))))) (\<lambda>_ _. True)"
  by (rule safe_seq [OF safe_ChangeState [OF assms(1)]], simp, rule safe_flow_context, rule grows_valid(1) [OF _ assms(1)], assumption,
      rule safe_seq [OF safe_dispatch [OF assms(2)]], assumption, rule safe_return)

lemma safe_execute:
  assumes "flow_closed fl" and "a \<in> fmdom' (flowActions fl)"
  shows "conc.safe E s (par_execute F wn fid a event d resume) (\<lambda>_ _. True)"
  unfolding par_execute_def
proof (rule safe_with_machine, goal_cases)
  case (1 p s1)
  have e: "conc.safe E s1 (if resume then Returns False else atomic (inspect wn fid p (\<lambda>sm. GetState sm = PAUSED))) (\<lambda>_ _. True)"
    by (simp add: safe_reads safe_return)
  have m: "conc.safe E s2 (atomic (update wn fid p (\<lambda>sm. MoveForward (engRuntime F) sm a event d)))
      (\<lambda>x _. set (snd x) \<subseteq> fmdom' (flowActions fl))" if "p < length (rsMachines s2)" for s2
    using that by (rule safe_update) (use MoveForward_typed assms in blast)
  show ?case
  proof (rule safe_seq [OF e], goal_cases)
    case (1 paused s2)
    then have p2: "p < length (rsMachines s2)" using \<open>p < length (rsMachines s1)\<close> grows_valid(1) by blast
    show ?case
      by (cases paused, simp add: safe_return, simp only: if_False, rule conc.safe_bind [OF m [OF p2]])
        (auto intro!: safe_completed safe_moved grows_valid(1) [OF _ p2])
  qed
qed

lemma safe_range:
  assumes "flow_closed fl" and "typed_context c"
  shows "conc.safe E s (forP (range_keys (ordI (engRuntime F)) (CurrentActionIds c)) (\<lambda>k. par_execute F wn fid k event None resume)) (\<lambda>_ _. True)"
  using fairD(2) [OF fair] assms
  by (intro conc.safe_for safe_execute) (auto simp: typed_context_def typed_view_def)

lemma safe_Init:
  assumes "flow_closed fl"
  shows "conc.safe E s (par_Init F wn fid input) (\<lambda>_ _. True)"
  unfolding par_Init_def
  by (rule safe_found [OF safe_Init_machine [OF assms]], simp add: safe_return, unfold sum.case, rule safe_flow_context, assumption,
      rule safe_seq [OF safe_dispatch]) (use assms in \<open>simp_all add: flow_closed_def safe_return\<close>)

lemma safe_ExecuteResume:
  assumes "flow_closed fl"
  shows "conc.safe E s (par_ExecuteResume F wn fid event) (\<lambda>_ _. True)"
  unfolding par_ExecuteResume_def
proof (rule safe_found [OF safe_Get], simp add: safe_return, unfold sum.case, rule safe_context, assumption, rule safe_load, assumption, goal_cases)
  case (1 p s1 a s2 c s3)
  have "conc.safe E s3 (bindP (atomic (load a)) (\<lambda>c. forP (range_keys (ordI (engRuntime F)) (CurrentActionIds c))
      (\<lambda>k. par_execute F wn fid k event None True))) (\<lambda>_ _. True)"
    using grows_valid(2) 1 by (intro safe_load safe_range [OF assms]) auto
  then show ?case by (simp add: safe_return)
qed

lemma safe_ExecuteResumeAfterWait:
  assumes "flow_closed fl"
  shows "conc.safe E s (par_ExecuteResumeAfterWait F wn fid event) (\<lambda>_ _. True)"
  unfolding par_ExecuteResumeAfterWait_def
proof (rule safe_found [OF safe_Get], simp add: safe_return, unfold sum.case, rule safe_context, assumption, rule safe_load, assumption, goal_cases)
  case (1 p s1 a s2 c s3)
  then have a3: "a < length (rsContexts s3)" using grows_valid(2) by blast
  have r: "conc.safe E s4 (bindP (atomic (load a)) (\<lambda>c. bindP (forP (range_keys (ordI (engRuntime F)) (CurrentActionIds c))
      (\<lambda>k. par_execute F wn fid k event None False)) (\<lambda>_. Returns None))) (\<lambda>_ _. True)" if "run_grows s3 s4" for s4
    using grows_valid(2) [OF that a3]
    by (rule safe_load) (rule safe_seq [OF safe_range [OF assms]], assumption, rule safe_return)
  have "conc.safe E s3 (bindP (atomic (load a)) (\<lambda>c. if State c = COMPLETED \<or> State c = FAILED then Returns (Some FlowAlreadyCompleted)
      else bindP (atomic (load a)) (\<lambda>c. bindP (forP (range_keys (ordI (engRuntime F)) (CurrentActionIds c))
        (\<lambda>k. par_execute F wn fid k event None False)) (\<lambda>_. Returns None)))) (\<lambda>_ _. True)"
    using a3 by (rule safe_load) (simp add: safe_return r)
  then show ?case by (simp add: safe_return)
qed

text \<open>Retries, delays and system actions. Only a system action may panic: in the library it calls, or for
  parameters of the wrong type.\<close>

lemma safe_with_definition:
  assumes "a \<in> fmdom' (flowActions fl)" and "\<And>c def s'. conc.safe E s' (f c def) (\<lambda>_ _. True)"
  shows "conc.safe E s (par_with_definition F wn fid a f) (\<lambda>_ _. True)"
  unfolding par_with_definition_def
proof (rule safe_with_machine, rule safe_flow_context, assumption, goal_cases)
  case (1 p s1 i s2)
  obtain act where act: "fmlookup (flowActions fl) a = Some act" using assms(1) by (auto simp: fmlookup_dom'_iff)
  show ?case unfolding act option.case
  proof (rule safe_seq [OF safe_onRun [OF world_ok_queue(3)]], assumption, goal_cases)
    case (1 d s3)
    have "conc.safe E s3 (bindP (atomic (load i)) (\<lambda>c. f c def)) (\<lambda>_ _. True)" for def
      using grows_valid(2) [OF 1 \<open>i < length (rsContexts s2)\<close>] by (rule safe_load) (rule assms(2))
    then show ?case by (cases d) (simp_all add: safe_return)
  qed
qed

lemma safe_RetryFailedAction:
  "a \<in> fmdom' (flowActions fl) \<Longrightarrow> conc.safe E s (par_RetryFailedAction F wn fid name a) (\<lambda>_ _. True)"
  unfolding par_RetryFailedAction_def Let_def
  by (erule safe_with_definition) (simp add: safe_call world_ok_queue safe_changeState)

lemma safe_RetryTimedoutAction:
  "a \<in> fmdom' (flowActions fl) \<Longrightarrow> conc.safe E s (par_RetryTimedoutAction F wn fid name a) (\<lambda>_ _. True)"
  unfolding par_RetryTimedoutAction_def
  by (erule safe_with_definition) (simp add: safe_call world_ok_queue safe_seq [OF safe_record] safe_changeState)

lemma safe_ExecuteRetry:
  assumes "a \<in> fmdom' (flowActions fl)"
  shows "conc.safe E s (par_ExecuteRetry F wn fid a) (\<lambda>_ _. True)"
  unfolding par_ExecuteRetry_def
proof (rule safe_with_machine, rule safe_flow_context, assumption, goal_cases)
  case (1 p s1 i s2)
  have b: "typed_context (bump_try a c)" if "typed_context c" for c
    using that assms by (auto simp: typed_context_def typed_view_def bump_try_def)
  show ?case
    by (rule safe_seq [OF safe_modify [OF 1(2) b]], assumption, rule safe_seq [OF safe_dispatch])
      (use assms 1 grows_valid(2) in \<open>auto intro: safe_return\<close>)
qed

lemma safe_DelayAction: "conc.safe E s (par_DelayAction F wn fid name a d) (\<lambda>_ _. True)"
  unfolding par_DelayAction_def by (rule safe_with_machine) (rule safe_call, rule world_ok_queue(2))

lemma safe_liftR_any: "(\<And>x. E x) \<Longrightarrow> conc.safe E s (atomic (liftR r)) (\<lambda>_ _. True)"
  by (rule safe_liftR [where Q = "\<lambda>_. True"]) simp_all

lemma safe_run_system_action:
  assumes "flow_closed fl" and "a \<in> fmdom' (flowActions fl)" and E: "\<And>x. E x"
  shows "conc.safe E s (par_run_system_action F wn fid a act event d) (\<lambda>_ _. True)"
proof -
  have w: "conc.safe E s (if t \<noteq> 0 then par_DelayAction F wn fid name i t else Returns ()) (\<lambda>_ _. True)" for s t name i
    by (simp add: safe_DelayAction safe_return)
  consider "GetName act = ''delay''" | "GetName act = ''wait''" | "GetName act \<notin> {''delay'', ''wait''}" by auto
  then show ?thesis
  proof cases
    case 1
    show ?thesis unfolding par_run_system_action_def if_P [OF 1]
      by (rule safe_seq [OF safe_changeState], simp, rule safe_seq [OF safe_liftR_any], rule E, rule safe_DelayAction)
  next
    case 2
    then have n: "GetName act \<noteq> ''delay''" by simp
    show ?thesis unfolding par_run_system_action_def if_not_P [OF n] if_P [OF 2]
      by (rule safe_seq [OF safe_liftR_any], rule E, rule safe_seq [OF safe_liftR_any], rule E,
          rule safe_seq [OF w safe_changeStateWithEvent], simp)
  next
    case 3
    then show ?thesis using assms by (simp add: par_run_system_action_def safe_execute)
  qed
qed

lemma safe_ExecuteSystemAction:
  assumes "flow_closed fl" and "a \<in> fmdom' (flowActions fl)" and "\<And>x. E x"
  shows "conc.safe E s (par_ExecuteSystemAction F wn fid a) (\<lambda>_ _. True)"
  unfolding par_ExecuteSystemAction_def
proof (rule safe_with_machine, rule safe_flow_context, assumption, goal_cases)
  case (1 p s1 i s2)
  obtain act where act: "fmlookup (flowActions fl) a = Some act" using assms(2) by (auto simp: fmlookup_dom'_iff)
  show ?case unfolding act option.case
  proof (rule safe_load [OF 1(2)], rule conc.safe_bind [OF safe_liftR [where Q = "\<lambda>_. True"]], goal_cases)
    case (3 c s3 res s4)
    have f: "conc.safe E s4 (bindP (atomic (record_in ev)) (\<lambda>_. par_changeState F wn fid FAILED)) (\<lambda>_ _. True)" for ev
      by (rule safe_seq [OF safe_record]) (simp add: safe_changeState)
    have g: "conc.safe E s4 (bindP (par_run_system_action F wn fid a act event d) (\<lambda>_. atomic (record_in ev))) (\<lambda>_ _. True)"
      for event d ev
      by (rule safe_seq [OF safe_run_system_action [OF assms] safe_record])
    show ?case using f g by (simp add: safe_return split: sum.split prod.split)
  qed (simp_all add: assms(3))
qed

section \<open>Interleavings\<close>

lemma safe_op:
  assumes "flow_closed fl" and "about op \<subseteq> fmdom' (flowActions fl)" and "\<And>x. is_system op \<Longrightarrow> E x"
  shows "conc.safe E s (par_op F wn fid op) (\<lambda>_ _. True)"
proof (cases op)
  case (OpInit input)
  then show ?thesis using safe_seq [OF safe_Init [OF assms(1)] safe_return] by simp
next
  case (OpConsume event)
  then show ?thesis using safe_seq [OF safe_ExecuteResumeAfterWait [OF assms(1)] safe_return] by simp
qed (use assms in \<open>simp_all add: safe_execute safe_ExecuteSystemAction safe_RetryFailedAction safe_RetryTimedoutAction
    safe_ExecuteRetry safe_ExecuteResume safe_changeState\<close>)

lemma interleaved_ops_ok:
  assumes "interleave sched (map (par_op F wn fid) ops) st = (ps, st')" and "run_ok st" and "flow_closed fl"
    and "\<forall>op \<in> set ops. about op \<subseteq> fmdom' (flowActions fl)" and "set sched \<subseteq> {..<length ops}"
  shows "run_ok st' \<and> (\<forall>i < length ops. \<forall>x. ps ! i = Panics x \<longrightarrow> is_system (ops ! i))"
proof -
  have "conc.safe (\<lambda>_. is_system (ops ! i)) st (map (par_op F wn fid) ops ! i) (\<lambda>_ _. True)" if "i < length ops" for i
    using assms(4) that by (auto intro!: safe_op assms(3))
  then have "run_ok st' \<and> (\<forall>i < length ops. conc.safe (\<lambda>_. is_system (ops ! i)) st' (ps ! i) (\<lambda>_ _. True))"
    using conc.safe_interleave [OF assms(1,2), of "\<lambda>i _. is_system (ops ! i)"] assms(5) by simp
  then show ?thesis using conc.safe_simps(2) by metis
qed

end

end
