(* ===== verification/Executor_Objects.thy ===== *)
theory Executor_Objects
  imports Executors Worker_Loop Hash_Ring
begin

text \<open>
  The executors as objects: the constructors of \<open>src/shard/executor\<close>, which put a handler of theory
  \<open>Executors\<close> into a worker of theory \<open>Worker_Loop\<close>, their methods \<open>Start\<close>, \<open>Stop\<close> and
  \<open>IsRunning\<close>, and the map of executors of a shard that \<open>src/cluster/cluster.go\<close> fills. All five types have the
  same methods, so one definition of each serves them all.

  The lemmas connect the two models of an executor: the calls of theory \<open>Worker_Loop\<close> are these methods, and
  the flags of theory \<open>Hash_Ring\<close> are the flags \<open>running\<close> of the workers.
\<close>

section \<open>Constructors\<close>

record 'w Executor =
  xName :: string
  xHandle :: "('w shard_state, bool) M"
  xWorker :: Worker

definition NewUserActionExecutor :: "string \<Rightarrow> 'w Shard \<Rightarrow> 'w Executor" where
  "NewUserActionExecutor shardId sh =
     \<lparr>xName = ''user-action-executor-'' @ shardId, xHandle = userAction_handle sh, xWorker = NewWorker\<rparr>"

definition NewSystemActionExecutor :: "string \<Rightarrow> 'w Shard \<Rightarrow> 'w Executor" where
  "NewSystemActionExecutor shardId sh =
     \<lparr>xName = ''system-action-executor-'' @ shardId, xHandle = systemAction_handle sh, xWorker = NewWorker\<rparr>"

definition NewDelayExecutor :: "string \<Rightarrow> 'w Shard \<Rightarrow> 'w Executor" where
  "NewDelayExecutor shardId sh =
     \<lparr>xName = ''delay-executor-'' @ shardId, xHandle = delay_handle sh, xWorker = NewWorker\<rparr>"

definition NewRetryExecutor :: "string \<Rightarrow> 'w Shard \<Rightarrow> 'w Executor" where
  "NewRetryExecutor shardId sh =
     \<lparr>xName = ''retryexecutor-'' @ shardId, xHandle = retry_handle sh, xWorker = NewWorker\<rparr>"

definition NewTimeoutExecutor :: "string \<Rightarrow> 'w Shard \<Rightarrow> 'w Executor" where
  "NewTimeoutExecutor shardId sh =
     \<lparr>xName = ''timeout-executor-'' @ shardId, xHandle = timeout_handle sh, xWorker = NewWorker\<rparr>"

definition RegisterExecutor :: "string \<Rightarrow> 'w Executor \<Rightarrow> (string, 'w Executor) fmap \<Rightarrow> (string, 'w Executor) fmap" where
  "RegisterExecutor name ex executors = fmupd name ex executors"

definition register_executors :: "string \<Rightarrow> 'w Shard \<Rightarrow> (string, 'w Executor) fmap" where
  "register_executors shardId sh =
     RegisterExecutor ''timeout'' (NewTimeoutExecutor shardId sh)
     (RegisterExecutor ''retry'' (NewRetryExecutor shardId sh)
     (RegisterExecutor ''delay'' (NewDelayExecutor shardId sh)
     (RegisterExecutor ''system-action'' (NewSystemActionExecutor shardId sh)
     (RegisterExecutor ''user-action'' (NewUserActionExecutor shardId sh) fmempty))))"

section \<open>Methods\<close>

definition IsRunning :: "'w Executor \<Rightarrow> bool" where
  "IsRunning ex = running (xWorker ex)"

text \<open>\<open>Start\<close> up to the \<open>go\<close> statement of the worker, and \<open>Stop\<close> up to the channel: from there on they
  interleave with the goroutine.\<close>

definition worker_Start :: "Worker \<Rightarrow> Worker" where
  "worker_Start w = w\<lparr>goroutines := AtSelect # goroutines w, caller := Starting\<rparr>"

definition worker_Stop :: "Worker \<Rightarrow> Worker" where
  "worker_Stop w = w\<lparr>caller := Sending\<rparr>"

definition executor_Start :: "'w Executor \<Rightarrow> 'w Executor" where
  "executor_Start ex = (if IsRunning ex then ex else ex\<lparr>xWorker := worker_Start (xWorker ex)\<rparr>)"

definition executor_Stop :: "'w Executor \<Rightarrow> 'w Executor" where
  "executor_Stop ex = (if \<not> IsRunning ex then ex else ex\<lparr>xWorker := worker_Stop (xWorker ex)\<rparr>)"

text \<open>One turn of the goroutine that is not told to stop: the handler, and whether it sleeps after it. A
  panic of the handler ends the process.\<close>

definition worker_turn :: "'w Executor \<Rightarrow> ('w shard_state, bool) M" where
  "worker_turn ex = bindM (xHandle ex) (\<lambda>worked. ret (\<not> worked))"

lemmas executor_defs = NewUserActionExecutor_def NewSystemActionExecutor_def NewDelayExecutor_def NewRetryExecutor_def
  NewTimeoutExecutor_def

section \<open>Agreement of the models\<close>

lemma Start_is_StartCall:
  "worker_step (xWorker ex) StartCall w \<longleftrightarrow> caller (xWorker ex) = Outside \<and> w = xWorker (executor_Start ex)"
  by (auto simp: worker_step_start executor_Start_def IsRunning_def worker_Start_def)

lemma Stop_is_StopCall:
  "worker_step (xWorker ex) StopCall w \<longleftrightarrow> caller (xWorker ex) = Outside \<and> w = xWorker (executor_Stop ex)"
  by (auto simp: worker_step_stop executor_Stop_def IsRunning_def worker_Stop_def)

text \<open>A shard has the five executors of theory \<open>Hash_Ring\<close>, none of them running.\<close>

lemma registered_executors: "fmmap IsRunning (register_executors shardId sh) = new_executors"
  by (intro fmap_ext) (simp add: register_executors_def RegisterExecutor_def new_executors_def executor_names_def
      executor_defs IsRunning_def NewWorker_def)

text \<open>From a settled worker, a start or a stop that has run to its end sets the flag as theory \<open>Hash_Ring\<close> has it.\<close>

lemma started_is_running:
  assumes "settled (xWorker ex)" and "worker_steps (xWorker (executor_Start ex)) [Silent] w" and "\<not> IsRunning ex"
    and "caller w = Outside"
  shows "settled w \<and> running w"
proof -
  have "caller (xWorker ex) = Outside" using assms(1) by (simp add: settled_def)
  then have s: "worker_step (xWorker ex) StartCall (xWorker (executor_Start ex))" by (simp add: Start_is_StartCall)
  have w: "worker_step (xWorker (executor_Start ex)) Silent w"
    using assms(2) by (auto elim!: worker_steps.cases)
  show ?thesis using settled_start [OF assms(1) s] w assms(3,4) by (auto simp: IsRunning_def)
qed

lemma stopped_is_idle:
  assumes "settled (xWorker ex)" and "IsRunning ex"
  shows "\<exists>ls w. set ls \<subseteq> {Silent} \<and> worker_steps (xWorker (executor_Stop ex)) ls w \<and> settled w \<and> \<not> running w"
proof -
  have "caller (xWorker ex) = Outside" using assms(1) by (simp add: settled_def)
  then have s: "worker_step (xWorker ex) StopCall (xWorker (executor_Stop ex))" by (simp add: Stop_is_StopCall)
  have "running (xWorker ex)" using assms(2) by (simp add: IsRunning_def)
  from stop_completes [OF assms(1) this s] show ?thesis by blast
qed

end
