(* ===== verification/Tick_Worker.thy ===== *)
theory Tick_Worker
  imports Worker_Loop
begin

text \<open>
  The ticking worker of \<open>src/util/tick_worker.go\<close>, which calls a function at every tick of a timer. No
  other package uses it. It differs from the worker of theory \<open>Worker_Loop\<close> in that nothing guards
  \<open>Start\<close> and \<open>Stop\<close>, and that its goroutine waits for a tick or the stop signal. The states are those of
  theory \<open>Worker_Loop\<close>; \<open>InHandler\<close> is a goroutine in the function.
\<close>

definition NewTickWorker :: Worker where
  "NewTickWorker = \<lparr>running = False, goroutines = [], caller = Outside\<rparr>"

inductive tick_step :: "Worker \<Rightarrow> worker_label \<Rightarrow> Worker \<Rightarrow> bool" where
  tick_start: "caller w = Outside \<Longrightarrow>
    tick_step w StartCall (w\<lparr>goroutines := AtSelect # goroutines w, caller := Starting\<rparr>)"
| tick_started: "caller w = Starting \<Longrightarrow> tick_step w Silent (w\<lparr>running := True, caller := Outside\<rparr>)"
| tick_stop: "caller w = Outside \<Longrightarrow> tick_step w StopCall (w\<lparr>caller := Sending\<rparr>)"
| tick_received: "caller w = Sending \<Longrightarrow> goroutines w = xs @ AtSelect # ys \<Longrightarrow>
    tick_step w Silent (w\<lparr>goroutines := xs @ Received # ys, caller := Outside\<rparr>)"
| tick_fired: "goroutines w = xs @ AtSelect # ys \<Longrightarrow>
    tick_step w Silent (w\<lparr>goroutines := xs @ InHandler # ys\<rparr>)"
| tick_handled: "goroutines w = xs @ InHandler # ys \<Longrightarrow>
    tick_step w Silent (w\<lparr>goroutines := xs @ AtSelect # ys\<rparr>)"
| tick_returned: "goroutines w = xs @ Received # ys \<Longrightarrow>
    tick_step w Silent (w\<lparr>goroutines := xs @ ys, running := False\<rparr>)"

inductive tick_steps :: "Worker \<Rightarrow> worker_label list \<Rightarrow> Worker \<Rightarrow> bool" where
  tick_idle: "tick_steps w [] w"
| tick_more: "tick_step w l w' \<Longrightarrow> tick_steps w' ls w'' \<Longrightarrow> tick_steps w (l # ls) w''"

inductive_cases tick_stepE: "tick_step w l w'"

section \<open>What the tick worker guarantees\<close>

text \<open>The number of goroutines that serve is the number of starts less the number of stops that were
  taken; the caller of a stop that has not been taken is still waiting. So the worker must not be started
  twice, and a stop without a goroutine blocks its caller for ever.\<close>

definition alive :: "Worker \<Rightarrow> nat" where
  "alive w = length (filter (\<lambda>g. g \<noteq> Received) (goroutines w))"

definition waiting :: "Worker \<Rightarrow> nat" where
  "waiting w = (if caller w = Sending then 1 else 0)"

lemma tick_balance_step:
  "tick_step w l w' \<Longrightarrow>
   alive w' + count_list [l] StopCall + waiting w = alive w + count_list [l] StartCall + waiting w'"
  by (erule tick_stepE) (auto simp: alive_def waiting_def)

lemma tick_balance:
  "tick_steps w ls w' \<Longrightarrow>
   alive w' + count_list ls StopCall + waiting w = alive w + count_list ls StartCall + waiting w'"
  by (induction rule: tick_steps.induct) (auto dest: tick_balance_step split: if_splits)

lemma tick_serving:
  assumes "tick_steps NewTickWorker ls w" and "caller w = Outside"
  shows "alive w + count_list ls StopCall = count_list ls StartCall"
  using tick_balance [OF assms(1)] assms(2) by (simp add: alive_def waiting_def NewTickWorker_def)

lemma tick_stop_blocks:
  assumes "tick_step w l w'" and "goroutines w = []" and "caller w = Sending"
  shows "False"
  using assms by (auto elim: tick_stepE)

end
