(* ===== verification/Flow_State_Cache.thy ===== *)
theory Flow_State_Cache
  imports Model
begin

text \<open>
  The cache of flow states, \<open>src/cache/flow_state_cache.go\<close>; no other package uses it. The cache library
  (go-cache) is a parameter, and the locale \<open>go_cache\<close> states its documentation: \<open>Add\<close> adds an item only
  if its key is not in the cache, and reports an error otherwise. An item is added without expiration.
\<close>

section \<open>Definitions\<close>

record 'c cacheLib =
  cc_Add :: "string \<Rightarrow> FlowState \<Rightarrow> 'c \<Rightarrow> error option \<times> 'c"
  cc_Get :: "string \<Rightarrow> 'c \<Rightarrow> FlowState option"

text \<open>The error of \<open>Add\<close> is dropped. A state is a string, which the cache keeps as it is.\<close>

definition SaveFlowState :: "'c cacheLib \<Rightarrow> string \<Rightarrow> FlowState \<Rightarrow> 'c \<Rightarrow> 'c" where
  "SaveFlowState L fid state cache = snd (cc_Add L fid state cache)"

definition GetFlowState :: "'c cacheLib \<Rightarrow> string \<Rightarrow> 'c \<Rightarrow> FlowState \<times> bool" where
  "GetFlowState L fid cache =
     (case cc_Get L fid cache of Some state \<Rightarrow> (state, True) | None \<Rightarrow> (OtherFlowState '''', False))"

section \<open>The contract of the library\<close>

locale go_cache =
  fixes L :: "'c cacheLib" and items :: "'c \<Rightarrow> (string, FlowState) fmap"
  assumes get_item: "cc_Get L k c = fmlookup (items c) k"
    and add_new: "fmlookup (items c) k = None \<Longrightarrow> fst (cc_Add L k v c) = None \<and> items (snd (cc_Add L k v c)) = fmupd k v (items c)"
    and add_old: "fmlookup (items c) k \<noteq> None \<Longrightarrow> fst (cc_Add L k v c) \<noteq> None \<and> items (snd (cc_Add L k v c)) = items c"
begin

text \<open>The state saved first is the one that is read, whatever is saved later; other runs are not affected.\<close>

lemma first_state_kept:
  "GetFlowState L fid (SaveFlowState L fid st c) =
     (case fmlookup (items c) fid of None \<Rightarrow> (st, True) | Some st0 \<Rightarrow> (st0, True))"
  using add_new [of c fid st] add_old [of c fid st]
  by (cases "fmlookup (items c) fid") (simp_all add: GetFlowState_def SaveFlowState_def get_item)

lemma second_state_lost:
  "GetFlowState L fid (SaveFlowState L fid st2 (SaveFlowState L fid st1 c)) = GetFlowState L fid (SaveFlowState L fid st1 c)"
  using add_new [of c fid st1] add_old [of c fid st1]
    add_old [of "SaveFlowState L fid st1 c" fid st2]
  by (cases "fmlookup (items c) fid") (auto simp: GetFlowState_def SaveFlowState_def get_item)

lemma other_states_kept:
  "fid' \<noteq> fid \<Longrightarrow> GetFlowState L fid' (SaveFlowState L fid st c) = GetFlowState L fid' c"
  using add_new [of c fid st] add_old [of c fid st]
  by (cases "fmlookup (items c) fid") (simp_all add: GetFlowState_def SaveFlowState_def get_item)

end

section \<open>The library as a finite map\<close>

definition map_cache :: "(string, FlowState) fmap cacheLib" where
  "map_cache = \<lparr>cc_Add = (\<lambda>k v c. if fmlookup c k = None then (None, fmupd k v c) else (Some (ExternalError ''exists''), c)),
     cc_Get = (\<lambda>k c. fmlookup c k)\<rparr>"

interpretation map_cache: go_cache map_cache "\<lambda>c. c"
  by unfold_locales (simp_all add: map_cache_def)

end
