(* ===== verification/Rest_Server.thy ===== *)
theory Rest_Server
  imports Rest_Api
begin

text \<open>
  The routes of the HTTP server, \<open>NewServer\<close> of \<open>src/rest/server.go\<close>. Matching a path against a
  template is the work of the router (gorilla/mux): what it hands to a handler is the route it chose and the
  variables of its template, here \<open>vars\<close>. The handlers test that the variables they read are there; the
  lemmas show that with these routes the tests succeed, so the handlers never go on after such a failure.
\<close>

section \<open>Definitions\<close>

datatype handler =
    CreateFlow | GetFlowDef | CreateAction | GetAction | RunFlow | GetExecution | PauseRun | ResumeRun | SendEvent

definition routes :: "(string \<times> string \<times> handler) list" where
  "routes =
    [(''POST'', ''/metadata/workflow'', CreateFlow),
     (''GET'', ''/metadata/workflow/{name}'', GetFlowDef),
     (''POST'', ''/metadata/action'', CreateAction),
     (''GET'', ''/metadata/action/{name}'', GetAction),
     (''POST'', ''/execution'', RunFlow),
     (''GET'', ''/execution/{name}/{id}'', GetExecution),
     (''GET'', ''/execution/{name}/{id}/pause'', PauseRun),
     (''GET'', ''/execution/{name}/{id}/resume'', ResumeRun),
     (''POST'', ''/event'', SendEvent)]"

text \<open>The variables of a template, the texts between braces.\<close>

function template_vars :: "string \<Rightarrow> string list" where
  "template_vars [] = []"
| "template_vars (c # cs) =
     (if c = CHR ''{'' then takeWhile (\<lambda>d. d \<noteq> CHR ''}'') cs # template_vars (dropWhile (\<lambda>d. d \<noteq> CHR ''}'') cs)
      else template_vars cs)"
  by pat_completeness auto

termination
  by (relation "measure length") (simp_all add: less_Suc_eq_le length_dropWhile_le)

text \<open>What the router and \<open>encoding/json\<close> make of a request.\<close>

record httpRequest =
  hrVars :: "string \<Rightarrow> string option"
  hrWorkflow :: "Workflow \<times> error option"
  hrAction :: "ActionDefinition \<times> error option"
  hrRun :: "WorkflowRunRequest \<times> error option"
  hrEvent :: "WorkflowEvent \<times> error option"

text \<open>The handler of a route. \<open>newId\<close> is the id a run that is started gets.\<close>

fun serve ::
  "runtime \<Rightarrow> externals \<Rightarrow> 'w MetadataStorage \<Rightarrow> ('w, 'h) Cluster \<Rightarrow> string \<Rightarrow> handler \<Rightarrow> httpRequest \<Rightarrow>
   ('w node_state, ResponseWriter) M" where
  "serve rt ex ms c newId CreateFlow req = HandleCreateFlow rt ex ms (fst (hrWorkflow req)) (snd (hrWorkflow req))"
| "serve rt ex ms c newId GetFlowDef req = HandleGetFlow ms (hrVars req ''name'')"
| "serve rt ex ms c newId CreateAction req = HandleCreateActionDefinition ms (fst (hrAction req)) (snd (hrAction req))"
| "serve rt ex ms c newId GetAction req = HandleGetActionDefinition ms (hrVars req ''name'')"
| "serve rt ex ms c newId RunFlow req = HandleRunFlow c newId (fst (hrRun req)) (snd (hrRun req))"
| "serve rt ex ms c newId GetExecution req = HandleGetFlowExecution rt c (hrVars req ''name'') (hrVars req ''id'')"
| "serve rt ex ms c newId PauseRun req = HandlePauseFlow c (hrVars req ''name'') (hrVars req ''id'')"
| "serve rt ex ms c newId ResumeRun req = HandleResumeFlow c (hrVars req ''name'') (hrVars req ''id'')"
| "serve rt ex ms c newId SendEvent req = HandleEvent c (fst (hrEvent req)) (snd (hrEvent req))"

section \<open>The routes fit the handlers\<close>

lemma routes_unambiguous: "distinct (map (\<lambda>(m, t, h). (m, t)) routes)" "distinct (map (\<lambda>(m, t, h). h) routes)"
  by (simp_all add: routes_def)

lemma routes_complete: "(\<lambda>(m, t, h). h) ` set routes = UNIV"
proof -
  have "h \<in> (\<lambda>(m, t, h). h) ` set routes" for h by (cases h) (simp_all add: routes_def)
  then show ?thesis by auto
qed

text \<open>The variables a handler reads.\<close>

fun reads :: "handler \<Rightarrow> string list" where
  "reads GetFlowDef = [''name'']"
| "reads GetAction = [''name'']"
| "reads GetExecution = [''name'', ''id'']"
| "reads PauseRun = [''name'', ''id'']"
| "reads ResumeRun = [''name'', ''id'']"
| "reads _ = []"

lemma routes_bind: "list_all (\<lambda>(m, t, h). template_vars t = reads h) routes"
  by (simp add: routes_def)

text \<open>With its variables set, what a route answers depends on them only, and a handler that reads variables
  answers status 200 or 400.\<close>

lemma serve_reads:
  assumes "\<And>v. v \<in> set (reads h) \<Longrightarrow> hrVars req v = hrVars req' v"
    and "hrWorkflow req = hrWorkflow req'" "hrAction req = hrAction req'" "hrRun req = hrRun req'" "hrEvent req = hrEvent req'"
  shows "serve rt ex ms c newId h req = serve rt ex ms c newId h req'"
  using assms by (cases h) auto

lemmas handler_defs = HandleCreateFlow_def HandleGetFlow_def HandleCreateActionDefinition_def
  HandleGetActionDefinition_def HandleRunFlow_def HandleGetFlowExecution_def HandlePauseFlow_def
  HandleResumeFlow_def HandleEvent_def Let_def bindM_def ret_def onNode_def writer_defs

lemma serve_status:
  assumes "serve rt ex ms c newId h req s = (Val rsp, s')"
  shows "rwStatus rsp \<in> {Some 200, Some 400}" and "length (rwBody rsp) \<le> 1"
  using assms
  by (cases h; auto simp: handler_defs split: prod.splits res.splits option.splits sum.splits if_splits)+

end
