(* ===== verification/Agent_Lifecycle.thy ===== *)
theory Agent_Lifecycle
  imports Agent_Setup
begin

text \<open>
  The process: \<open>run\<close> of \<open>src/main.go\<close>, \<open>Start\<close> of \<open>src/agent/agent.go\<close> with the goroutines that serve the
  two ports, and \<open>Shutdown\<close>, which each of the three may call, as they interleave with one another and with the
  goroutine that handles the membership events. A step is one statement of one of them.

  From the libraries: \<open>ListenAndServe\<close> never returns without an error (after the server has been stopped it
  is \<open>ErrServerClosed\<close>), \<open>Serve\<close> of gRPC returns nil only after the server has been stopped.

  The lemmas show that the body of \<open>Shutdown\<close> is run once and by one thread, that it is the atomic
  \<open>Shutdown\<close> of theory \<open>Agent_Setup\<close>, that the process ends regularly only after it, and that a regular shutdown
  may end in a panic.
\<close>

section \<open>The threads\<close>

datatype thread = MainThread | HttpThread | GrpcThread

text \<open>Where a thread is in \<open>Shutdown\<close>: at the lock, or in front of a function of its list or of the wait.\<close>

datatype shutdown_pc = AtLock | AtStopCluster | AtStopHttp | AtStopGrpc | AtWait

text \<open>Where a thread is: in front of \<open>net.Listen\<close>; waiting for the signal, or serving its port; in or behind
  \<open>Shutdown\<close>; or at its end.\<close>

datatype thread_pc = AtListen | Serves | InShutdown shutdown_pc | AfterShutdown | Ended

datatype process = Alive | Exited | Crashed

record 'h life =
  lfServer :: "'h server_state"
  lfClosed :: nat
  lfLock :: "thread option"
  lfPc :: "thread \<Rightarrow> thread_pc"
  lfProcess :: process

text \<open>\<open>Start\<close> spawns the two goroutines and returns.\<close>

definition agent_Start :: "'h server_state \<Rightarrow> 'h life" where
  "agent_Start s = \<lparr>lfServer = s, lfClosed = 0, lfLock = None,
     lfPc = (\<lambda>t. if t = GrpcThread then AtListen else Serves), lfProcess = Alive\<rparr>"

text \<open>\<open>run\<close> up to the wait for the signal: an error of \<open>New\<close> is a panic.\<close>

definition cli_run :: "'w agentEnv \<Rightarrow> 'h consistentLib \<Rightarrow> (int list \<Rightarrow> int list) \<Rightarrow> Config \<Rightarrow> 'h life res" where
  "cli_run ev L shuffle conf =
     (case Agent_New ev L shuffle conf :: (error + ('w, 'h) Agent) res of
        Panic p \<Rightarrow> Panic p
      | Val (Inl err) \<Rightarrow> Panic PanicCall
      | Val (Inr a) \<Rightarrow> Val (agent_Start \<lparr>svShutdown = False,
          svCluster = new_cluster_state L (PartitionCount (cfgCluster conf)), 
          svHttp = (agHttpServer a \<noteq> None), svGrpc = (agGrpcServer a \<noteq> None)\<rparr>))"

definition goto :: "thread \<Rightarrow> thread_pc \<Rightarrow> 'h life \<Rightarrow> 'h life" where
  "goto t pc s = s\<lparr>lfPc := (lfPc s)(t := pc)\<rparr>"

section \<open>The statements of Shutdown\<close>

text \<open>\<open>Stop\<close> of the HTTP server, which returns nil also when the library could not end all requests in time.\<close>

definition http_Stop :: "'h server_state \<Rightarrow> 'h server_state" where
  [simp]: "http_Stop s = s\<lparr>svHttp := False\<rparr>"

text \<open>The function of the list that a thread is in front of, and where it goes from there.\<close>

fun shutdown_stop :: "shutdown_pc \<Rightarrow> 'h server_state \<Rightarrow> 'h server_state" where
  "shutdown_stop AtStopCluster s = s\<lparr>svCluster := (svCluster s)\<lparr>csShards := cluster_Stop (csShards (svCluster s))\<rparr>\<rparr>"
| "shutdown_stop AtStopHttp s = http_Stop s"
| "shutdown_stop AtStopGrpc s = s\<lparr>svGrpc := False\<rparr>"
| "shutdown_stop _ s = s"

fun shutdown_next :: "shutdown_pc \<Rightarrow> shutdown_pc" where
  "shutdown_next AtStopCluster = AtStopHttp"
| "shutdown_next AtStopHttp = AtStopGrpc"
| "shutdown_next _ = AtWait"

text \<open>A fault is an error that no shutdown has caused; \<open>Step\<close> is all else that the three threads do.\<close>

datatype life_label = Signal | Fault | MemberEvent | Step

inductive life_step ::
  "'h consistentLib \<Rightarrow> (int list \<Rightarrow> int list) \<Rightarrow> string \<Rightarrow> 'h life \<Rightarrow> life_label \<Rightarrow> 'h life \<Rightarrow> bool"
  for L :: "'h consistentLib" and shuffle :: "int list \<Rightarrow> int list" and me :: string where
  signal: "lfProcess s = Alive \<Longrightarrow> lfPc s MainThread = Serves \<Longrightarrow>
    life_step L shuffle me s Signal (goto MainThread (InShutdown AtLock) s)"
| http_fails: "lfProcess s = Alive \<Longrightarrow> lfPc s HttpThread = Serves \<Longrightarrow>
    life_step L shuffle me s (if svHttp (lfServer s) then Fault else Step) (goto HttpThread (InShutdown AtLock) s)"
| listen_fails: "lfProcess s = Alive \<Longrightarrow> lfPc s GrpcThread = AtListen \<Longrightarrow>
    life_step L shuffle me s Fault (s\<lparr>lfProcess := Crashed\<rparr>)"
| listens: "lfProcess s = Alive \<Longrightarrow> lfPc s GrpcThread = AtListen \<Longrightarrow>
    life_step L shuffle me s Step (goto GrpcThread Serves s)"
| grpc_fails: "lfProcess s = Alive \<Longrightarrow> lfPc s GrpcThread = Serves \<Longrightarrow>
    life_step L shuffle me s (if svGrpc (lfServer s) then Fault else Step) (goto GrpcThread (InShutdown AtLock) s)"
| grpc_stopped: "lfProcess s = Alive \<Longrightarrow> lfPc s GrpcThread = Serves \<Longrightarrow> \<not> svGrpc (lfServer s) \<Longrightarrow>
    life_step L shuffle me s Step (goto GrpcThread Ended s)"
| locks: "lfProcess s = Alive \<Longrightarrow> lfPc s t = InShutdown AtLock \<Longrightarrow> lfLock s = None \<Longrightarrow> \<not> svShutdown (lfServer s) \<Longrightarrow>
    life_step L shuffle me s Step (goto t (InShutdown AtStopCluster)
      (s\<lparr>lfServer := (lfServer s)\<lparr>svShutdown := True\<rparr>, lfClosed := Suc (lfClosed s), lfLock := Some t\<rparr>))"
| was_shut_down: "lfProcess s = Alive \<Longrightarrow> lfPc s t = InShutdown AtLock \<Longrightarrow> lfLock s = None \<Longrightarrow> svShutdown (lfServer s) \<Longrightarrow>
    life_step L shuffle me s Step (goto t AfterShutdown s)"
| stops: "lfProcess s = Alive \<Longrightarrow> lfPc s t = InShutdown p \<Longrightarrow> p \<in> {AtStopCluster, AtStopHttp, AtStopGrpc} \<Longrightarrow>
    life_step L shuffle me s Step (goto t (InShutdown (shutdown_next p)) (s\<lparr>lfServer := shutdown_stop p (lfServer s)\<rparr>))"
| unlocks: "lfProcess s = Alive \<Longrightarrow> lfPc s t = InShutdown AtWait \<Longrightarrow> serving_shards (csShards (svCluster (lfServer s))) = {} \<Longrightarrow>
    life_step L shuffle me s Step (goto t AfterShutdown (s\<lparr>lfLock := None\<rparr>))"
| exits: "lfProcess s = Alive \<Longrightarrow> lfPc s MainThread = AfterShutdown \<Longrightarrow>
    life_step L shuffle me s Step (s\<lparr>lfProcess := Exited\<rparr>)"
| panics: "lfProcess s = Alive \<Longrightarrow> t \<noteq> MainThread \<Longrightarrow> lfPc s t = AfterShutdown \<Longrightarrow>
    life_step L shuffle me s Step (s\<lparr>lfProcess := Crashed\<rparr>)"
| member_event: "lfProcess s = Alive \<Longrightarrow> handle_event L shuffle me e (svCluster (lfServer s)) = (Val x, c) \<Longrightarrow>
    life_step L shuffle me s MemberEvent (s\<lparr>lfServer := (lfServer s)\<lparr>svCluster := c\<rparr>\<rparr>)"
| member_panic: "lfProcess s = Alive \<Longrightarrow> handle_event L shuffle me e (svCluster (lfServer s)) = (Panic x, c) \<Longrightarrow>
    life_step L shuffle me s MemberEvent (s\<lparr>lfServer := (lfServer s)\<lparr>svCluster := c\<rparr>, lfProcess := Crashed\<rparr>)"

inductive life_steps ::
  "'h consistentLib \<Rightarrow> (int list \<Rightarrow> int list) \<Rightarrow> string \<Rightarrow> 'h life \<Rightarrow> life_label list \<Rightarrow> 'h life \<Rightarrow> bool"
  for L :: "'h consistentLib" and shuffle :: "int list \<Rightarrow> int list" and me :: string where
  life_idle: "life_steps L shuffle me s [] s"
| life_more: "life_step L shuffle me s l s' \<Longrightarrow> life_steps L shuffle me s' ls s'' \<Longrightarrow> life_steps L shuffle me s (l # ls) s''"

inductive_cases life_stepE: "life_step L shuffle me s l s'"

lemma life_steps_trans:
  "life_steps L shuffle me s ls s' \<Longrightarrow> life_steps L shuffle me s' ms s'' \<Longrightarrow> life_steps L shuffle me s (ls @ ms) s''"
  by (induction rule: life_steps.induct) (auto intro: life_steps.intros)

section \<open>The invariant\<close>

text \<open>The holder of the lock is the only thread in the body, the channel is closed once the flag is set, and the
  servers are stopped in the order of the list.\<close>

fun in_body :: "thread_pc \<Rightarrow> bool" where
  "in_body (InShutdown p) \<longleftrightarrow> p \<noteq> AtLock"
| "in_body _ \<longleftrightarrow> False"

definition shut :: "'h life \<Rightarrow> bool" where
  "shut s \<longleftrightarrow> svShutdown (lfServer s) \<and> \<not> svHttp (lfServer s) \<and> \<not> svGrpc (lfServer s)"

definition life_inv :: "'h life \<Rightarrow> bool" where
  "life_inv s \<longleftrightarrow>
     (\<forall>t. in_body (lfPc s t) \<longleftrightarrow> lfLock s = Some t) \<and>
     lfClosed s = (if svShutdown (lfServer s) then 1 else 0) \<and>
     (lfLock s \<noteq> None \<longrightarrow> svShutdown (lfServer s)) \<and>
     (\<forall>t. lfPc s t \<in> {InShutdown AtStopGrpc, InShutdown AtWait} \<longrightarrow> \<not> svHttp (lfServer s)) \<and>
     (\<forall>t. lfPc s t = InShutdown AtWait \<longrightarrow> \<not> svGrpc (lfServer s)) \<and>
     (lfLock s = None \<longrightarrow> svShutdown (lfServer s) \<longrightarrow> shut s) \<and>
     (\<forall>t. lfPc s t = AfterShutdown \<longrightarrow> lfLock s = None \<and> shut s) \<and>
     (lfProcess s = Exited \<longrightarrow> shut s)"

lemma life_inv_Start: "\<not> svShutdown s \<Longrightarrow> life_inv (agent_Start s)"
  by (simp add: life_inv_def agent_Start_def)

text \<open>A thread moves outside the body.\<close>

lemma life_inv_goto:
  assumes "life_inv s" and "\<not> in_body (lfPc s t)" and "\<not> in_body pc" and "pc = AfterShutdown \<Longrightarrow> lfLock s = None \<and> shut s"
  shows "life_inv (goto t pc s)"
proof -
  have "lfLock s \<noteq> Some t" using assms(1,2) by (simp add: life_inv_def)
  moreover have "pc \<noteq> InShutdown AtStopGrpc" "pc \<noteq> InShutdown AtWait" using assms(3) by auto
  ultimately show ?thesis using assms by (auto simp: life_inv_def goto_def shut_def)
qed

text \<open>The holder of the lock excludes all others.\<close>

lemma life_inv_others:
  assumes "life_inv s" and "in_body (lfPc s t)"
  shows "lfLock s = Some t" and "svShutdown (lfServer s)" and "u \<noteq> t \<Longrightarrow> \<not> in_body (lfPc s u)" and "lfPc s u \<noteq> AfterShutdown"
  using assms by (auto simp: life_inv_def)

lemma life_inv_lock:
  assumes "life_inv s" and "lfPc s t = InShutdown AtLock" and "lfLock s = None" and "\<not> svShutdown (lfServer s)" and "lfProcess s = Alive"
  shows "life_inv (goto t (InShutdown AtStopCluster)
    (s\<lparr>lfServer := (lfServer s)\<lparr>svShutdown := True\<rparr>, lfClosed := Suc (lfClosed s), lfLock := Some t\<rparr>))"
  using assms by (auto simp: life_inv_def goto_def shut_def)

lemma life_inv_stop:
  assumes "life_inv s" and "lfPc s t = InShutdown p" and "p \<in> {AtStopCluster, AtStopHttp, AtStopGrpc}" and "lfProcess s = Alive"
  shows "life_inv (goto t (InShutdown (shutdown_next p)) (s\<lparr>lfServer := shutdown_stop p (lfServer s)\<rparr>))"
proof -
  have b: "in_body (lfPc s t)" using assms(2,3) by auto
  note others = life_inv_others [OF assms(1) b]
  have "lfPc s u \<noteq> InShutdown AtStopGrpc" "lfPc s u \<noteq> InShutdown AtWait" if "u \<noteq> t" for u
    using others(3) [OF that] by auto
  then show ?thesis using assms others by (auto simp: life_inv_def goto_def)
qed

lemma life_inv_unlock:
  assumes "life_inv s" and "lfPc s t = InShutdown AtWait" and "lfProcess s = Alive"
  shows "life_inv (goto t AfterShutdown (s\<lparr>lfLock := None\<rparr>))"
proof -
  have b: "in_body (lfPc s t)" using assms(2) by simp
  note others = life_inv_others [OF assms(1) b]
  show ?thesis using assms others by (auto simp: life_inv_def goto_def shut_def)
qed

lemma life_inv_step: "life_step L shuffle me s l s' \<Longrightarrow> life_inv s \<Longrightarrow> life_inv s'"
proof (induction rule: life_step.induct)
  case (locks s t)
  then show ?case by (intro life_inv_lock)
next
  case (stops s t p)
  then show ?case by (intro life_inv_stop)
next
  case (unlocks s t)
  then show ?case by (intro life_inv_unlock)
next
  case (was_shut_down s t)
  then show ?case by (intro life_inv_goto) (simp_all add: life_inv_def)
next
  case (exits s)
  then have "shut s" by (auto simp: life_inv_def)
  then show ?case using exits by (simp add: life_inv_def shut_def)
qed (auto intro: life_inv_goto, auto simp: life_inv_def shut_def)

lemma life_inv_steps: "life_steps L shuffle me s ls s' \<Longrightarrow> life_inv s \<Longrightarrow> life_inv s'"
  by (induction rule: life_steps.induct) (auto intro: life_inv_step)

section \<open>What the process guarantees\<close>

text \<open>The body of \<open>Shutdown\<close>, run without an interruption, is the \<open>Shutdown\<close> of theory \<open>Agent_Setup\<close>.\<close>

lemma Shutdown_runs:
  assumes "lfProcess s = Alive" and "lfPc s t = InShutdown AtLock" and "lfLock s = None" and "\<not> svShutdown (lfServer s)"
    and "serving_shards (cluster_Stop (csShards (svCluster (lfServer s)))) = {}"
  shows "life_steps L shuffle me s [Step, Step, Step, Step, Step]
    (goto t AfterShutdown (s\<lparr>lfServer := Shutdown (lfServer s), lfClosed := Suc (lfClosed s)\<rparr>))"
proof -
  let ?s1 = "goto t (InShutdown AtStopCluster)
      (s\<lparr>lfServer := (lfServer s)\<lparr>svShutdown := True\<rparr>, lfClosed := Suc (lfClosed s), lfLock := Some t\<rparr>)"
  let ?n = "\<lambda>p s. goto t (InShutdown (shutdown_next p)) (s\<lparr>lfServer := shutdown_stop p (lfServer s)\<rparr>)"
  let ?s4 = "?n AtStopGrpc (?n AtStopHttp (?n AtStopCluster ?s1))"
  let ?s5 = "goto t AfterShutdown (?s4\<lparr>lfLock := None\<rparr>)"
  have a: "life_step L shuffle me s Step ?s1" using assms by (intro locks)
  have b: "life_step L shuffle me ?s1 Step (?n AtStopCluster ?s1)"
    by (rule stops) (simp_all add: goto_def assms)
  have c: "life_step L shuffle me (?n AtStopCluster ?s1) Step (?n AtStopHttp (?n AtStopCluster ?s1))"
    by (rule stops) (simp_all add: goto_def assms)
  have d: "life_step L shuffle me (?n AtStopHttp (?n AtStopCluster ?s1)) Step ?s4"
    by (rule stops) (simp_all add: goto_def assms)
  have e: "life_step L shuffle me ?s4 Step ?s5"
    by (rule unlocks) (simp_all add: goto_def assms)
  have "?s5 = goto t AfterShutdown (s\<lparr>lfServer := Shutdown (lfServer s), lfClosed := Suc (lfClosed s)\<rparr>)"
    using assms(3,4) by (cases s) (simp add: goto_def Shutdown_def)
  then show ?thesis using life_more [OF a life_more [OF b life_more [OF c life_more [OF d life_more [OF e life_idle]]]]] by simp
qed

text \<open>A regular shutdown: after the signal and an uninterrupted \<open>Shutdown\<close>, the process can exit. But stopping
  the HTTP server has ended \<open>ListenAndServe\<close>, and its goroutine takes every end for an error: it calls
  \<open>Shutdown\<close>, which returns at once, and panics, if the main thread has not yet returned.\<close>

lemma shutdown_may_panic:
  assumes "\<not> svShutdown s" and "serving_shards (cluster_Stop (csShards (svCluster s))) = {}"
  shows "\<exists>s1. life_steps L shuffle me (agent_Start s) (Signal # replicate 5 Step) s1 \<and> lfServer s1 = Shutdown s \<and>
    (\<exists>s2. life_steps L shuffle me s1 [Step] s2 \<and> lfProcess s2 = Exited) \<and>
    (\<exists>s3. life_steps L shuffle me s1 [Step, Step, Step] s3 \<and> lfProcess s3 = Crashed)"
proof -
  let ?s0 = "goto MainThread (InShutdown AtLock) (agent_Start s)"
  let ?s1 = "goto MainThread AfterShutdown (?s0\<lparr>lfServer := Shutdown (lfServer ?s0), lfClosed := Suc (lfClosed ?s0)\<rparr>)"
  have p: "lfProcess ?s1 = Alive" "lfPc ?s1 HttpThread = Serves" "lfPc ?s1 MainThread = AfterShutdown" "lfServer ?s1 = Shutdown s"
    "lfLock ?s1 = None" "svShutdown (Shutdown s)" "\<not> svHttp (Shutdown s)"
    using assms(1) by (simp_all add: goto_def agent_Start_def Shutdown_def)
  have "life_step L shuffle me (agent_Start s) Signal ?s0" by (rule signal) (simp_all add: agent_Start_def)
  moreover have "life_steps L shuffle me ?s0 [Step, Step, Step, Step, Step] ?s1"
    by (rule Shutdown_runs) (use assms in \<open>simp_all add: goto_def agent_Start_def\<close>)
  ultimately have 1: "life_steps L shuffle me (agent_Start s) (Signal # replicate 5 Step) ?s1"
    by (simp add: life_more numeral_eq_Suc)
  have 2: "life_steps L shuffle me ?s1 [Step] (?s1\<lparr>lfProcess := Exited\<rparr>)"
    using life_more [OF exits [OF p(1,3)] life_idle] .
  let ?h1 = "goto HttpThread (InShutdown AtLock) ?s1" and ?h2 = "goto HttpThread AfterShutdown (goto HttpThread (InShutdown AtLock) ?s1)"
  have a: "life_step L shuffle me ?s1 Step ?h1" using http_fails [OF p(1,2)] p(4,7) by simp
  have b: "life_step L shuffle me ?h1 Step ?h2"
    by (rule was_shut_down) (use assms(1) in \<open>simp_all add: goto_def agent_Start_def Shutdown_def\<close>)
  have c: "life_step L shuffle me ?h2 Step (?h2\<lparr>lfProcess := Crashed\<rparr>)"
    by (rule panics [where t = HttpThread]) (simp_all add: goto_def agent_Start_def)
  have 3: "life_steps L shuffle me ?s1 [Step, Step, Step] (?h2\<lparr>lfProcess := Crashed\<rparr>)"
    using life_more [OF a life_more [OF b life_more [OF c life_idle]]] .
  from 1 2 3 p(4) show ?thesis by (intro exI conjI) (assumption, simp, assumption, simp, assumption, simp)
qed

text \<open>The main thread waits for the signal.\<close>

lemma waits_for_signal_step:
  "life_step L shuffle me s l s' \<Longrightarrow> l \<noteq> Signal \<Longrightarrow> lfPc s MainThread = Serves \<and> lfProcess s \<noteq> Exited \<Longrightarrow>
   lfPc s' MainThread = Serves \<and> lfProcess s' \<noteq> Exited"
  by (erule life_stepE) (auto simp: goto_def)

lemma waits_for_signal:
  "life_steps L shuffle me s ls s' \<Longrightarrow> Signal \<notin> set ls \<Longrightarrow> lfPc s MainThread = Serves \<and> lfProcess s \<noteq> Exited \<Longrightarrow>
   lfPc s' MainThread = Serves \<and> lfProcess s' \<noteq> Exited"
proof (induction rule: life_steps.induct)
  case (life_more s l s' ls s'')
  then show ?case using waits_for_signal_step [OF life_more.hyps(1)] by auto
qed

end
