(* ===== verification/Spec2Isabelle.thy ===== *)
theory Spec2Isabelle
  imports Reference_Node Redis_Services Worker_Loop Agent_Setup Concurrent_Alone Concurrent_Types
    Executor_Objects Tick_Worker Flow_State_Cache Rest_Server Agent_Lifecycle
begin

text \<open>
  \<^bold>\<open>A verification of orchy, a distributed workflow engine written in Go.\<close>

  \<^bold>\<open>The program.\<close> A client registers workflows (graphs of actions) and the definitions of user actions, starts
  runs, pauses and resumes them and sends events, over HTTP (\<open>src/rest\<close>). Workers poll for user
  actions and push results over gRPC (\<open>src/rpc\<close>). Both go through \<open>src/service\<close> to the cluster
  (\<open>src/cluster\<close>), which routes a run to the shard its id hashes to. A shard (\<open>src/shard\<close>) has an
  engine, which keeps the context of every run and decides which actions are dispatched, and five executors:
  goroutines that take user actions, system actions, expired delays, retries and timeouts out of the
  queues of the shard. Contexts and queues are in Redis (\<open>src/persistence/redis\<close>), together with the
  definitions, which \<open>src/metadata\<close> validates and compiles. A hash ring that follows the membership of the
  cluster decides which node runs the executors of which shard.

  \<^bold>\<open>The theories, from the bottom.\<close>
  \<^item> \<open>Prelude\<close>, \<open>Effects\<close>: Go values that may panic (\<open>res\<close>), 64-bit arithmetic, iteration over a map in an
    arbitrary order, stateful code (\<open>M\<close>) with total triples.
  \<^item> \<open>Slices\<close> (\<open>src/util/slice.go\<close>), \<open>Go_Strings\<close> (the string functions of Go's library that orchy calls),
    \<open>Model\<close> (\<open>src/model\<close>), \<open>Param_Resolver\<close> (\<open>src/util/param_resolver.go\<close>), \<open>Actions\<close> (\<open>src/action\<close>),
    \<open>Flow_Def\<close> (\<open>src/flow\<close>), \<open>Metadata\<close> (\<open>src/metadata\<close>).
  \<^item> \<open>State_Machine\<close>, \<open>Container\<close> (\<open>src/shard/flow.go\<close>, \<open>src/shard/state_change_handlers.go\<close>, \<open>src/analytics\<close>),
    \<open>Storage_Spec\<close> (the interface of \<open>src/shard/shard.go\<close>), \<open>Engine\<close> (\<open>src/shard/engine.go\<close>).
  \<^item> \<open>Flow_Spec\<close>: the specification of a run, a labelled transition system on what a client can see of it.
    \<open>Engine_Frame\<close>, \<open>Engine_Refinement\<close>: the engine refines it over any storage that keeps the contract.
  \<^item> \<open>Redis\<close> (the documented effect of the commands), \<open>Redis_Storage\<close>, \<open>Redis_Metadata\<close>, \<open>External_Queue\<close>
    (the files of \<open>src/persistence/redis\<close>), \<open>Runs\<close> (sequences of operations on Redis).
  \<^item> \<open>Resumptions\<close>: goroutines that take turns on a state they share, with rules for invariants.
    \<open>Concurrent_Engine\<close>: every operation of \<open>src/shard/engine.go\<close> as such a goroutine, with the state machines and the
    contexts of a run on a heap. \<open>Concurrent_Alone\<close>: an operation that is not interrupted is that of \<open>Engine\<close>.
    \<open>Concurrent_Types\<close>: what survives every interleaving.
  \<^item> \<open>Executors\<close>, \<open>Redis_Node\<close>, \<open>Executor_Objects\<close> (\<open>src/shard/executor\<close>: the handlers, on Redis, and the objects around
    them), \<open>Worker_Loop\<close> (\<open>src/util/worker.go\<close>), \<open>Tick_Worker\<close> (\<open>src/util/tick_worker.go\<close>).
  \<^item> \<open>Hash_Ring\<close> (\<open>src/cluster/ring.go\<close>, \<open>src/cluster/membership.go\<close>), \<open>Cluster\<close>, \<open>Redis_Cluster\<close>
    (\<open>src/cluster/cluster.go\<close>).
  \<^item> \<open>Services\<close>, \<open>Redis_Services\<close> (\<open>src/service\<close>, \<open>src/rpc/api.go\<close>), \<open>Rest_Api\<close>, \<open>Rest_Server\<close> (\<open>src/rest\<close>: the
    handlers and the routes), \<open>Flow_State_Cache\<close> (\<open>src/cache\<close>).
  \<^item> \<open>Configuration\<close> (\<open>src/config\<close>, \<open>src/main.go\<close>), \<open>Agent_Setup\<close> (\<open>src/agent\<close>: the set-up of a node),
    \<open>Agent_Lifecycle\<close> (the threads of the process from \<open>Start\<close> to \<open>Shutdown\<close>).
  \<^item> \<open>Reference_Redis\<close>, \<open>Reference_Node\<close>: a small Redis server, encodings, a workflow and a node of four shards,
    on which the contracts hold together and on which the theorems are applied.

  A definition has the name of the function it models; where two Go packages use one name, the name carries
  its receiver first (\<open>cluster_Init\<close>, \<open>service_Poll\<close>, \<open>rpc_Poll\<close>). A struct is a record, an interface a
  record of operations, an error an \<open>error option\<close>, a panic the value \<open>Panic\<close>, after which the effects before it
  remain. State is passed explicitly: the world \<open>'w\<close> (Redis and the clock), the cache of state machines of
  a shard, and the collector of the analytics.

  \<^bold>\<open>Interfaces.\<close> What one part relies on in another is a locale:
  \<open>flow_store\<close> (storage of contexts), \<open>engine_env\<close> and \<open>engine_run\<close> (storage and definitions, for a run),
  \<open>engine_frame\<close> (a relation that all storage calls keep), \<open>shared\<close> (a state that several goroutines change, instantiated by a
  \<open>sublocale\<close> of \<open>engine_run\<close>), \<open>action_queues\<close> (the queues of the executors),
  \<open>external_queue\<close> and \<open>cluster_queues\<close> (the queues of the workers, of one shard and of a node).
  The Redis theories provide them by \<open>sublocale\<close> for the model of the source:
  \<open>redis_store\<close>, \<open>redis_metadata\<close>, \<open>redis_queue\<close>, \<open>redis_deployment\<close>, \<open>redis_run\<close>, \<open>redis_node\<close>, \<open>redis_cluster\<close>.
  What remains assumed is documented behaviour of code outside the repository: \<open>redis_server\<close> (a command that
  succeeds has its effect; one that reports an error may have been executed or not), \<open>flow_codec\<close> (decoding an
  encoded context gives it back up to its data), \<open>consistent_hash\<close> (every partition has an owner among the
  members, determined by the members, and the partition of a key does not depend on them) and \<open>go_cache\<close> (adding an item
  under a key that is taken changes nothing).

  \<^bold>\<open>Parameters.\<close> The Redis client, JSON and protobuf, jsonpath, the javascript engine, the consistent-hashing
  library, the membership library, viper, fresh ids, the numbers drawn for the shuffle and the order in which Go
  iterates over a map; of the shuffle and of that order only that they permute is used (\<open>perm_fun\<close>, \<open>fair\<close>), which
  \<open>Slices\<close> shows for \<open>Shuffle\<close> whatever is drawn.

  \<^bold>\<open>Fuel.\<close> The only loop that may not end is the recursion of \<open>walk\<close> over the workflow graph. Its argument is
  the depth of the stack, \<open>maxDepth\<close>; running out of it is the panic of Go's stack limit. C12 shows that on an
  acyclic workflow a depth of the number of actions is enough, and that on a cyclic one no depth is.

  \<^bold>\<open>What is shown.\<close>
  \<^item> Runs (C1 to C7, C23, C24): the engine, alone and behind a cluster, refines the specification of a run, whatever
    fails; executed actions are executed once, finished runs stay finished, a completed run has executed the leaves
    of a resolution of the graph, a run with nothing scheduled is complete, contexts stay well typed, and repeated
    results change nothing.
  \<^item> Operations that interleave (C8 to C10): without an interruption every operation is the sequential one; no
    interleaving leaves an ill-typed context or makes an operation panic, unless the system action it runs does; but
    an interleaving can lose a result or a pause and schedule an executed action again.
  \<^item> Definitions (C11 to C14, C35): terminal combinations are exactly the outcomes of the graph, compiling
    ends if and only if the graph has no cycle, validation accepts the well-formed workflows, and what it misses.
  \<^item> Storage and queues (C15 to C19, C25 to C27): contexts are read back, dispatching is atomic, messages are
    parsed back (and when not), retries become due, actions are not lost between polling and
    acknowledging, a poll delivers every queued action at most once and fills its batch.
  \<^item> Goroutines and membership (C28 to C33): one goroutine per executor, stops can complete, every partition is
    served by exactly one node, and the races and panics the code allows.
  \<^item> The interfaces of the server (C34 to C37): statuses and reports agree with the stored runs; and an error
    that is dropped.
  \<^item> Events, errors and bounds of the engine (C20 to C22, C38).
  \<^item> The life of a node (C39, C40): a shutdown is run once and by one thread, and what can undo it.

  \<^bold>\<open>Not modelled.\<close> Operations interleave at their calls of the storage, of the container and of the state
  machine; an overlap of two such calls on one object is a data race, to which Go's memory model gives no meaning.
  C1 to C7 are about operations in sequence. A panic of a handler's goroutine is a value, after which the state is
  still described, and not the end of the process. Logging, the log file of the analytics, the transport of
  HTTP and gRPC with the matching of paths, the interceptors and the middleware (of \<open>src/rpc/server.go\<close> only what the server is
  made of), \<open>main\<close>, which hands \<open>setupConfig\<close> and \<open>run\<close> to the command-line library, and the generated code of \<open>src/api\<close>.
  Accessors that only return a field are field selections. The request structs of \<open>src/model/flow.go\<close> that no package
  uses are left out.
\<close>

section \<open>The engine and its specification\<close>

text \<open>C1. Every operation of the flow engine on a Redis deployment, started in a state whose cached
  machine and stored definition agree with the flow of the run, changes the stored context of the run
  only by a sequence of the specification's steps permitted for that operation, leaves every other
  stored context alone and re-establishes the agreement: also when storage calls fail (with or
  without effect) and when the operation panics.\<close>

theorem engine_refines_spec:
  assumes "redis_deployment r db img m" and "fair rt" and "build_flow rt wfl fid = Val fl"
    and "coherent (\<lambda>w. redis_defs m (db w)) wn fid wfl fl s"
  shows "refines_run (\<lambda>w. redis_contexts r (db w)) fl wn fid (labels_of op) s
      (snd (run_op (redis_engine r m rt ex) wn fid op s)) \<and>
    coherent (\<lambda>w. redis_defs m (db w)) wn fid wfl fl (snd (run_op (redis_engine r m rt ex) wn fid op s))"
  using redis_op_refines [OF assms] by blast

theorem engine_refines_spec_witness:
  "refines_run (\<lambda>w. redis_contexts ref_storage (refKeys w)) demo_flow ''demo'' ''f1'' {Start} ref_state0
      (snd (run_op (ref_engine ref_ext) ''demo'' ''f1'' (OpInit None) ref_state0))"
  using engine_refines_spec [OF ref_dep.redis_deployment_axioms ref_rt_fair demo_compiled ref_state0_coherent,
      of "OpInit None" ref_ext]
  by (simp add: ref_engine_def)





text \<open>C4. A completed or failed run keeps its state, its executed and its scheduled actions and its event
  under every sequence of operations that neither restarts nor pauses it.\<close>

theorem terminal_states_absorbing:
  assumes "redis_deployment r db img m" and "fair rt" and "build_flow rt wfl fid = Val fl"
    and "coherent (\<lambda>w. redis_defs m (db w)) wn fid wfl fl s"
    and "redis_contexts r (db (world s)) (wn, fid) = Some c"
    and "redis_contexts r (db (world (run_ops (redis_engine r m rt ex) wn fid ops s))) (wn, fid) = Some c'"
    and "\<forall>op \<in> set ops. \<not> starts_op op" and "OpPause \<notin> set ops" and "terminal_state (State c)"
  shows "view_of c' = view_of c"
  using redis_run.ops_terminal [OF redis_run.intro [OF assms(1) redis_run_axioms.intro [OF assms(2-4)]] assms(5-9)] .

theorem terminal_states_absorbing_witness:
  "\<exists>c c'. ref_stored (ref_after [OpInit None, OpExecute ''default'' 1 None, OpExecute ''default'' 2 None,
        OpExecute ''default'' 3 None]) = Some c \<and>
     ref_stored (run_ops (ref_engine ref_ext) ''demo'' ''f1'' [OpResume ''default''] (ref_after [OpInit None,
        OpExecute ''default'' 1 None, OpExecute ''default'' 2 None, OpExecute ''default'' 3 None])) = Some c' \<and>
     State c = COMPLETED \<and> view_of c' = view_of c"
proof -
  let ?s = "ref_after [OpInit None, OpExecute ''default'' 1 None, OpExecute ''default'' 2 None, OpExecute ''default'' 3 None]"
  let ?s' = "run_ops (ref_engine ref_ext) ''demo'' ''f1'' [OpResume ''default''] ?s"
  have "map_option State (ref_stored ?s) = Some COMPLETED" by code_simp
  then obtain c where c: "ref_stored ?s = Some c" "State c = COMPLETED" by (cases "ref_stored ?s") auto
  have "ref_stored ?s' \<noteq> None" by code_simp
  then obtain c' where c': "ref_stored ?s' = Some c'" by auto
  have "view_of c' = view_of c"
    by (rule terminal_states_absorbing [OF ref_setting c(1) [unfolded ref_stored_def]
          c' [unfolded ref_stored_def ref_engine_def]]) (simp_all add: starts_op_def c(2))
  then show ?thesis using c c' by blast
qed





text \<open>C7. Contexts are well typed: after any sequence of operations on a run of a validated workflow, the stored
  context mentions only actions of the workflow and its state is one of the six; and therefore moving forward
  from any scheduled action does not panic.\<close>

theorem contexts_stay_well_typed:
  assumes "redis_deployment r db img m" and "fair rt" and "build_flow rt wfl fid = Val fl"
    and "coherent (\<lambda>w. redis_defs m (db w)) wn fid wfl fl s" and "well_formed wfl"
    and "\<And>c. redis_contexts r (db (world s)) (wn, fid) = Some c \<Longrightarrow> typed_view fl (view_of c)"
    and "redis_contexts r (db (world (run_ops (redis_engine r m rt ex) wn fid ops s))) (wn, fid) = Some c'"
  shows "fmdom' (CurrentActionIds c') \<subseteq> fmdom' (flowActions fl) \<and> fmdom' (ExecutedActions c') \<subseteq> fmdom' (flowActions fl) \<and>
    State c' \<in> {RUNNING, FAILED, COMPLETED, WAITING_DELAY, WAITING_EVENT, PAUSED} \<and>
    (\<forall>a \<in> fmdom' (CurrentActionIds c'). \<exists>res. MoveForward rt (NewFlowStateMachine wn fid c' fl) a event d = Val res)"
proof -
  have t: "typed_view fl (view_of c')"
    using redis_run.ops_typed [OF redis_run.intro [OF assms(1) redis_run_axioms.intro [OF assms(2-4)]] assms(6,7,5)] .
  have "\<exists>res. MoveForward rt (NewFlowStateMachine wn fid c' fl) a event d = Val res"
    if "a \<in> fmdom' (CurrentActionIds c')" for a
    using MoveForward_returns [of a "NewFlowStateMachine wn fid c' fl"] t that
    by (auto simp: typed_view_def NewFlowStateMachine_def)
  then show ?thesis using t by (cases "State c'") (auto simp: typed_view_def)
qed

theorem contexts_stay_well_typed_witness:
  "\<exists>c. ref_stored (ref_after [OpInit None, OpExecute ''default'' 1 None]) = Some c \<and>
     (\<exists>res. MoveForward ref_rt (NewFlowStateMachine ''demo'' ''f1'' c demo_flow) 2 ''default'' None = Val res)"
proof -
  let ?ops = "[OpInit None, OpExecute ''default'' 1 None]"
  have e: "ref_after ?ops = run_ops (ref_engine ref_ext) ''demo'' ''f1'' ?ops (ref_after [])" by (simp add: ref_after_def)
  have "map_option (\<lambda>c. 2 \<in> fmdom' (CurrentActionIds c)) (ref_stored (ref_after ?ops)) = Some True" by code_simp
  then obtain c where c: "ref_stored (ref_after ?ops) = Some c" "2 \<in> fmdom' (CurrentActionIds c)" by (cases "ref_stored (ref_after ?ops)") auto
  have n: "ref_stored (ref_after []) = None" by code_simp
  have "\<forall>a \<in> fmdom' (CurrentActionIds c). \<exists>res. MoveForward ref_rt (NewFlowStateMachine ''demo'' ''f1'' c demo_flow) a ''default'' None = Val res"
    using contexts_stay_well_typed [OF ref_setting demo_well_formed _ c(1) [unfolded ref_stored_def e ref_engine_def],
        of "''default''" None] n by (simp add: ref_stored_def)
  then show ?thesis using c by blast
qed

section \<open>Calls at the same time\<close>

text \<open>C8. What the operations on one run that are handled at the same time can lose, although each of them returns
  without an error. Two results: the second call reads the stored context before the first has saved its own, and
  thereby replaces the context in the machine the first call is about to save; one executed action is not recorded and
  the run stays unfinished, while handled one after the other the same two results complete it. A result and a pause:
  either the result is lost, or the pause is, and the run goes on. A result and a retry of the same action: the
  action is recorded as executed and is scheduled again.\<close>

definition both_running :: "ref_world run_state" where
  "both_running = \<lparr>rsWorld = world (ref_after [OpInit None, OpExecute ''default'' 1 None]), rsContexts = [], rsMachines = [],
     rsCached = None, rsCollector = Some []\<rparr>"




text \<open>C9. The sequential semantics of the engine is that of operations that are not interrupted. Every operation
  ends after finitely many turns of its own, and when it takes them in a row it returns or panics like the
  sequential operation and leaves the same world, the same collector and the same cached state machine, for
  every storage. And operations that take their turns one after the other, in a sorted schedule, all end and leave what the
  sequence of operations leaves.\<close>

theorem uninterrupted_operations_are_sequential:
  assumes "same_run wn fid st s"
  shows "(\<exists>n p st'. interleave (replicate n 0) [par_op F wn fid op] st = ([p], st') \<and>
      (case run_op F wn fid op s of
         (Val _, s') \<Rightarrow> p = Returns () \<and> same_run wn fid st' s'
       | (Panic x, s') \<Rightarrow> p = Panics x \<and> same_run wn fid st' s')) \<and>
    (\<exists>sched ps st'. sorted sched \<and> set sched \<subseteq> {..<length ops} \<and>
      interleave sched (map (par_op F wn fid) ops) st = (ps, st') \<and>
      (\<forall>p \<in> set ps. p = Returns () \<or> (\<exists>x. p = Panics x)) \<and> same_run wn fid st' (run_ops F wn fid ops s))"
proof
  obtain r st' where r: "runP (par_op F wn fid op) st = (r, st')" by fastforce
  have "case run_op F wn fid op s of
       (Val _, s') \<Rightarrow> outcomeP r = Returns () \<and> same_run wn fid st' s'
     | (Panic x, s') \<Rightarrow> outcomeP r = Panics x \<and> same_run wn fid st' s'"
    using agree_op [OF assms r] by (cases r) (auto simp: outcomeP_def split: prod.splits res.splits)
  moreover obtain n where "interleave (replicate n 0) [par_op F wn fid op] st = ([outcomeP r], st')"
    using alone [of "par_op F wn fid op" st] r by auto
  ultimately show "\<exists>n p st'. interleave (replicate n 0) [par_op F wn fid op] st = ([p], st') \<and>
      (case run_op F wn fid op s of
         (Val _, s') \<Rightarrow> p = Returns () \<and> same_run wn fid st' s'
       | (Panic x, s') \<Rightarrow> p = Panics x \<and> same_run wn fid st' s')" by (intro exI conjI)
next
  obtain ps st' where a: "run_all (map (par_op F wn fid) ops) st = (ps, st')" by fastforce
  obtain sched where "sorted sched" "set sched \<subseteq> {..<length ops}" "interleave sched (map (par_op F wn fid) ops) st = (ps, st')"
    using serial [of "map (par_op F wn fid) ops" st] a by auto
  moreover have "p = Returns () \<or> (\<exists>x. p = Panics x)" if "p \<in> set ps" for p
    using run_all_ended [OF a that] by auto
  ultimately show "\<exists>sched ps st'. sorted sched \<and> set sched \<subseteq> {..<length ops} \<and>
      interleave sched (map (par_op F wn fid) ops) st = (ps, st') \<and>
      (\<forall>p \<in> set ps. p = Returns () \<or> (\<exists>x. p = Panics x)) \<and> same_run wn fid st' (run_ops F wn fid ops s)"
    using run_all_ops [OF assms a] by blast
qed

theorem uninterrupted_operations_are_sequential_witness:
  "\<exists>sched ps st'. sorted sched \<and> interleave sched (map (par_op (ref_engine ref_ext) ''demo'' ''f1'') [OpRetry 2, OpPause]) both_running =
      (ps, st') \<and> same_run ''demo'' ''f1'' st' (run_ops (ref_engine ref_ext) ''demo'' ''f1'' [OpRetry 2, OpPause]
        ((ref_after [OpInit None, OpExecute ''default'' 1 None])\<lparr>stateMachines := fmempty, collector := Some []\<rparr>))"
proof -
  have "same_run ''demo'' ''f1'' both_running
      ((ref_after [OpInit None, OpExecute ''default'' 1 None])\<lparr>stateMachines := fmempty, collector := Some []\<rparr>)"
    by (simp add: same_run_def both_running_def)
  from uninterrupted_operations_are_sequential [OF this, where ops = "[OpRetry 2, OpPause]" and op = OpPause and F = "ref_engine ref_ext"]
  show ?thesis by blast
qed



section \<open>Compiling and validating workflows\<close>

text \<open>C11. The terminal combinations that compiling a workflow computes are, as sets, exactly the leaf sets
  of the resolutions of its graph, whatever the order in which Go's maps are visited.\<close>

theorem terminal_combinations_are_outcomes:
  assumes "fair rt" and "build_flow rt wfl fid = Val fl" and "well_formed wfl"
  shows "set ` set (TerminalActions fl) = {T. outcome (build_actions (wfActions wfl)) (wfRootAction wfl) T}"
proof -
  note B = build_flow_Val [OF assms(2)]
  have "no_empty_next (flowActions fl)" using well_formed_no_empty_next [OF assms(3)] B(1) by simp
  then show ?thesis using walk_sound [OF assms(1) _ B(3)] B(1,2) by (simp add: walk_correct_def)
qed

theorem terminal_combinations_are_outcomes_witness:
  "{{2, 3}} = {T. outcome (build_actions (wfActions demo)) 1 T}"
  using terminal_combinations_are_outcomes [OF ref_rt_fair demo_compiled demo_well_formed]
  by (simp add: demo_flow_def demo_def insert_commute)

text \<open>C12. For a validated workflow without empty lists of next actions, and a stack with room for as many
  calls as it has actions, compiling returns a flow if no cycle is reachable from the root and overflows the
  stack otherwise.\<close>

theorem compiles_iff_acyclic:
  assumes "fair rt" and "well_formed wfl" and "no_empty_lists wfl" and "length (wfActions wfl) \<le> maxDepth rt"
  shows "(\<exists>fl. build_flow rt wfl fid = Val fl) \<longleftrightarrow>
      cycle_free (build_actions (wfActions wfl)) (wfRootAction wfl)"
proof -
  have dist: "distinct (map adId (wfActions wfl))" and r: "wfRootAction wfl \<in> adId ` set (wfActions wfl)"
    using assms(2) by (simp_all add: well_formed_def)
  have "card (fmdom' (build_actions (wfActions wfl))) \<le> maxDepth rt"
    using assms(4) dist by (simp add: fmdom'_build_actions card_image [OF distinct_map [THEN iffD1, THEN conjunct2]])
      (metis card_length le_trans)
  then have "(\<exists>ts. walk (maxDepth rt) rt (build_actions (wfActions wfl)) (wfRootAction wfl) = Val ts) \<longleftrightarrow>
      cycle_free (build_actions (wfActions wfl)) (wfRootAction wfl)"
    using walk_returns_iff [OF assms(1) well_formed_walkable [OF assms(2,3)]] r dist by (simp add: fmdom'_build_actions)
  then show ?thesis by (auto simp: build_flow_def bind_res_Val_iff Let_def)
qed

theorem compiles_iff_acyclic_witness: "cycle_free (build_actions (wfActions demo)) 1"
  using compiles_iff_acyclic [OF ref_rt_fair demo_well_formed demo_no_empty_lists, of "''f1''"] demo_compiled
  by (auto simp: ref_rt_def demo_def)

text \<open>C13. Validation accepts exactly the definitions whose state handlers are known, whose action ids are
  distinct and include the root, whose actions have a known type and whose next maps are not empty and name
  only defined actions; every accepted system action passes its own validation.\<close>

theorem validation_accepts_well_formed:
  assumes "fair rt"
  shows "(validate_static rt wfl = None \<longleftrightarrow> well_formed wfl) \<and>
    (fst (ValidateFlow rt ex ms wfl w) = None \<longrightarrow>
      well_formed wfl \<and> (\<forall>d \<in> set (wfActions wfl). Validate ex (build_action d) = None))"
proof (intro conjI impI)
  show 1: "validate_static rt wfl = None \<longleftrightarrow> well_formed wfl" by (rule validate_static_None_iff [OF assms])
  assume v: "fst (ValidateFlow rt ex ms wfl w) = None"
  then have s: "validate_static rt wfl = None" by (auto simp: ValidateFlow_def split: option.splits)
  then show wf: "well_formed wfl" using 1 by simp
  let ?am = "build_actions (wfActions wfl)"
  let ?acts = "map (\<lambda>i. the (fmlookup ?am i)) (range_keys (ordI rt) ?am)"
  have dist: "distinct (map adId (wfActions wfl))" using wf by (simp add: well_formed_def)
  have i: "validate_impls ex ms ?acts w = (None, snd (validate_impls ex ms ?acts w))"
    using v s by (simp add: ValidateFlow_def Let_def prod_eq_iff)
  show "\<forall>d \<in> set (wfActions wfl). Validate ex (build_action d) = None"
  proof
    fix d assume d: "d \<in> set (wfActions wfl)"
    have "fmlookup ?am (adId d) = Some (build_action d)" using d build_actions_Some_iff [OF dist] by blast
    then have "build_action d \<in> set ?acts"
      using assms by (auto simp: fairD(2) image_iff fmlookup_dom'_iff intro!: bexI [where x = "adId d"])
    then show "Validate ex (build_action d) = None" by (rule validate_impls_None [OF i])
  qed
qed

theorem validation_accepts_well_formed_witness:
  "well_formed demo \<and> list_all (\<lambda>d. Validate ref_ext (build_action d) = None) (wfActions demo)"
proof -
  have "fst (ValidateFlow ref_rt ref_ext (NewRedisMetadataStorage ref_metadata) demo registered) = None" by code_simp
  then show ?thesis
    using validation_accepts_well_formed [OF ref_rt_fair, of demo ref_ext "NewRedisMetadataStorage ref_metadata" registered]
    by (simp add: list_all_iff)
qed

text \<open>C14. Validation does not make compiling safe. A workflow whose root leads back to itself and a
  workflow with an empty list of next actions are both accepted and both make \<open>GetFlow\<close> panic: the
  first for every depth of the stack.\<close>

definition looping :: Workflow where
  "looping = \<lparr>wfName = ''loop'', wfRootAction = 1,
     wfActions = [user_def 1 (Some (fmupd ''default'' (Some [1]) fmempty))], OnFailure = '''', OnSuccess = ''''\<rparr>"

definition dangling :: Workflow where
  "dangling = \<lparr>wfName = ''dangling'', wfRootAction = 1,
     wfActions = [user_def 1 (Some (fmupd ''default'' (Some []) fmempty))], OnFailure = '''', OnSuccess = ''''\<rparr>"

lemma walk_looping:
  "walk n (ref_rt\<lparr>maxDepth := k\<rparr>) (build_actions (wfActions looping)) 1 = Panic StackOverflow"
proof (induction n)
  case (Suc n)
  have "fmlookup (build_actions (wfActions looping)) 1 =
      Some (build_action (user_def 1 (Some (fmupd ''default'' (Some [1]) fmempty))))"
    by (simp add: looping_def build_actions_def user_def_def)
  moreover have "range_keys (\<lambda>ks. ks) (fmupd ''default'' (Some [1 :: int]) fmempty) = [''default'']"
    by code_simp
  ultimately show ?case using Suc
    by (simp add: walk_Suc walk_event_def next_actions_def user_def_def ref_rt_def)
qed simp

theorem validation_misses_cycles_and_empty_lists:
  "fst (ValidateFlow ref_rt ref_ext (NewRedisMetadataStorage ref_metadata) looping registered) = None \<and>
   build_flow (ref_rt\<lparr>maxDepth := n\<rparr>) looping ''f'' = Panic StackOverflow \<and>
   fst (ValidateFlow ref_rt ref_ext (NewRedisMetadataStorage ref_metadata) dangling registered) = None \<and>
   build_flow ref_rt dangling ''f'' = Panic IndexOutOfRange"
proof (intro conjI)
  show "fst (ValidateFlow ref_rt ref_ext (NewRedisMetadataStorage ref_metadata) looping registered) = None" by code_simp
  show "fst (ValidateFlow ref_rt ref_ext (NewRedisMetadataStorage ref_metadata) dangling registered) = None" by code_simp
  show "build_flow ref_rt dangling ''f'' = Panic IndexOutOfRange" by code_simp
  have "wfRootAction looping = 1" by (simp add: looping_def)
  then show "build_flow (ref_rt\<lparr>maxDepth := n\<rparr>) looping ''f'' = Panic StackOverflow"
    using walk_looping [of n n] by (simp add: build_flow_def Let_def)
qed

section \<open>The Redis storage\<close>

text \<open>C15. A context that was saved without an error is read back up to the encoding of its data, and
  saving it changes no other stored context.\<close>

theorem saved_context_is_read_back:
  assumes "redis_store r db img" and "SaveFlowContext r wn fid c w = (None, w1)"
    and "GetFlowContext r wn fid w1 = (Inr c', w2)"
  shows "c' = img c \<and> redis_contexts r (db w2) = (redis_contexts r (db w))((wn, fid) \<mapsto> img c)"
proof -
  have "redis_contexts r (db w1) = (redis_contexts r (db w))((wn, fid) \<mapsto> img c)"
    using redis_store.save_contexts(1) [OF assms(1,2)] by simp
  moreover have "redis_contexts r (db w1) (wn, fid) = Some c'" and "db w2 = db w1"
    using redis_store.get_contexts [OF assms(1,3)] by simp_all
  ultimately show ?thesis by simp
qed

theorem saved_context_is_read_back_witness:
  "\<exists>w1 w2 c'. SaveFlowContext ref_storage ''demo'' ''f1'' (initial_context ''f1'' 1 None) ref_world0 = (None, w1) \<and>
     GetFlowContext ref_storage ''demo'' ''f1'' w1 = (Inr c', w2) \<and> c' = ref_image (initial_context ''f1'' 1 None)"
proof -
  let ?c = "initial_context ''f1'' 1 None"
  obtain e w1 where s: "SaveFlowContext ref_storage ''demo'' ''f1'' ?c ref_world0 = (e, w1)" by fastforce
  moreover have "fst (SaveFlowContext ref_storage ''demo'' ''f1'' ?c ref_world0) = None" by code_simp
  ultimately have s: "SaveFlowContext ref_storage ''demo'' ''f1'' ?c ref_world0 = (None, w1)" by simp
  obtain x w2 where g: "GetFlowContext ref_storage ''demo'' ''f1'' w1 = (x, w2)" by fastforce
  have "isl (fst (GetFlowContext ref_storage ''demo'' ''f1'' (snd (SaveFlowContext ref_storage ''demo'' ''f1'' ?c ref_world0)))) = False"
    by code_simp
  then obtain c' where "x = Inr c'" using s g by (cases x) auto
  then show ?thesis using saved_context_is_read_back [OF ref_dep.redis_store_axioms s] s g by blast
qed



text \<open>C17. A queue message is parsed back to the request it was built from, when the names have no colon
  and the action id fits into 64 bits.\<close>

theorem message_round_trip:
  assumes "colon_free wn" "colon_free fid" "colon_free name" "- (2 ^ 63) \<le> a" "a < 2 ^ 63"
  shows "parse_message (message wn fid name a) = Val (request wn fid name a)"
  using parse_message_message [OF assms] .

theorem message_round_trip_witness:
  "parse_message ''demo:f1:work:-7'' = Val (request ''demo'' ''f1'' ''work'' (- 7))"
proof -
  have "message ''demo'' ''f1'' ''work'' (- 7) = ''demo:f1:work:-7''" by code_simp
  then show ?thesis using message_round_trip [of "''demo''" "''f1''" "''work''" "- 7"] by (simp add: colon_free_def)
qed


text \<open>C19. A retry that was queued with a delay is returned by a later poll once the delay has passed, and
  removed by it; before that it stays in the queue.\<close>

theorem retry_becomes_due:
  assumes "redis_store r db img" and "Retry r wn fid name a d w = (None, w1)"
    and "rc_now (redisClient (rsDao r)) w = (t, w0)"
    and "PollRetry r w1 = (Val (Inr reqs), w2)" and "rc_now (redisClient (rsDao r)) w1 = (t', w3)"
    and "colon_free wn" "colon_free fid" "colon_free name" "- (2 ^ 63) \<le> a" "a < 2 ^ 63" and "0 \<le> t + d"
  shows "(UnixMilli (t + d) \<le> UnixMilli t' \<longrightarrow> request wn fid name a \<in> set reqs \<and>
       (\<exists>z. zset_at (db w2) (queue_key r ''retry'') = Some z \<and> fmlookup z (message wn fid name a) = None)) \<and>
    (UnixMilli t' < UnixMilli (t + d) \<longrightarrow>
       (\<exists>z. zset_at (db w2) (queue_key r ''retry'') = Some z \<and>
          fmlookup z (message wn fid name a) = Some (UnixMilli (t + d))))"
proof -
  obtain z where z: "zset_at (db w1) (queue_key r ''retry'') = Some (fmupd (message wn fid name a) (UnixMilli (t + d)) z)"
    using redis_store.add_ok [OF assms(1) assms(2) [unfolded Retry_def] assms(3)] by blast
  note P = redis_store.poll_expired_member [OF assms(1) assms(4) [unfolded PollRetry_def] assms(5) z _
      parse_message_message [OF assms(6-10)], of "UnixMilli (t + d)"]
  have "0 \<le> UnixMilli (t + d)" using assms(11) by (simp add: UnixMilli_def)
  then show ?thesis using P by simp
qed

theorem retry_becomes_due_witness:
  "\<exists>z. zset_at (refKeys (snd (PollRetry ref_storage (snd (Retry ref_storage ''demo'' ''f1'' ''work'' 2 0 ref_world0)))))
       (queue_key ref_storage ''retry'') = Some z \<and> fmlookup z (message ''demo'' ''f1'' ''work'' 2) = None"
proof -
  let ?a = "Retry ref_storage ''demo'' ''f1'' ''work'' 2 0 ref_world0"
  let ?p = "PollRetry ref_storage (snd ?a)"
  have "fst ?a = None" by code_simp
  then have a: "?a = (None, snd ?a)" by (simp add: prod_eq_iff)
  have "fst (getExpiredFromSortedSet ref_storage (queue_key ref_storage ''retry'') (snd ?a)) = Inr [message ''demo'' ''f1'' ''work'' 2]"
    by code_simp
  then have "fst ?p = Val (Inr [request ''demo'' ''f1'' ''work'' 2])"
    using parse_message_message [of "''demo''" "''f1''" "''work''" 2]
    by (simp add: PollRetry_def poll_expired_def colon_free_def split_beta)
  then have p: "?p = (Val (Inr [request ''demo'' ''f1'' ''work'' 2]), snd ?p)" by (simp add: prod_eq_iff)
  have t: "rc_now (redisClient (rsDao ref_storage)) ref_world0 = (1000000000, snd (ref_now ref_world0))"
    by (simp add: ref_selectors ref_client_def ref_now_def ref_world0_def)
  have "refClock (snd ?a) = 1000000001" by code_simp
  then have t': "rc_now (redisClient (rsDao ref_storage)) (snd ?a) = (1000000001, snd (ref_now (snd ?a)))"
    by (simp add: ref_selectors ref_client_def ref_now_def)
  show ?thesis
    using retry_becomes_due [OF ref_dep.redis_store_axioms a t p t'] by (simp add: colon_free_def UnixMilli_def)
qed

section \<open>Events\<close>



section \<open>Parameters\<close>

section \<open>Failures that are not reported\<close>




section \<open>The cluster\<close>

text \<open>C23. An operation on a run, called on any node of the cluster, changes the stored context of the run
  only by steps of the specification, in the shard the id of the run hashes to; no other context in any
  shard changes, and no other shard's cache of state machines.\<close>

theorem cluster_refines_spec:
  assumes "redis_cluster cf db img" and "clShards c = new_shards cf"
    and "consistent_hash (clLib c) (cfPartitionCount cf) members (clShuffle c)"
    and "fair (cfRuntime cf)" and "build_flow (cfRuntime cf) wfl fid = Val fl"
    and "coherent (\<lambda>w. redis_defs (cfMetadata cf) (db w)) wn fid wfl fl (shard_view (flow_partition c fid) s)"
    and "s' = snd (cluster_op c wn fid op s)"
  shows "refines_run (\<lambda>w. redis_contexts (shard_storage cf (flow_partition c fid)) (db w)) fl wn fid (labels_of op)
      (shard_view (flow_partition c fid) s) (shard_view (flow_partition c fid) s') \<and>
    coherent (\<lambda>w. redis_defs (cfMetadata cf) (db w)) wn fid wfl fl (shard_view (flow_partition c fid) s') \<and>
    (\<forall>j \<in> {0..<cfPartitionCount cf} - {flow_partition c fid}.
      redis_contexts (shard_storage cf j) (db (nsWorld s')) = redis_contexts (shard_storage cf j) (db (nsWorld s)) \<and>
      nsMachines s' j = nsMachines s j)"
proof -
  have v: "0 \<le> flow_partition c fid \<and> flow_partition c fid < cfPartitionCount cf"
    using consistent_hash.find_bounds [OF assms(3)] by (simp add: flow_partition_def GetPartition_def)
  show ?thesis
    using redis_cluster.cluster_op_refines [OF assms(1,2) v assms(4-7)] by auto
qed

theorem cluster_refines_spec_witness:
  "refines_run (\<lambda>w. redis_contexts (shard_storage ref_config 2) (refKeys w)) demo_flow ''demo'' ''f1'' {Start}
      (shard_view 2 ref_nstate) (shard_view 2 (snd (cluster_op ref_cluster ''demo'' ''f1'' (OpInit None) ref_nstate)))"
proof -
  have p: "flow_partition ref_cluster ''f1'' = 2" by code_simp
  have l: "clLib ref_cluster = ref_hash" "clShuffle ref_cluster = ref_shuffle" "cfPartitionCount ref_config = 4"
    "cfRuntime ref_config = ref_rt"
    by (simp_all add: ref_cluster_def NewCluster_def ref_config_def)
  show ?thesis
    using cluster_refines_spec [OF ref_cl.redis_cluster_axioms ref_cluster_shards _ _ _ ref_nstate_coherent refl,
        of fset "OpInit None"] ref_ring.consistent_hash_axioms ref_rt_fair demo_compiled
    by (simp add: l p)
qed

text \<open>C24. A worker may report a result again: for an action that has been executed, or a run that is
  completed or failed, handling a result, success or failure, leaves every context of every shard as it is.\<close>

theorem repeated_results_ignored:
  assumes "redis_cluster cf db img" and "clShards c = new_shards cf"
    and "0 \<le> flow_partition c (arFlowId res) \<and> flow_partition c (arFlowId res) < cfPartitionCount cf"
    and "fair (cfRuntime cf)" and "build_flow (cfRuntime cf) wfl (arFlowId res) = Val fl"
    and "coherent (\<lambda>w. redis_defs (cfMetadata cf) (db w)) (arWorkflowName res) (arFlowId res) wfl fl
      (shard_view (flow_partition c (arFlowId res)) s)"
    and "\<And>ctx. redis_contexts (shard_storage cf (flow_partition c (arFlowId res))) (db (nsWorld s))
        (arWorkflowName res, arFlowId res) = Some ctx \<Longrightarrow>
      terminal_state (State ctx) \<or> arActionId res \<in> fmdom' (ExecutedActions ctx)"
    and "0 \<le> j \<and> j < cfPartitionCount cf"
  shows "redis_contexts (shard_storage cf j) (db (nsWorld (snd (HandleActionResult c asI res s)))) =
    redis_contexts (shard_storage cf j) (db (nsWorld s))"
  using redis_cluster.late_action_result [OF assms] .

text \<open>A report of the success of the root action of the reference workflow, and the node after it.\<close>

definition root_done :: ActionResult where
  "root_done = \<lparr>arWorkflowName = ''demo'', arActionName = ''work'', arFlowId = ''f1'', arActionId = 1,
     arData = fmempty, arStatus = SUCCESS\<rparr>"

definition ref_reported :: "ref_world node_state" where
  "ref_reported = snd (HandleActionResult ref_cluster (\<lambda>v. v) root_done
     (snd (StartFlow ref_cluster ''f1'' ''demo'' None ref_nstate)))"

theorem repeated_results_ignored_witness:
  "redis_contexts (shard_storage ref_config 2) (refKeys (nsWorld (snd (HandleActionResult ref_cluster (\<lambda>v. v) root_done ref_reported)))) =
    redis_contexts (shard_storage ref_config 2) (refKeys (nsWorld ref_reported))"
proof (rule repeated_results_ignored [OF ref_cl.redis_cluster_axioms ref_cluster_shards, where wfl = demo and fl = demo_flow])
  have p: "flow_partition ref_cluster (arFlowId root_done) = 2" by code_simp
  show "0 \<le> flow_partition ref_cluster (arFlowId root_done) \<and> flow_partition ref_cluster (arFlowId root_done) < cfPartitionCount ref_config"
    using ref_cluster_partition by blast
  show "fair (cfRuntime ref_config)" using ref_rt_fair by (simp add: ref_config_def)
  show "build_flow (cfRuntime ref_config) demo (arFlowId root_done) = Val demo_flow"
    using demo_compiled by (simp add: ref_config_def root_done_def)
  have d: "redis_defs ref_metadata (refKeys (nsWorld ref_reported)) ''demo'' = Some demo" by code_simp
  have f: "map_option smFlow (fmlookup (nsMachines ref_reported 2) (machine_key ''demo'' ''f1'')) = Some demo_flow" by code_simp
  show "coherent (\<lambda>w. redis_defs (cfMetadata ref_config) (refKeys w)) (arWorkflowName root_done) (arFlowId root_done) demo
      demo_flow (shard_view (flow_partition ref_cluster (arFlowId root_done)) ref_reported)"
    using d f by (simp add: p) (auto simp: coherent_def shard_view_def root_done_def ref_config_def)
  have c: "map_option (\<lambda>c. 1 \<in> fmdom' (ExecutedActions c))
      (redis_contexts (shard_storage ref_config 2) (refKeys (nsWorld ref_reported)) (''demo'', ''f1'')) = Some True" by code_simp
  show "terminal_state (State ctx) \<or> arActionId root_done \<in> fmdom' (ExecutedActions ctx)"
    if "redis_contexts (shard_storage ref_config (flow_partition ref_cluster (arFlowId root_done)))
      (refKeys (nsWorld ref_reported)) (arWorkflowName root_done, arFlowId root_done) = Some ctx" for ctx
    using that c unfolding p by (simp add: root_done_def)
qed (simp add: ref_config_def)

section \<open>Queues\<close>




text \<open>C26. Polling the cluster never panics on the shards of the node. It returns at most as many actions as
  were asked for; together with what is left they were all in the queues of the owned partitions before, so
  no action is delivered twice or made up; only a poll that fails can lose actions.\<close>

theorem poll_conserves_actions:
  assumes "redis_cluster cf db img" and "clShards c = new_shards cf" and "perm_fun (clShuffle c)"
    and "partitionCount (clRing c) = cfPartitionCount cf"
    and "GetPartitions (clLib c) (clShuffle c) (clRing c) = Val parts"
  shows "\<exists>acts s'. cluster_Poll c name n s = (Val acts, s') \<and> int (length acts) \<le> max n 0 \<and>
    mset acts + (\<Sum>i\<leftarrow>parts. mset (redis_items (shard_wqueue cf i) (db (nsWorld s')) name)) \<subseteq>#
      (\<Sum>i\<leftarrow>parts. mset (redis_items (shard_wqueue cf i) (db (nsWorld s)) name))"
proof -
  note queues = redis_cluster.wqueues_contract [OF assms(1)]
  have d: "distinct parts" "set parts \<subseteq> fmdom' (new_shards cf)"
    using GetPartitions_range [OF assms(5,3)] assms(4) by (simp_all add: new_shards_dom)
  obtain r w' where r: "poll_partitions (new_shards cf) name n parts [] (nsWorld s) = (r, w')" by fastforce
  then have "cluster_Poll c name n s = (r, s\<lparr>nsWorld := w'\<rparr>)"
    using assms(2,5) by (simp add: cluster_Poll_def bindM_def liftR_def)
  then show ?thesis
    using cluster_queues.poll_partitions_ok [OF queues r d] by (auto simp: cluster_queues.held_def [OF queues])
qed

text \<open>Two actions in the queues of the partitions 0 and 2 of the reference node.\<close>

definition work_action :: "string \<Rightarrow> apiAction" where
  "work_action fid = \<lparr>paWorkflowName = ''demo'', paFlowId = fid, paData = fmempty, paActionId = 1, paActionName = ''work''\<rparr>"

definition ref_queued :: "ref_world node_state" where
  "ref_queued = ref_nstate\<lparr>nsWorld := snd (Push (shard_wqueue ref_config 2) (work_action ''f2'')
     (snd (Push (shard_wqueue ref_config 0) (work_action ''f4'') ref_world0)))\<rparr>"

theorem poll_conserves_actions_witness:
  "\<exists>acts s'. cluster_Poll ref_cluster ''work'' 1 ref_queued = (Val acts, s') \<and> int (length acts) \<le> 1 \<and>
    mset acts + (\<Sum>i\<leftarrow>[2, 0]. mset (redis_items (shard_wqueue ref_config i) (refKeys (nsWorld s')) ''work'')) \<subseteq>#
      {#work_action ''f4'', work_action ''f2''#}"
proof -
  have i: "redis_items (shard_wqueue ref_config 2) (refKeys (nsWorld ref_queued)) ''work'' = [work_action ''f2'']"
    "redis_items (shard_wqueue ref_config 0) (refKeys (nsWorld ref_queued)) ''work'' = [work_action ''f4'']"
    by code_simp+
  have c: "perm_fun (clShuffle ref_cluster)" "partitionCount (clRing ref_cluster) = cfPartitionCount ref_config"
    by (simp add: ref_cluster_def NewCluster_def, code_simp)
  show ?thesis
    using poll_conserves_actions [OF ref_cl.redis_cluster_axioms ref_cluster_shards c ref_partitions, of "''work''" 1 ref_queued] i
    by simp
qed

text \<open>C27. As long as polling the queues succeeds, a poll of the cluster loses nothing and returns as many
  actions as were asked for, or all that the owned partitions hold.\<close>

theorem poll_fills_batch:
  assumes "redis_cluster cf db img" and "clShards c = new_shards cf" and "perm_fun (clShuffle c)"
    and "partitionCount (clRing c) = cfPartitionCount cf"
    and "GetPartitions (clLib c) (clShuffle c) (clRing c) = Val parts" and "0 \<le> n" and "up (nsWorld s)"
    and "\<And>i k w x w'. up w \<Longrightarrow> i \<in> set parts \<Longrightarrow> 0 \<le> k \<Longrightarrow> Poll (shard_wqueue cf i) name k w = (x, w') \<Longrightarrow> up w' \<and> \<not> isl x"
  shows "\<exists>acts s'. cluster_Poll c name n s = (Val acts, s') \<and>
    mset acts + (\<Sum>i\<leftarrow>parts. mset (redis_items (shard_wqueue cf i) (db (nsWorld s')) name)) =
      (\<Sum>i\<leftarrow>parts. mset (redis_items (shard_wqueue cf i) (db (nsWorld s)) name)) \<and>
    length acts = min (nat n) (\<Sum>i\<leftarrow>parts. length (redis_items (shard_wqueue cf i) (db (nsWorld s)) name))"
proof -
  note queues = redis_cluster.wqueues_contract [OF assms(1)]
  have d: "distinct parts" "set parts \<subseteq> fmdom' (new_shards cf)"
    using GetPartitions_range [OF assms(5,3)] assms(4) by (simp_all add: new_shards_dom)
  obtain r w' where r: "poll_partitions (new_shards cf) name n parts [] (nsWorld s) = (r, w')" by fastforce
  have up: "up w' \<and> \<not> isl x" if "up w" "i \<in> set parts" "fmlookup (new_shards cf) i = Some sh" "0 \<le> k" "eq_Poll (shQueue sh) name k w = (x, w')"
    for i sh k w x w'
    using assms(8) [OF that(1,2,4)] that(3,5)
    by (auto simp: new_shards_at new_shard_def redis_shard_def NewRedisQueue_def split: if_splits)
  have l: "size (\<Sum>i\<leftarrow>ps. mset (f i)) = (\<Sum>i\<leftarrow>ps. length (f i))" for ps and f :: "int \<Rightarrow> apiAction list"
    by (induction ps) simp_all
  have "cluster_Poll c name n s = (r, s\<lparr>nsWorld := w'\<rparr>)"
    using assms(2,5) r by (simp add: cluster_Poll_def bindM_def liftR_def)
  then show ?thesis
    using cluster_queues.poll_partitions_full [OF queues r d, of up] assms(6,7) up
    by (auto simp: cluster_queues.held_def [OF queues] l)
qed

theorem poll_fills_batch_witness:
  "\<exists>acts s'. cluster_Poll ref_cluster ''work'' 1 ref_queued = (Val acts, s') \<and> length acts = 1"
proof -
  let ?k = "\<lambda>i. ext_key (shard_wqueue ref_config i) ''work''"
  let ?up = "\<lambda>w. \<not> refDown w \<and> list_at (refKeys w) (?k 0) \<noteq> None \<and> list_at (refKeys w) (?k 2) \<noteq> None"
  have i: "redis_items (shard_wqueue ref_config 2) (refKeys (nsWorld ref_queued)) ''work'' = [work_action ''f2'']"
    "redis_items (shard_wqueue ref_config 0) (refKeys (nsWorld ref_queued)) ''work'' = [work_action ''f4'']"
    by code_simp+
  have c: "perm_fun (clShuffle ref_cluster)" "partitionCount (clRing ref_cluster) = cfPartitionCount ref_config"
    by (simp add: ref_cluster_def NewCluster_def, code_simp)
  have u: "?up (nsWorld ref_queued)" by code_simp
  have p: "?up w' \<and> \<not> isl x"
    if up: "?up w" and i: "i \<in> set [2, 0]" and k: "0 \<le> k" and x: "Poll (shard_wqueue ref_config i) ''work'' k w = (x, w')" for i k w x w'
  proof -
    obtain l where l: "list_at (refKeys w) (?k i) = Some l" using up i by auto
    have w': "refKeys w' = snd (apply_cmd (LPOP (?k i) k) (refKeys w))" "refDown w' = refDown w" "\<not> isl x"
      using x up k l by (auto simp: Poll_def qdo_def shard_wqueue_def ref_config_def ref_dao_def ref_client_def ref_do_def
          typed_def split: prod.splits sum.splits reply.splits if_splits)
    then show ?thesis using up l by (auto simp: ref_wq.LPOP_list simp del: apply_cmd.simps)
  qed
  have "\<exists>acts s'. cluster_Poll ref_cluster ''work'' 1 ref_queued = (Val acts, s') \<and>
    mset acts + (\<Sum>i\<leftarrow>[2, 0]. mset (redis_items (shard_wqueue ref_config i) (refKeys (nsWorld s')) ''work'')) =
      (\<Sum>i\<leftarrow>[2, 0]. mset (redis_items (shard_wqueue ref_config i) (refKeys (nsWorld ref_queued)) ''work'')) \<and>
    length acts = min (nat 1) (\<Sum>i\<leftarrow>[2, 0]. length (redis_items (shard_wqueue ref_config i) (refKeys (nsWorld ref_queued)) ''work''))"
    by (rule poll_fills_batch [OF ref_cl.redis_cluster_axioms ref_cluster_shards c ref_partitions, where up = ?up])
      (simp, rule u, rule p)
  then show ?thesis using i by auto
qed

section \<open>Executors and their goroutines\<close>



text \<open>C29. A stop that is called on a running executor while no other stop is in progress can always be
  completed: the handler returns, the goroutine takes the signal and ends, the caller is released and the
  executor can be started again.\<close>

theorem stop_can_complete:
  assumes "settled w" and "running w" and "worker_step w StopCall w1"
  shows "\<exists>ls w2. set ls \<subseteq> {Silent} \<and> worker_steps w1 ls w2 \<and> settled w2 \<and> \<not> running w2 \<and> goroutines w2 = []"
  using stop_completes [OF assms] .

theorem stop_can_complete_witness:
  "\<exists>ls w2. set ls \<subseteq> {Silent} \<and>
     worker_steps \<lparr>running = True, goroutines = [InHandler], caller = Sending\<rparr> ls w2 \<and> \<not> running w2 \<and> goroutines w2 = []"
proof -
  let ?w = "\<lparr>running = True, goroutines = [InHandler], caller = Outside\<rparr>"
  have "settled ?w" by (simp add: settled_def worker_inv_def serving_def)
  moreover have "worker_step ?w StopCall (?w\<lparr>caller := Sending\<rparr>)" by (rule stop_sends) simp_all
  ultimately show ?thesis using stop_can_complete [of ?w "?w\<lparr>caller := Sending\<rparr>"] by auto
qed

text \<open>C30. The flag \<open>running\<close> is cleared by the goroutine, after the stop has returned to its caller. In
  between, a start is lost: it sees the flag and returns, and the executor ends up without a goroutine. A
  second stop in between blocks its caller for ever: no step leads out of the state it reaches.\<close>

theorem restart_races:
  "\<exists>w. worker_steps NewWorker [StartCall, Silent, StopCall, Silent] w \<and> caller w = Outside \<and>
     (\<exists>w1. worker_steps w [StartCall, Silent] w1 \<and> caller w1 = Outside \<and> goroutines w1 = [] \<and> \<not> running w1) \<and>
     (\<exists>w2. worker_steps w [StopCall, Silent] w2 \<and> caller w2 = Sending \<and> \<not> (\<exists>l w3. worker_step w2 l w3))"
proof (rule exI [where x = stopping], intro conjI)
  show "\<exists>w1. worker_steps stopping [StartCall, Silent] w1 \<and> caller w1 = Outside \<and> goroutines w1 = [] \<and> \<not> running w1"
    using stopping_start_lost by (intro exI conjI) (assumption, simp_all add: stopping_def)
  show "\<exists>w2. worker_steps stopping [StopCall, Silent] w2 \<and> caller w2 = Sending \<and> \<not> (\<exists>l w3. worker_step w2 l w3)"
  proof (intro exI conjI)
    let ?w = "\<lparr>running = False, goroutines = [], caller = Sending\<rparr>"
    show "worker_steps stopping [StopCall, Silent] ?w" by (rule stopping_stop_blocks)
    have "deadlocked ?w" by (simp add: deadlocked_def)
    then show "\<not> (\<exists>l w3. worker_step ?w l w3)" using deadlocked_step by blast
  qed simp
qed (use stopping_reachable in \<open>simp_all add: stopping_def\<close>)

section \<open>Membership\<close>




text \<open>The view of the second node, which saw the joins in the other order and another node come and go.\<close>

definition ref_events :: "string \<Rightarrow> serf_event list" where
  "ref_events m = (if m = ''n1'' then [EventMemberJoin [(''n1'', ''a1''), (''n2'', ''a2'')]]
     else [EventMemberJoin [(''n2'', ''a2''), (''n3'', ''a3'')], EventMemberFailed [(''n3'', ''a3'')], EventMemberJoin [(''n1'', ''a1'')]])"



text \<open>C33. A node whose first membership event contains its own join handles all later events without a
  panic. A node that sees another member join and leave before its own join panics, because no partition
  has an owner then.\<close>

theorem membership_panics_only_before_join:
  assumes "consistent_hash L n members shuffle" and "me \<in> fst ` set ms" and "name \<noteq> me"
  shows "fst (eventHandler L shuffle me (EventMemberJoin ms # es) (new_cluster_state L n)) = Val () \<and>
    fst (eventHandler L shuffle me [EventMemberJoin [(name, addr)], EventMemberLeave [(name, addr)]]
      (new_cluster_state L n)) = Panic NilDeref"
  using consistent_hash.eventHandler_no_panic [OF assms(1,2)] consistent_hash.eventHandler_panics [OF assms(1,3)] by blast

theorem membership_panics_only_before_join_witness:
  "fst (eventHandler ref_hash ref_shuffle ''n2'' (ref_events ''n2'') (new_cluster_state ref_hash 4)) = Val ()"
  using membership_panics_only_before_join [OF ref_ring.consistent_hash_axioms, of "''n2''" "[(''n2'', ''a2''), (''n3'', ''a3'')]" "''n1''"]
  by (simp add: ref_events_def)


section \<open>The interfaces of the server\<close>




text \<open>C35. A request to create a workflow that is answered with 200 had a readable body, and the stored
  definition is well formed and can be read back; with any other answer the status is 400.\<close>

theorem created_workflows_are_well_formed:
  assumes "redis_metadata m db" and "fair rt"
    and "HandleCreateFlow rt ex (NewRedisMetadataStorage m) fl decodeErr s = (Val rsp, s')"
    and "Encode (workflowEncoderDecoder m) fl = Inr d" and "Decode (workflowEncoderDecoder m) d = Inr fl'"
    and "rwStatus rsp = Some 200"
  shows "decodeErr = None \<and> well_formed fl \<and> redis_defs m (db (nsWorld s')) (wfName fl) = Some fl'"
proof -
  obtain w1 w2 where e: "decodeErr = None" and v: "ValidateFlow rt ex (NewRedisMetadataStorage m) fl (nsWorld s) = (None, w1)"
    and w: "SaveWorkflowDefinition m fl w1 = (None, w2)" "s' = s\<lparr>nsWorld := w2\<rparr>"
    using HandleCreateFlow_cases [OF assms(3)] assms(6) by (auto simp: NewRedisMetadataStorage_def)
  have "validate_static rt fl = None" using v by (auto simp: ValidateFlow_def split: option.splits)
  then have "well_formed fl" using validate_static_None_iff [OF assms(2)] by blast
  moreover have "redis_defs m (db w2) (wfName fl) = Some fl'"
    using redis_metadata.save_workflow [OF assms(1) w(1) assms(4,5)] by simp
  ultimately show ?thesis using e w(2) by simp
qed

definition ref_registered :: "ref_world node_state" where
  "ref_registered = ref_nstate\<lparr>nsWorld := registered\<rparr>"

theorem created_workflows_are_well_formed_witness:
  "\<exists>rsp s'. HandleCreateFlow ref_rt ref_ext (NewRedisMetadataStorage ref_metadata) demo None ref_registered = (Val rsp, s') \<and>
     redis_defs ref_metadata (refKeys (nsWorld s')) ''demo'' = Some demo"
proof -
  let ?h = "HandleCreateFlow ref_rt ref_ext (NewRedisMetadataStorage ref_metadata) demo None ref_registered"
  have "map_res rwStatus (fst ?h) = Val (Some 200)" by code_simp
  then obtain rsp where f: "fst ?h = Val rsp" "rwStatus rsp = Some 200" by (cases "fst ?h") auto
  obtain s' where h: "?h = (Val rsp, s')" using f(1) by (metis prod.collapse)
  have e: "Encode (workflowEncoderDecoder ref_metadata) demo = Inr ''demo''"
    "Decode (workflowEncoderDecoder ref_metadata) ''demo'' = Inr demo"
    by (simp_all add: ref_metadata_def demo_def)
  show ?thesis
    using created_workflows_are_well_formed [OF ref_cl.meta.redis_metadata_axioms [unfolded ref_config_def nodeConfig.select_convs] ref_rt_fair h e f(2)] h
    by (simp add: demo_def)
qed

text \<open>C36. The report about a run shows its stored context: the running and the executed actions without
  repetition, the awaited event, and the name of its state, which determines the state.\<close>

theorem execution_report_is_right:
  assumes "redis_cluster cf db img" and "clShards c = new_shards cf" and "fair rt"
    and "0 \<le> flow_partition c fid \<and> flow_partition c fid < cfPartitionCount cf"
    and "HandleGetFlowExecution rt c (Some wn) (Some fid) s = (Val rsp, s')" and "rwStatus rsp = Some 200"
  shows "\<exists>ctx e. redis_contexts (shard_storage cf (flow_partition c fid)) (db (nsWorld s)) (wn, fid) = Some ctx \<and>
    rwBody rsp = [JExecution e] \<and> set (feRunningActions e) = fmdom' (CurrentActionIds ctx) \<and>
    set (feExecutedActions e) = fmdom' (ExecutedActions ctx) \<and> distinct (feRunningActions e) \<and>
    distinct (feExecutedActions e) \<and> feEvent e = Event ctx \<and> feData e = Data ctx \<and> feState e = state_name (State ctx) \<and>
    (\<forall>st. feState e = state_name st \<longrightarrow> (\<forall>x. st \<noteq> OtherFlowState x) \<longrightarrow> State ctx = st)"
proof -
  let ?i = "flow_partition c fid"
  obtain ctx w' where g: "GetFlowContext (shard_storage cf ?i) wn fid (nsWorld s) = (Inr ctx, w')"
    and b: "rwBody rsp = [JExecution (flow_execution rt ctx)]"
  proof -
    have sh: "fmlookup (clShards c) ?i = Some (new_shard cf ?i)" using assms(2,4) by (simp add: new_shards_at)
    obtain x w' where x: "GetFlowContext (shard_storage cf ?i) wn fid (nsWorld s) = (x, w')" by fastforce
    have "fst (service_GetFlow c wn fid s) = Val x"
      using sh x by (simp add: service_GetFlow_def cluster_GetFlow_def on_shard_run(1) engine_GetFlow_def onWorld_run
          new_shard_def redis_shard_def redis_engine_def NewRedisStorage_def)
    then obtain s1 where r: "service_GetFlow c wn fid s = (Val x, s1)" by (metis prod.collapse)
    show thesis
      using assms(5,6) r x that
      by (cases x) (auto simp: HandleGetFlowExecution_def path_var_def bindM_def ret_def writer_defs)
  qed
  have "redis_contexts (shard_storage cf ?i) (db (nsWorld s)) (wn, fid) = Some ctx"
    using redis_store.get_contexts [OF redis_deployment.axioms(1) [OF redis_cluster.shard_deployment [OF assms(1)]] g] by simp
  then show ?thesis
    using b assms(3) by (auto simp: flow_execution_def fairD distinct_range_keys state_name_inject)
qed

theorem execution_report_is_right_witness:
  "\<exists>rsp s' e. HandleGetFlowExecution ref_rt ref_cluster (Some ''demo'') (Some ''f1'') ref_reported = (Val rsp, s') \<and>
     rwBody rsp = [JExecution e] \<and> set (feRunningActions e) = {2, 3} \<and> set (feExecutedActions e) = {1} \<and> feState e = ''RUNNING''"
proof -
  let ?h = "HandleGetFlowExecution ref_rt ref_cluster (Some ''demo'') (Some ''f1'') ref_reported"
  have "map_res rwStatus (fst ?h) = Val (Some 200)" by code_simp
  then obtain rsp where f: "fst ?h = Val rsp" "rwStatus rsp = Some 200" by (cases "fst ?h") auto
  obtain s' where h: "?h = (Val rsp, s')" using f(1) by (metis prod.collapse)
  have p: "flow_partition ref_cluster ''f1'' = 2" by code_simp
  have v: "0 \<le> flow_partition ref_cluster ''f1'' \<and> flow_partition ref_cluster ''f1'' < cfPartitionCount ref_config"
    using ref_cluster_partition by blast
  have c: "map_option (\<lambda>c. (fmdom' (CurrentActionIds c), fmdom' (ExecutedActions c), State c))
      (redis_contexts (shard_storage ref_config 2) (refKeys (nsWorld ref_reported)) (''demo'', ''f1'')) = Some ({2, 3}, {1}, RUNNING)"
    by code_simp
  obtain ctx e where x: "redis_contexts (shard_storage ref_config 2) (refKeys (nsWorld ref_reported)) (''demo'', ''f1'') = Some ctx"
      "rwBody rsp = [JExecution e]" "set (feRunningActions e) = fmdom' (CurrentActionIds ctx)"
      "set (feExecutedActions e) = fmdom' (ExecutedActions ctx)" "feState e = state_name (State ctx)"
    using execution_report_is_right [OF ref_cl.redis_cluster_axioms ref_cluster_shards ref_rt_fair v h f(2)] unfolding p by blast
  have "fmdom' (CurrentActionIds ctx) = {2, 3}" "fmdom' (ExecutedActions ctx) = {1}" "State ctx = RUNNING"
    using c unfolding x(1) by simp_all
  then show ?thesis using h x(2-5) by auto
qed

section \<open>Errors that are not handled\<close>


section \<open>Bounds\<close>



section \<open>Shutting down\<close>

text \<open>C39. A shutdown stops the executors of all shards, and a second one changes nothing. But it does not
  leave the membership: when its event handler is told afterwards that another member has left,
  the executors of all partitions the ring then gives to the node are started again.\<close>

theorem shutdown_is_undone_by_membership:
  assumes "consistent_hash L n members shuffle" and "eventHandler L shuffle me es (new_cluster_state L n) = (Val (), svCluster s)"
    and "me \<in> fmdom' (nodes (csRing (svCluster s)))" and "\<not> svShutdown s" and "name \<noteq> me"
  shows "serving_shards (csShards (svCluster (Shutdown s))) = {} \<and> Shutdown (Shutdown s) = Shutdown s \<and>
    (\<exists>c'. handle_event L shuffle me (EventMemberLeave [(name, addr)]) (svCluster (Shutdown s)) = (Val True, c') \<and>
      serving_shards (csShards c') =
        {i. 0 \<le> i \<and> i < n \<and> map_option nodeName (cl_GetPartitionOwner L (hring (csRing c')) i) = Some (nodeName (localNode (csRing c')))})"
proof -
  have ok: "consistent_hash.node_ok n members me (svCluster s)"
    using consistent_hash.eventHandler_ok [OF assms(1) consistent_hash.new_node_ok [OF assms(1)] assms(2)] by blast
  obtain x c' where l: "ring_Leave L shuffle name (svCluster (Shutdown s)) = (x, c')" by fastforce
  note after = consistent_hash.leave_after_Shutdown [OF assms(1) ok assms(4,3,5) l]
  then have "handle_event L shuffle me (EventMemberLeave [(name, addr)]) (svCluster (Shutdown s)) = (Val True, c')"
    using assms(5) l by simp
  moreover have "serving_shards (csShards c') =
      {i. 0 \<le> i \<and> i < n \<and> map_option nodeName (cl_GetPartitionOwner L (hring (csRing c')) i) = Some (nodeName (localNode (csRing c')))}"
    using after by (auto simp: consistent_hash.owned_def [OF assms(1)] consistent_hash.owner_def [OF assms(1)])
  ultimately show ?thesis
    using consistent_hash.Shutdown_stops(2) [OF assms(1) ok assms(4)] Shutdown_idempotent by blast
qed

definition ref_server :: "string fset server_state" where
  "ref_server = \<lparr>svShutdown = False, svCluster = ref_joined, svHttp = True, svGrpc = True\<rparr>"

theorem shutdown_is_undone_by_membership_witness:
  "serving_shards (csShards (svCluster (Shutdown ref_server))) = {} \<and>
   (\<exists>c'. handle_event ref_hash ref_shuffle ''n1'' (EventMemberLeave [(''n2'', ''a2'')]) (svCluster (Shutdown ref_server)) = (Val True, c') \<and>
      serving_shards (csShards c') = {0, 1, 2, 3})"
proof -
  have "fst (eventHandler ref_hash ref_shuffle ''n1'' [EventMemberJoin [(''n1'', ''a1''), (''n2'', ''a2'')]] (new_cluster_state ref_hash 4)) = Val ()"
    by code_simp
  then have e: "eventHandler ref_hash ref_shuffle ''n1'' [EventMemberJoin [(''n1'', ''a1''), (''n2'', ''a2'')]] (new_cluster_state ref_hash 4) =
      (Val (), svCluster ref_server)" by (simp add: ref_joined_def ref_server_def prod_eq_iff)
  have m: "''n1'' \<in> fmdom' (nodes (csRing (svCluster ref_server)))" "\<not> svShutdown ref_server" by code_simp+
  let ?c = "snd (handle_event ref_hash ref_shuffle ''n1'' (EventMemberLeave [(''n2'', ''a2'')]) (svCluster (Shutdown ref_server)))"
  have o: "map (\<lambda>i. map_option nodeName (cl_GetPartitionOwner ref_hash (hring (csRing ?c)) i) = Some (nodeName (localNode (csRing ?c)))) [0, 1, 2, 3] =
      [True, True, True, True]" by code_simp
  have r: "{i :: int. 0 \<le> i \<and> i < 4 \<and> P i} = {0, 1, 2, 3}" if "map P [0, 1, 2, 3] = [True, True, True, True]" for P
  proof -
    have "i \<in> {0, 1, 2, 3}" if "0 \<le> i" "i < 4" for i :: int using that by auto
    then show ?thesis using that by auto
  qed
  show ?thesis
    using shutdown_is_undone_by_membership [OF ref_ring.consistent_hash_axioms e m, of "''n2''" "''a2''"] r [OF o] by auto
qed

text \<open>C40. Whatever the order in which the signal, errors of the two servers and membership events arrive, the body
  of \<open>Shutdown\<close> is run by one thread and once, so its channel is not closed twice; and the process exits
  regularly only after a signal, when both servers have been stopped.\<close>

theorem shutdown_runs_once:
  assumes "life_steps L shuffle me (agent_Start s) ls s'" and "\<not> svShutdown s"
  shows "lfClosed s' \<le> 1 \<and> (\<forall>t u. in_body (lfPc s' t) \<and> in_body (lfPc s' u) \<longrightarrow> t = u) \<and>
    (lfProcess s' = Exited \<longrightarrow>
      Signal \<in> set ls \<and> svShutdown (lfServer s') \<and> \<not> svHttp (lfServer s') \<and> \<not> svGrpc (lfServer s'))"
proof -
  have i: "life_inv s'" using life_inv_steps [OF assms(1) life_inv_Start [OF assms(2)]] .
  moreover have "Signal \<in> set ls" if "lfProcess s' = Exited"
    using that waits_for_signal [OF assms(1)] by (auto simp: agent_Start_def)
  ultimately show ?thesis by (auto simp: life_inv_def shut_def)
qed

definition ref_started :: "string fset server_state" where
  "ref_started = \<lparr>svShutdown = False, svCluster = new_cluster_state ref_hash 4, svHttp = True, svGrpc = True\<rparr>"

theorem shutdown_runs_once_witness:
  "\<exists>s'. life_steps ref_hash ref_shuffle ''n1'' (agent_Start ref_started) (Signal # replicate 5 Step @ [Step]) s' \<and>
     lfProcess s' = Exited \<and> lfClosed s' \<le> 1 \<and> \<not> svHttp (lfServer s')"
proof -
  have "serving_shards (cluster_Stop (csShards (svCluster ref_started))) = {}"
    using cluster_Stop_serving(2) [of 4] ref_ring.new_node_ok by (simp add: ref_started_def ref_ring.node_ok_def)
  from shutdown_may_panic [OF _ this, of ref_hash ref_shuffle "''n1''"] obtain s1 s2
    where "life_steps ref_hash ref_shuffle ''n1'' (agent_Start ref_started) (Signal # replicate 5 Step) s1"
      and "life_steps ref_hash ref_shuffle ''n1'' s1 [Step] s2" and e: "lfProcess s2 = Exited"
    by (auto simp: ref_started_def)
  then have s: "life_steps ref_hash ref_shuffle ''n1'' (agent_Start ref_started) (Signal # replicate 5 Step @ [Step]) s2"
    using life_steps_trans by fastforce
  show ?thesis
    using shutdown_runs_once [OF s] s e by (intro exI [where x = s2]) (simp add: ref_started_def)
qed

end
